(* ===== verification/Prelude.thy ===== *)
theory Prelude
  imports Main "HOL-Library.Word"
begin

text \<open>
  Shared vocabulary of the development: the model's machine integers and byte arrays, Rust's
  checked and saturating arithmetic, results with early return, big-endian integers, slices,
  and the ordered map that stands for \<^verbatim>\<open>BTreeMap\<close>.
\<close>

named_theorems byte_simps
named_theorems result_simps

section \<open>Machine integers and byte arrays\<close>

type_synonym u8 = "8 word"
type_synonym u16 = "16 word"
type_synonym u32 = "32 word"
type_synonym u64 = "64 word"
type_synonym bytes = "u8 list"

text \<open>
  A fixed-size array \<^verbatim>\<open>[u8; N]\<close> is a word of \<open>8 * N\<close> bits: its byte \<open>0\<close> is the most
  significant one, so that the lexicographic order Rust derives for arrays is the order of words.
\<close>

type_synonym bytes4 = "32 word"
type_synonym bytes16 = "128 word"
type_synonym bytes32 = "256 word"
type_synonym bytes64 = "512 word"

definition checked_add :: "'a::len word \<Rightarrow> 'a word \<Rightarrow> 'a word option" where
  "checked_add a b = (if unat a + unat b < 2 ^ LENGTH('a) then Some (a + b) else None)"

definition saturating_add :: "'a::len word \<Rightarrow> 'a word \<Rightarrow> 'a word" where
  "saturating_add a b = (if unat a + unat b < 2 ^ LENGTH('a) then a + b else - 1)"

definition saturating_sub :: "'a::len word \<Rightarrow> 'a word \<Rightarrow> 'a word" where
  "saturating_sub a b = (if b \<le> a then a - b else 0)"

lemma unat_less: "unat (w :: 'a::len word) < 2 ^ LENGTH('a)"
  by (rule unsigned_less)

lemma checked_add_Some: "checked_add a b = Some c \<Longrightarrow> unat c = unat a + unat b"
  by (auto simp: checked_add_def unat_word_ariths split: if_splits)

lemma checked_add_Some_less:
  "checked_add a b = Some c \<Longrightarrow> 0 < b \<Longrightarrow> a < c"
  by (auto dest: checked_add_Some simp: word_less_nat_alt)

lemma unat_saturating_sub [byte_simps]: "unat (saturating_sub a b) = unat a - unat b"
  by (auto simp: saturating_sub_def unat_sub word_le_nat_alt)

lemma unat_saturating_add:
  "unat (saturating_add a (b :: 'a::len word)) = min (unat a + unat b) (2 ^ LENGTH('a) - 1)"
  by (auto simp: saturating_add_def unat_word_ariths unsigned_minus_1_eq_mask mask_eq_exp_minus_1)

lemma saturating_add_of_nat:
  assumes "m + n < 2 ^ LENGTH('a::len)"
  shows "saturating_add (of_nat m) (of_nat n :: 'a word) = of_nat (m + n)"
  using assms by (simp add: saturating_add_def unat_of_nat)

lemma checked_add_of_nat:
  assumes "m + n < 2 ^ LENGTH('a::len)"
  shows "checked_add (of_nat m) (of_nat n :: 'a word) = Some (of_nat (m + n))"
  using assms by (simp add: checked_add_def unat_of_nat)

section \<open>Results and early return\<close>

text \<open>
  \<^verbatim>\<open>Result<T, E>\<close> is the sum \<open>'e + 'a\<close>; \<open>rbind\<close> is the \<^verbatim>\<open>?\<close> operator, \<open>ok_or\<close> and
  \<open>map_err\<close> are the methods of that name.
\<close>

abbreviation Ok :: "'a \<Rightarrow> 'e + 'a" where "Ok \<equiv> Inr"
abbreviation Err :: "'e \<Rightarrow> 'e + 'a" where "Err \<equiv> Inl"

definition rbind :: "'e + 'a \<Rightarrow> ('a \<Rightarrow> 'e + 'b) \<Rightarrow> 'e + 'b" where
  "rbind r f = (case r of Inl e \<Rightarrow> Inl e | Inr x \<Rightarrow> f x)"

definition ok_or :: "'e \<Rightarrow> 'a option \<Rightarrow> 'e + 'a" where
  "ok_or e x = (case x of None \<Rightarrow> Inl e | Some y \<Rightarrow> Inr y)"

definition map_err :: "('e \<Rightarrow> 'f) \<Rightarrow> 'e + 'a \<Rightarrow> 'f + 'a" where
  "map_err f r = (case r of Inl e \<Rightarrow> Inl (f e) | Inr x \<Rightarrow> Inr x)"

definition is_ok :: "'e + 'a \<Rightarrow> bool" where
  "is_ok r = (case r of Inl e \<Rightarrow> False | Inr x \<Rightarrow> True)"

lemma rbind_simps [simp]: "rbind (Inl e) f = Inl e" "rbind (Inr x) f = f x"
  by (simp_all add: rbind_def)

lemma ok_or_simps [simp]: "ok_or e None = Inl e" "ok_or e (Some x) = Inr x"
  by (simp_all add: ok_or_def)

lemma map_err_simps [simp]: "map_err g (Inl e) = Inl (g e)" "map_err g (Inr x) = Inr x"
  by (simp_all add: map_err_def)

lemma is_ok_simps [simp]: "\<not> is_ok (Inl e)" "is_ok (Inr x)"
  by (simp_all add: is_ok_def)

lemma rbind_eq_Inr [result_simps]: "rbind r f = Inr y \<longleftrightarrow> (\<exists>x. r = Inr x \<and> f x = Inr y)"
  by (cases r) auto

lemma ok_or_eq_Inr [result_simps]: "ok_or e x = Inr y \<longleftrightarrow> x = Some y"
  by (cases x) auto

lemma map_err_eq_Inr [result_simps]: "map_err g r = Inr y \<longleftrightarrow> r = Inr y"
  by (cases r) auto

lemma if_Err_eq_Inr [result_simps]: "(if c then Inl e else r) = Inr y \<longleftrightarrow> \<not> c \<and> r = Inr y"
  by simp

lemma is_ok_iff: "is_ok r \<longleftrightarrow> (\<exists>x. r = Inr x)"
  by (cases r) auto

text \<open>Mapping a fallible function over a list stops at the first error.\<close>

fun try_map :: "('a \<Rightarrow> 'e + 'b) \<Rightarrow> 'a list \<Rightarrow> 'e + 'b list" where
  "try_map f [] = Inr []"
| "try_map f (x # xs) = rbind (f x) (\<lambda>y. rbind (try_map f xs) (\<lambda>ys. Inr (y # ys)))"

lemma try_map_Inr: "try_map f xs = Inr ys \<Longrightarrow> length ys = length xs \<and> (\<forall>i < length xs. f (xs ! i) = Inr (ys ! i))"
proof (induction xs arbitrary: ys)
  case (Cons x xs)
  then obtain y ys' where "f x = Inr y" "try_map f xs = Inr ys'" "ys = y # ys'"
    by (auto simp: result_simps)
  with Cons.IH [of ys'] show ?case by (auto simp: nth_Cons split: nat.splits)
qed simp

text \<open>The loop \<^verbatim>\<open>for _ in 0..count { items.push(read(decoder)?) }\<close> of the decoders.\<close>

fun repeat_dec :: "(bytes \<Rightarrow> 'e + 'a \<times> bytes) \<Rightarrow> nat \<Rightarrow> bytes \<Rightarrow> 'e + 'a list \<times> bytes" where
  "repeat_dec f 0 d = Inr ([], d)"
| "repeat_dec f (Suc k) d = rbind (f d) (\<lambda>(x, d). rbind (repeat_dec f k d) (\<lambda>(xs, d). Inr (x # xs, d)))"

lemma repeat_dec_enc:
  assumes "\<And>x r. x \<in> set xs \<Longrightarrow> f (enc x @ r) = Inr (x, r)"
  shows "repeat_dec f (length xs) (concat (map enc xs) @ r) = Inr (xs, r)"
  using assms by (induction xs) simp_all

lemma repeat_dec_all:
  assumes "repeat_dec f k d = Inr (xs, r)" and "\<And>x d r. f d = Inr (x, r) \<Longrightarrow> Q x"
  shows "length xs = k \<and> (\<forall>x \<in> set xs. Q x)"
  using assms(1)
proof (induction k arbitrary: d xs)
  case (Suc k)
  then obtain x d' ys where "f d = Inr (x, d')" "repeat_dec f k d' = Inr (ys, r)" "xs = x # ys"
    by (auto simp: result_simps)
  with Suc.IH [of d' ys] assms(2) show ?case by auto
qed simp

lemma length_concat_le: "(\<And>x. x \<in> set xs \<Longrightarrow> length (f x) \<le> n) \<Longrightarrow> length (concat (map f xs)) \<le> n * length xs"
proof (induction xs)
  case (Cons x xs)
  have "length (f x) \<le> n" using Cons.prems [of x] by simp
  moreover have "length (concat (map f xs)) \<le> n * length xs" using Cons by simp
  ultimately show ?case by simp
qed simp

section \<open>Big-endian integers\<close>

fun be_nat :: "nat \<Rightarrow> nat \<Rightarrow> bytes" where
  "be_nat 0 n = []"
| "be_nat (Suc k) n = be_nat k (n div 256) @ [of_nat n]"

definition nat_be :: "bytes \<Rightarrow> nat" where
  "nat_be bs = foldl (\<lambda>n b. n * 256 + unat b) 0 bs"

text \<open>\<^verbatim>\<open>to_be_bytes\<close> and \<^verbatim>\<open>from_be_bytes\<close>, for integers and for arrays.\<close>

definition be_bytes :: "'a::len word \<Rightarrow> bytes" where
  "be_bytes w = be_nat (LENGTH('a) div 8) (unat w)"

definition be_word :: "bytes \<Rightarrow> 'a::len word" where
  "be_word bs = of_nat (nat_be bs)"

lemma length_be_nat [simp]: "length (be_nat k n) = k"
  by (induction k arbitrary: n) auto

lemma nat_be_Nil [simp]: "nat_be [] = 0"
  by (simp add: nat_be_def)

lemma nat_be_snoc [simp]: "nat_be (bs @ [b]) = nat_be bs * 256 + unat b"
  by (simp add: nat_be_def)

lemma nat_be_be_nat: "nat_be (be_nat k n) = n mod 256 ^ k"
proof (induction k arbitrary: n)
  case (Suc k)
  have "n mod (256 * 256 ^ k) = 256 * (n div 256 mod 256 ^ k) + n mod 256"
    by (rule mod_mult2_eq)
  then show ?case using Suc by (simp add: unat_of_nat)
qed simp

lemma be_nat_nat_be: "be_nat (length bs) (nat_be bs) = bs"
proof (induction bs rule: rev_induct)
  case (snoc b bs)
  have "unat b < 256" using unsigned_less [of b] by simp
  then have "(nat_be bs * 256 + unat b) div 256 = nat_be bs" by simp
  moreover have "(of_nat (nat_be bs * 256 + unat b) :: u8) = of_nat (unat b)"
    by (simp only: word_of_nat_eq_iff take_bit_eq_mod) simp
  ultimately show ?case using snoc by simp
qed simp

lemma nat_be_less: "nat_be bs < 256 ^ length bs"
proof (induction bs rule: rev_induct)
  case (snoc b bs)
  have "unat b < 256" using unsigned_less [of b] by simp
  with snoc show ?case by simp
qed simp

lemma length_be_bytes [simp]: "length (be_bytes (w :: 'a::len word)) = LENGTH('a) div 8"
  by (simp add: be_bytes_def)

lemma pow256: "(256 :: nat) ^ k = 2 ^ (8 * k)"
  by (simp add: power_mult)

lemma be_word_be_bytes [simp]:
  fixes w :: "'a::len word"
  assumes "8 dvd LENGTH('a)"
  shows "be_word (be_bytes w) = w"
proof -
  have "unat w < 256 ^ (LENGTH('a) div 8)"
    using assms unsigned_less [of w] by (simp add: pow256)
  then show ?thesis
    by (simp add: be_word_def be_bytes_def nat_be_be_nat)
qed

lemma be_bytes_be_word:
  assumes "length bs * 8 = LENGTH('a::len)"
  shows "be_bytes (be_word bs :: 'a word) = bs"
proof -
  have "nat_be bs < 2 ^ LENGTH('a)"
    using nat_be_less [of bs] assms by (simp add: pow256 mult.commute)
  moreover have "LENGTH('a) div 8 = length bs" using assms by simp
  ultimately show ?thesis
    by (simp add: be_bytes_def be_word_def unat_of_nat be_nat_nat_be)
qed

lemma be_bytes_inject:
  fixes v w :: "'a::len word"
  assumes "8 dvd LENGTH('a)" and "be_bytes v = be_bytes w"
  shows "v = w"
  using assms by (metis be_word_be_bytes)

text \<open>\<^verbatim>\<open>bytes.try_into()\<close> for an array: succeeds on exactly the right length.\<close>

definition try_array :: "bytes \<Rightarrow> 'a::len word option" where
  "try_array bs = (if length bs * 8 = LENGTH('a) then Some (be_word bs) else None)"

lemma try_array_be_bytes [simp]:
  fixes w :: "'a::len word"
  assumes "8 dvd LENGTH('a)"
  shows "try_array (be_bytes w) = Some w"
  using assms by (simp add: try_array_def)

lemma try_array_Some:
  "try_array bs = Some (w :: 'a::len word) \<Longrightarrow> be_bytes w = bs"
  by (auto simp: try_array_def be_bytes_be_word split: if_splits)

section \<open>Text and slices\<close>

text \<open>A byte-string literal \<^verbatim>\<open>b"..."\<close>; the trailing \<^verbatim>\<open>\0\<close> of the domain separators is added apart.\<close>

definition ascii :: "string \<Rightarrow> bytes" where
  "ascii s = map of_char s"

text \<open>\<^verbatim>\<open>bytes.get(i..j)\<close>\<close>

definition slice :: "'a list \<Rightarrow> nat \<Rightarrow> nat \<Rightarrow> 'a list option" where
  "slice xs i j = (if i \<le> j \<and> j \<le> length xs then Some (take (j - i) (drop i xs)) else None)"

lemma slice_middle: "slice (as @ bs @ cs) (length as) (length as + length bs) = Some bs"
  by (simp add: slice_def)

lemma slice_None: "length xs < j \<Longrightarrow> slice xs i j = None"
  by (simp add: slice_def)

lemma slice_Some_length: "slice xs i j = Some ys \<Longrightarrow> length ys = j - i \<and> j \<le> length xs"
  by (auto simp: slice_def split: if_splits)

section \<open>Sorted sequences\<close>

text \<open>\<^verbatim>\<open>items.windows(2).all(|pair| first < second)\<close>, also the meaning of
  \<^verbatim>\<open>is_sorted_by(|l, r| l < r)\<close>.\<close>

fun strictly_sorted :: "'a::linorder list \<Rightarrow> bool" where
  "strictly_sorted (x # y # xs) = (x < y \<and> strictly_sorted (y # xs))"
| "strictly_sorted _ = True"

lemma strictly_sorted_iff: "strictly_sorted xs \<longleftrightarrow> sorted_wrt (<) xs"
  by (induction xs rule: strictly_sorted.induct) (auto dest: less_trans)

lemma strictly_sorted_distinct: "strictly_sorted xs \<Longrightarrow> distinct xs \<and> sorted xs"
  by (simp add: strictly_sorted_iff strict_sorted_iff)

text \<open>\<^verbatim>\<open>sort_unstable(); dedup()\<close>\<close>

definition sort_dedup :: "'a::linorder list \<Rightarrow> 'a list" where
  "sort_dedup xs = remdups_adj (sort xs)"

lemma set_sort_dedup [simp]: "set (sort_dedup xs) = set xs"
  by (simp add: sort_dedup_def)

lemma remdups_adj_sorted_distinct:
  "sorted xs \<Longrightarrow> sorted (remdups_adj xs) \<and> distinct (remdups_adj xs)"
  by (induction xs rule: remdups_adj.induct) (auto simp: le_less)

lemma strictly_sorted_sort_dedup: "strictly_sorted (sort_dedup xs)"
  by (simp add: sort_dedup_def strictly_sorted_iff strict_sorted_iff remdups_adj_sorted_distinct)

lemma sort_dedup_id: "strictly_sorted xs \<Longrightarrow> sort_dedup xs = xs"
  by (auto simp: sort_dedup_def remdups_adj_distinct sorted_sort_id dest: strictly_sorted_distinct)

text \<open>
  \<^verbatim>\<open>slice.binary_search(x).is_ok()\<close> as the usual bisection of the half-open range \<open>[lo, hi)\<close>.
\<close>

function bisect :: "'a::linorder list \<Rightarrow> 'a \<Rightarrow> nat \<Rightarrow> nat \<Rightarrow> bool" where
  "bisect xs x lo hi =
     (if lo < hi then
        let mid = (lo + hi) div 2 in
        if xs ! mid = x then True
        else if xs ! mid < x then bisect xs x (Suc mid) hi
        else bisect xs x lo mid
      else False)"
  by pat_completeness auto
termination
  by (relation "measure (\<lambda>(xs, x, lo, hi). hi - lo)") auto

declare bisect.simps [simp del]

definition binary_search_ok :: "'a::linorder list \<Rightarrow> 'a \<Rightarrow> bool" where
  "binary_search_ok xs x = bisect xs x 0 (length xs)"

lemma bisect_iff:
  assumes "sorted xs" and "hi \<le> length xs"
  shows "bisect xs x lo hi \<longleftrightarrow> (\<exists>i. lo \<le> i \<and> i < hi \<and> xs ! i = x)"
  using assms
proof (induction xs x lo hi rule: bisect.induct)
  case (1 xs x lo hi)
  let ?m = "(lo + hi) div 2"
  show ?case
  proof (cases "lo < hi")
    case False
    then show ?thesis by (subst bisect.simps) auto
  next
    case True
    then have m: "lo \<le> ?m" "?m < hi" by auto
    consider "xs ! ?m = x" | "xs ! ?m < x" | "x < xs ! ?m" by fastforce
    then show ?thesis
    proof cases
      case 1
      then show ?thesis using True m by (subst bisect.simps) (auto simp: Let_def)
    next
      case 2
      have below: "xs ! i < x" if "lo \<le> i" "i \<le> ?m" for i
        using "1.prems" that 2 m by (meson le_less_trans less_le_trans sorted_nth_mono)
      have right: "Suc ?m \<le> i" if "lo \<le> i" "xs ! i = x" for i
        using below [of i] that by (cases "i \<le> ?m") auto
      have "bisect xs x lo hi = bisect xs x (Suc ?m) hi"
        using True 2 by (subst bisect.simps) (auto simp: Let_def)
      also have "\<dots> \<longleftrightarrow> (\<exists>i. Suc ?m \<le> i \<and> i < hi \<and> xs ! i = x)"
        using "1.IH"(1) [OF True refl] 2 "1.prems" by simp
      also have "\<dots> \<longleftrightarrow> (\<exists>i. lo \<le> i \<and> i < hi \<and> xs ! i = x)"
        by (rule ex_cong1) (use right m in auto)
      finally show ?thesis .
    next
      case 3
      have above: "x < xs ! i" if "?m \<le> i" "i < hi" for i
        using "1.prems" that 3 by (meson less_le_trans sorted_nth_mono)
      have left: "i < ?m" if "i < hi" "xs ! i = x" for i
        using above [of i] that by (cases "i < ?m") auto
      have "bisect xs x lo hi = bisect xs x lo ?m"
        using True 3 by (subst bisect.simps) (auto simp: Let_def)
      also have "\<dots> \<longleftrightarrow> (\<exists>i. lo \<le> i \<and> i < ?m \<and> xs ! i = x)"
        using "1.IH"(2) [OF True refl] 3 "1.prems" m by simp
      also have "\<dots> \<longleftrightarrow> (\<exists>i. lo \<le> i \<and> i < hi \<and> xs ! i = x)"
        by (rule ex_cong1) (use left m in auto)
      finally show ?thesis .
    qed
  qed
qed

lemma binary_search_ok_iff: "sorted xs \<Longrightarrow> binary_search_ok xs x \<longleftrightarrow> x \<in> set xs"
  by (auto simp: binary_search_ok_def bisect_iff in_set_conv_nth)

lemma nat_be_append: "nat_be (xs @ ys) = nat_be xs * 256 ^ length ys + nat_be ys"
  by (induction ys rule: rev_induct) (simp_all add: append_assoc [symmetric] algebra_simps del: append_assoc)

lemma be_word_append:
  fixes k :: bytes32
  shows "be_word (xs @ be_bytes k) = k"
proof -
  have "(of_nat (n * 2 ^ LENGTH(256) + m) :: bytes32) = of_nat m" for n m
    by (simp only: word_of_nat_eq_iff take_bit_eq_mod mod_mult_self3)
  then have "(of_nat (n * 2 ^ 256 + m) :: bytes32) = of_nat m" for n m by simp
  from this [of "nat_be xs" "nat_be (be_bytes k)"] show ?thesis
    using be_word_be_bytes [of k] by (simp only: be_word_def nat_be_append pow256 length_be_bytes) simp
qed

end
