(* ===== verification/Primitives.thy ===== *)
theory Primitives
  imports Prelude
begin

text \<open>
  The third-party code the program calls, as one record of functions that every definition using
  it takes as an argument: SHA-256 (\<^verbatim>\<open>sha2\<close>), Ed25519 (\<^verbatim>\<open>ed25519_dalek\<close>) and the CBOR encoder and
  decoder (\<^verbatim>\<open>minicbor\<close>). Two locales state the documented behaviour the program relies on. A
  decoder is its remaining input: \<^verbatim>\<open>decoder.position() == input.len()\<close> holds when nothing remains.
\<close>

record prims =
  sha256 :: "bytes \<Rightarrow> bytes32"
  ed_public :: "bytes32 \<Rightarrow> bytes32"
  ed_sign :: "bytes32 \<Rightarrow> bytes \<Rightarrow> bytes64"
  ed_verify :: "bytes32 \<Rightarrow> bytes \<Rightarrow> bytes64 \<Rightarrow> bool"
  ed_valid_key :: "bytes32 \<Rightarrow> bool"
  enc_array :: "u64 \<Rightarrow> bytes"
  enc_u8 :: "u8 \<Rightarrow> bytes"
  enc_u16 :: "u16 \<Rightarrow> bytes"
  enc_u64 :: "u64 \<Rightarrow> bytes"
  enc_bytes :: "bytes \<Rightarrow> bytes"
  enc_str :: "string \<Rightarrow> bytes"
  dec_array :: "bytes \<Rightarrow> (u64 option \<times> bytes) option"
  dec_u8 :: "bytes \<Rightarrow> (u8 \<times> bytes) option"
  dec_u16 :: "bytes \<Rightarrow> (u16 \<times> bytes) option"
  dec_u64 :: "bytes \<Rightarrow> (u64 \<times> bytes) option"
  dec_bytes :: "bytes \<Rightarrow> (bytes \<times> bytes) option"
  dec_str :: "bytes \<Rightarrow> (string \<times> bytes) option"

definition is_ascii :: "string \<Rightarrow> bool" where
  "is_ascii s = list_all (\<lambda>c. of_char c < (128 :: nat)) s"

section \<open>What the program relies on\<close>

text \<open>
  CBOR (RFC 8949): a written item is read back, and the sizes of the heads. \<^verbatim>\<open>Encoder\<close> writes
  lengths as 64-bit numbers, so the byte strings of the laws are shorter than \<open>2 ^ 64\<close>.
\<close>

locale minicbor =
  fixes P :: prims
  assumes dec_array_enc: "dec_array P (enc_array P n @ r) = Some (Some n, r)"
    and dec_u8_enc: "dec_u8 P (enc_u8 P b @ r) = Some (b, r)"
    and dec_u16_enc: "dec_u16 P (enc_u16 P h @ r) = Some (h, r)"
    and dec_u64_enc: "dec_u64 P (enc_u64 P n @ r) = Some (n, r)"
    and dec_bytes_enc: "length bs < 2 ^ 64 \<Longrightarrow> dec_bytes P (enc_bytes P bs @ r) = Some (bs, r)"
    and dec_str_enc: "length s < 2 ^ 64 \<Longrightarrow> is_ascii s \<Longrightarrow> dec_str P (enc_str P s @ r) = Some (s, r)"
    and length_enc_array: "n < 24 \<Longrightarrow> length (enc_array P n) = 1" "length (enc_array P n) \<le> 9"
    and length_enc_array_u16: "n < 65536 \<Longrightarrow> length (enc_array P n) \<le> 3"
    and length_enc_u8: "length (enc_u8 P b) \<le> 2"
    and length_enc_u16: "length (enc_u16 P h) \<le> 3"
    and length_enc_u64: "length (enc_u64 P n) \<le> 9"
    and enc_array_nonempty: "enc_array P n \<noteq> []"
    and length_enc_bytes_u8: "length bs < 256 \<Longrightarrow> length (enc_bytes P bs) \<le> length bs + 2"
    and length_enc_bytes_u16: "length bs < 65536 \<Longrightarrow> length (enc_bytes P bs) \<le> length bs + 3"
    and length_enc_bytes_ge: "length bs \<le> length (enc_bytes P bs)"
    and length_enc_str_u8: "length s < 256 \<Longrightarrow> length (enc_str P s) \<le> length s + 2"
begin

lemma dec_enc_end:
  "dec_array P (enc_array P n) = Some (Some n, [])"
  "dec_u8 P (enc_u8 P b) = Some (b, [])"
  "dec_u16 P (enc_u16 P h) = Some (h, [])"
  "dec_u64 P (enc_u64 P n) = Some (n, [])"
  "length bs < 2 ^ 64 \<Longrightarrow> dec_bytes P (enc_bytes P bs) = Some (bs, [])"
  "length s < 2 ^ 64 \<Longrightarrow> is_ascii s \<Longrightarrow> dec_str P (enc_str P s) = Some (s, [])"
  using dec_array_enc [of n "[]"] dec_u8_enc [of b "[]"] dec_u16_enc [of h "[]"]
    dec_u64_enc [of n "[]"] dec_bytes_enc [of bs "[]"] dec_str_enc [of s "[]"]
  by simp_all

lemma dec_fixed_enc [simp]:
  fixes w :: "'a::len word"
  assumes "LENGTH('a) < 2 ^ 64"
  shows "dec_bytes P (enc_bytes P (be_bytes w) @ r) = Some (be_bytes w, r)"
    "dec_bytes P (enc_bytes P (be_bytes w)) = Some (be_bytes w, [])"
proof -
  have "length (be_bytes w) < 2 ^ 64" using assms by simp
  then show "dec_bytes P (enc_bytes P (be_bytes w) @ r) = Some (be_bytes w, r)"
    "dec_bytes P (enc_bytes P (be_bytes w)) = Some (be_bytes w, [])"
    by (rule dec_bytes_enc, rule dec_enc_end)
qed

lemma length_enc_bytes32: "length (enc_bytes P (be_bytes (w :: bytes32))) \<le> 34"
  using length_enc_bytes_u8 [of "be_bytes w"] by simp

lemma length_enc_bytes64: "length (enc_bytes P (be_bytes (w :: bytes64))) \<le> 66"
  using length_enc_bytes_u8 [of "be_bytes w"] by simp

lemmas cbor_simps = dec_array_enc dec_u8_enc dec_u16_enc dec_u64_enc dec_bytes_enc dec_str_enc
  dec_enc_end

end

text \<open>Ed25519: a signature made with a key verifies under its public key, and public keys parse.\<close>

locale ed25519 =
  fixes P :: prims
  assumes verify_sign: "ed_verify P (ed_public P seed) m (ed_sign P seed m)"
    and public_valid: "ed_valid_key P (ed_public P seed)"

locale primitives = minicbor P + ed25519 P for P

section \<open>Canonical codecs\<close>

text \<open>
  The contract every wire format of the program follows: decoding accepts exactly the bytes the
  encoder writes for a well-formed value.
\<close>

locale canonical_codec =
  fixes enc :: "'a \<Rightarrow> 'e + bytes"
    and dec :: "bytes \<Rightarrow> 'e + 'a"
    and wf :: "'a \<Rightarrow> bool"
  assumes dec_enc: "wf v \<Longrightarrow> enc v = Inr bs \<Longrightarrow> dec bs = Inr v"
    and enc_dec: "dec bs = Inr v \<Longrightarrow> enc v = Inr bs"
    and wf_dec: "dec bs = Inr v \<Longrightarrow> wf v"
begin

lemma dec_iff: "dec bs = Inr v \<longleftrightarrow> wf v \<and> enc v = Inr bs"
  using dec_enc enc_dec wf_dec by blast

text \<open>Each value has one representation, and distinct values have distinct ones.\<close>

lemma dec_unique: "dec as = Inr v \<Longrightarrow> dec bs = Inr v \<Longrightarrow> as = bs"
  by (auto dest!: enc_dec)

lemma enc_inject: "wf v \<Longrightarrow> wf w \<Longrightarrow> enc v = Inr bs \<Longrightarrow> enc w = Inr bs \<Longrightarrow> v = w"
  by (auto dest!: dec_enc)

end

section \<open>A concrete instance\<close>

text \<open>
  The laws have a model: CBOR heads as RFC 8949 defines them, with a checksum and a keyed tag in
  the places of the hash and the signature. It serves to evaluate the definitions on closed inputs.
\<close>

definition cbor_head :: "nat \<Rightarrow> u64 \<Rightarrow> bytes" where
  "cbor_head major n =
     (if n < 24 then [of_nat (32 * major + unat n)]
      else if n < 256 then of_nat (32 * major + 24) # be_nat 1 (unat n)
      else if n < 65536 then of_nat (32 * major + 25) # be_nat 2 (unat n)
      else if n < 4294967296 then of_nat (32 * major + 26) # be_nat 4 (unat n)
      else of_nat (32 * major + 27) # be_nat 8 (unat n))"

fun cbor_arg :: "nat \<Rightarrow> bytes \<Rightarrow> (u64 \<times> bytes) option" where
  "cbor_arg info bs =
     (if info < 24 then Some (of_nat info, bs)
      else if 27 < info then None
      else let k = 2 ^ (info - 24) in
        if length bs < k then None else Some (of_nat (nat_be (take k bs)), drop k bs))"

fun cbor_item :: "nat \<Rightarrow> bytes \<Rightarrow> (u64 \<times> bytes) option" where
  "cbor_item major [] = None"
| "cbor_item major (b # bs) = (if unat b div 32 = major then cbor_arg (unat b mod 32) bs else None)"

definition cbor_uint :: "bytes \<Rightarrow> ('a::len word \<times> bytes) option" where
  "cbor_uint bs =
     (case cbor_item 0 bs of None \<Rightarrow> None
      | Some (n, r) \<Rightarrow> if unat n < 2 ^ LENGTH('a) then Some (ucast n, r) else None)"

definition cbor_string :: "nat \<Rightarrow> bytes \<Rightarrow> (bytes \<times> bytes) option" where
  "cbor_string major bs =
     (case cbor_item major bs of None \<Rightarrow> None
      | Some (n, r) \<Rightarrow> if unat n \<le> length r then Some (take (unat n) r, drop (unat n) r) else None)"

definition reference_prims :: prims where
  "reference_prims = \<lparr>
     sha256 = (\<lambda>bs. be_word bs + of_nat (length bs)),
     ed_public = (\<lambda>k. k),
     ed_sign = (\<lambda>k m. be_word (be_bytes k @ be_bytes (be_word m :: bytes32))),
     ed_verify = (\<lambda>k m s. s = be_word (be_bytes k @ be_bytes (be_word m :: bytes32))),
     ed_valid_key = (\<lambda>_. True),
     enc_array = cbor_head 4,
     enc_u8 = (\<lambda>b. cbor_head 0 (ucast b)),
     enc_u16 = (\<lambda>h. cbor_head 0 (ucast h)),
     enc_u64 = cbor_head 0,
     enc_bytes = (\<lambda>bs. cbor_head 2 (of_nat (length bs)) @ bs),
     enc_str = (\<lambda>s. cbor_head 3 (of_nat (length s)) @ ascii s),
     dec_array = (\<lambda>bs. case bs of [] \<Rightarrow> None
        | b # r \<Rightarrow> if b = 159 then Some (None, r)
                   else map_option (\<lambda>(n, r). (Some n, r)) (cbor_item 4 bs)),
     dec_u8 = cbor_uint,
     dec_u16 = cbor_uint,
     dec_u64 = cbor_uint,
     dec_bytes = cbor_string 2,
     dec_str = (\<lambda>bs. case cbor_string 3 bs of None \<Rightarrow> None
        | Some (s, r) \<Rightarrow> if list_all (\<lambda>b. b < 128) s then Some (map (\<lambda>b. char_of (unat b)) s, r) else None)
   \<rparr>"

declare cbor_arg.simps [simp del] cbor_item.simps [simp del]

lemma unat_u8: "n < 256 \<Longrightarrow> unat (of_nat n :: u8) = n"
  by (simp add: unat_of_nat)

lemma u8_head: "m < 8 \<Longrightarrow> i < 32 \<Longrightarrow> unat (of_nat (32 * m + i) :: u8) = 32 * m + i"
  by (rule unat_u8) simp

lemma cbor_arg_be_nat:
  assumes "k = 2 ^ (i - 24)" and "24 \<le> i" and "i \<le> 27" and "unat n < 256 ^ k"
  shows "cbor_arg i (be_nat k (unat n) @ r) = Some (n, r)"
  using assms by (simp add: cbor_arg.simps nat_be_be_nat Let_def)

lemma cbor_item_head:
  assumes "m < 8"
  shows "cbor_item m (cbor_head m n @ r) = Some (n, r)"
proof -
  have head: "cbor_item m (of_nat (32 * m + i) # bs) = cbor_arg i bs" if "i < 32" for i bs
    using that assms by (simp only: cbor_item.simps u8_head) simp
  have cmp: "n < 24 \<longleftrightarrow> unat n < 24" "n < 256 \<longleftrightarrow> unat n < 256" "n < 65536 \<longleftrightarrow> unat n < 65536"
    "n < 4294967296 \<longleftrightarrow> unat n < 4294967296"
    by (simp_all add: word_less_nat_alt)
  have big: ?thesis
    if "cbor_head m n = of_nat (32 * m + i) # be_nat k (unat n)" "k = 2 ^ (i - 24)" "24 \<le> i"
      "i \<le> 27" "unat n < 256 ^ k" for i k
    unfolding that(1) append.simps
    by (subst head) (use that in \<open>auto intro: cbor_arg_be_nat\<close>)
  consider "n < 24" | "\<not> n < 24" "n < 256" | "\<not> n < 24" "\<not> n < 256" "n < 65536"
    | "\<not> n < 24" "\<not> n < 256" "\<not> n < 65536" "n < 4294967296"
    | "\<not> n < 24" "\<not> n < 256" "\<not> n < 65536" "\<not> n < 4294967296" by blast
  then show ?thesis
  proof cases
    case 1
    then have "unat n < 24" by (simp add: cmp)
    then have "cbor_item m (of_nat (32 * m + unat n) # r) = Some (n, r)"
      by (subst head) (auto simp: cbor_arg.simps)
    moreover have "cbor_head m n = [of_nat (32 * m + unat n)]" using 1 by (simp only: cbor_head_def if_True)
    ultimately show ?thesis by (simp only: append.simps)
  next
    case 2
    show ?thesis by (rule big [of 24 1]) (use 2 in \<open>simp_all add: cbor_head_def cmp\<close>)
  next
    case 3
    show ?thesis by (rule big [of 25 2]) (use 3 in \<open>simp_all add: cbor_head_def cmp\<close>)
  next
    case 4
    show ?thesis by (rule big [of 26 4]) (use 4 in \<open>simp_all add: cbor_head_def cmp\<close>)
  next
    case 5
    show ?thesis by (rule big [of 27 8]) (use 5 unat_less [of n] in \<open>simp_all add: cbor_head_def cmp\<close>)
  qed
qed

lemma length_cbor_head:
  "length (cbor_head m n) \<le> 9" "n < 24 \<Longrightarrow> length (cbor_head m n) = 1"
  "n < 256 \<Longrightarrow> length (cbor_head m n) \<le> 2" "n < 65536 \<Longrightarrow> length (cbor_head m n) \<le> 3"
  "cbor_head m n \<noteq> []"
  by (auto simp: cbor_head_def)

lemma cbor_uint_head:
  assumes "unat n < 2 ^ LENGTH('a::len)"
  shows "cbor_uint (cbor_head 0 n @ r) = Some (ucast n :: 'a word, r)"
  using assms by (simp add: cbor_uint_def cbor_item_head)

lemma cbor_string_head:
  assumes "length bs < 2 ^ 64" and "m < 8"
  shows "cbor_string m (cbor_head m (of_nat (length bs)) @ bs @ r) = Some (bs, r)"
proof -
  have "unat (of_nat (length bs) :: u64) = length bs" using assms by (simp add: unat_of_nat)
  then show ?thesis using assms by (simp add: cbor_string_def cbor_item_head)
qed

lemma of_nat_less_u64:
  assumes "n < k" and "k < 2 ^ 64"
  shows "(of_nat n :: u64) < of_nat k"
  using assms by (simp add: word_less_nat_alt unat_of_nat)

lemma ascii_roundtrip:
  assumes "is_ascii s"
  shows "list_all (\<lambda>b. b < 128) (ascii s)" "map (\<lambda>b. char_of (unat b)) (ascii s) = s"
proof -
  have c: "unat (of_char c :: u8) = of_char c" for c
  proof -
    have "(of_char c :: nat) < 256" using range_nat_of_char by (metis atLeastLessThan_iff rangeI)
    then show ?thesis using unat_u8 [of "of_char c"] by (simp add: of_nat_of_char)
  qed
  show "list_all (\<lambda>b. b < 128) (ascii s)"
    using assms by (auto simp: is_ascii_def ascii_def list_all_iff word_less_nat_alt c)
  show "map (\<lambda>b. char_of (unat b)) (ascii s) = s"
    by (simp add: ascii_def c comp_def)
qed

lemma reference_fields [simp]:
  "enc_array reference_prims = cbor_head 4"
  "enc_u8 reference_prims b = cbor_head 0 (ucast b)"
  "enc_u16 reference_prims h = cbor_head 0 (ucast h)"
  "enc_u64 reference_prims = cbor_head 0"
  "enc_bytes reference_prims bs = cbor_head 2 (of_nat (length bs)) @ bs"
  "enc_str reference_prims s = cbor_head 3 (of_nat (length s)) @ ascii s"
  "dec_u8 reference_prims = cbor_uint"
  "dec_u16 reference_prims = cbor_uint"
  "dec_u64 reference_prims = cbor_uint"
  "dec_bytes reference_prims = cbor_string 2"
  "sha256 reference_prims bs = be_word bs + of_nat (length bs)"
  "ed_public reference_prims k = k"
  "ed_valid_key reference_prims k"
  "ed_sign reference_prims k m = be_word (be_bytes k @ be_bytes (be_word m :: bytes32))"
  "ed_verify reference_prims k m sg = (sg = ed_sign reference_prims k m)"
  by (simp_all add: reference_prims_def)

lemma reference_dec_array: "dec_array reference_prims (cbor_head 4 n @ r) = Some (Some n, r)"
proof -
  have item: "cbor_item 4 (cbor_head 4 n @ r) = Some (n, r)" by (rule cbor_item_head) simp
  have "hd (cbor_head 4 n) \<noteq> 159"
  proof
    assume "hd (cbor_head 4 n) = 159"
    then have "cbor_item 4 (cbor_head 4 n @ r) = cbor_arg 31 (tl (cbor_head 4 n) @ r)"
      using length_cbor_head(5) [of 4 n] by (cases "cbor_head 4 n") (auto simp: cbor_item.simps)
    with item show False by (simp add: cbor_arg.simps)
  qed
  with item show ?thesis
    using length_cbor_head(5) [of 4 n] by (cases "cbor_head 4 n") (auto simp: reference_prims_def)
qed

lemma reference_dec_str:
  assumes "length s < 2 ^ 64" and "is_ascii s"
  shows "dec_str reference_prims (enc_str reference_prims s @ r) = Some (s, r)"
proof -
  have "length (ascii s) = length s" by (simp add: ascii_def)
  then have "cbor_string 3 (cbor_head 3 (of_nat (length s)) @ ascii s @ r) = Some (ascii s, r)"
    using cbor_string_head [of "ascii s" 3 r] assms by simp
  then show ?thesis using ascii_roundtrip [OF assms(2)] by (simp add: reference_prims_def)
qed

lemma u64_of_nat_bounds:
  "n < 256 \<Longrightarrow> (of_nat n :: u64) < 256" "n < 65536 \<Longrightarrow> (of_nat n :: u64) < 65536"
  using of_nat_less_u64 [of n 256] of_nat_less_u64 [of n 65536] by simp_all

lemma ucast_u64:
  fixes w :: "'a::len word"
  assumes "LENGTH('a) \<le> 64"
  shows "unat (ucast w :: u64) = unat w" "ucast (ucast w :: u64) = w"
proof -
  have "unat w < 2 ^ 64"
    using unat_less [of w] assms power_increasing [of "LENGTH('a)" 64 "2 :: nat"] by linarith
  then have "take_bit LENGTH(64) (unat w) = unat w" by (simp add: take_bit_nat_eq_self)
  then show u: "unat (ucast w :: u64) = unat w" by (simp only: unsigned_ucast_eq)
  have "take_bit LENGTH('a) (unat w) = unat w" using unat_less [of w] by (rule take_bit_nat_eq_self)
  moreover have "unat (ucast (ucast w :: u64) :: 'a word) = take_bit LENGTH('a) (unat (ucast w :: u64))"
    by (rule unsigned_ucast_eq)
  ultimately show "ucast (ucast w :: u64) = w" by (simp only: u word_unat_eq_iff)
qed

interpretation reference: primitives reference_prims
proof unfold_locales
  fix b :: u8 and h :: u16 and n :: u64 and bs r :: bytes and s :: string and seed :: bytes32
  show "dec_u8 reference_prims (enc_u8 reference_prims b @ r) = Some (b, r)"
    using cbor_uint_head [of "ucast b", where 'a = 8] unat_less [of b] by (simp add: ucast_u64)
  show "dec_u16 reference_prims (enc_u16 reference_prims h @ r) = Some (h, r)"
    using cbor_uint_head [of "ucast h", where 'a = 16] unat_less [of h] by (simp add: ucast_u64)
  show "dec_u64 reference_prims (enc_u64 reference_prims n @ r) = Some (n, r)"
    using cbor_uint_head [of n, where 'a = 64] unat_less [of n] by simp
  show "dec_array reference_prims (enc_array reference_prims n @ r) = Some (Some n, r)"
    by (simp add: reference_dec_array)
  show "length bs < 2 ^ 64 \<Longrightarrow> dec_bytes reference_prims (enc_bytes reference_prims bs @ r) = Some (bs, r)"
    by (simp add: cbor_string_head)
  show "length s < 2 ^ 64 \<Longrightarrow> is_ascii s \<Longrightarrow> dec_str reference_prims (enc_str reference_prims s @ r) = Some (s, r)"
    by (rule reference_dec_str)
  show "length (enc_u8 reference_prims b) \<le> 2"
    using length_cbor_head(3) [of "ucast b" 0] unat_less [of b] by (simp add: word_less_nat_alt ucast_u64)
  show "length (enc_u16 reference_prims h) \<le> 3"
    using length_cbor_head(4) [of "ucast h" 0] unat_less [of h] by (simp add: word_less_nat_alt ucast_u64)
  show "length bs < 256 \<Longrightarrow> length (enc_bytes reference_prims bs) \<le> length bs + 2"
    using length_cbor_head(3) [of "of_nat (length bs)" 2] u64_of_nat_bounds(1) [of "length bs"] by simp
  show "length bs < 65536 \<Longrightarrow> length (enc_bytes reference_prims bs) \<le> length bs + 3"
    using length_cbor_head(4) [of "of_nat (length bs)" 2] u64_of_nat_bounds(2) [of "length bs"] by simp
  show "length s < 256 \<Longrightarrow> length (enc_str reference_prims s) \<le> length s + 2"
    using length_cbor_head(3) [of "of_nat (length s)" 3] u64_of_nat_bounds(1) [of "length s"]
    by (simp add: ascii_def)
qed (use length_cbor_head in simp_all)

end
