(* ===== verification/Identity.thy ===== *)
theory Identity
  imports Primitives
begin

text \<open>
  Identifiers (\<^verbatim>\<open>ids.rs\<close>) and signing identities (\<^verbatim>\<open>identity.rs\<close>): 32-byte identifiers derived
  from keys by a domain-separated hash, and domain-separated Ed25519 signatures. A verifying key is
  its 32 bytes.
\<close>

section \<open>Identifiers\<close>

datatype HiveId = HiveId (hive_bytes: bytes32)
datatype NodeId = NodeId (node_bytes: bytes32)
datatype TransportKeyId = TransportKeyId (transport_key_bytes: bytes32)

text \<open>The order Rust derives: lexicographic on the bytes, which is the order of the words.\<close>

instantiation NodeId :: linorder
begin

definition less_eq_NodeId :: "NodeId \<Rightarrow> NodeId \<Rightarrow> bool" where
  "less_eq_NodeId a b = (node_bytes a \<le> node_bytes b)"

definition less_NodeId :: "NodeId \<Rightarrow> NodeId \<Rightarrow> bool" where
  "less_NodeId a b = (node_bytes a < node_bytes b)"

instance
  by standard (auto simp: less_eq_NodeId_def less_NodeId_def NodeId.expand)

end

definition domain_hash :: "prims \<Rightarrow> bytes \<Rightarrow> bytes \<Rightarrow> bytes32" where
  "domain_hash P domain material = sha256 P (domain @ material)"

definition hive_from_root_verifying_key :: "prims \<Rightarrow> bytes32 \<Rightarrow> HiveId" where
  "hive_from_root_verifying_key P key =
     HiveId (domain_hash P (ascii ''supgang/hive-id/v1'' @ [0]) (be_bytes key))"

definition node_from_verifying_key :: "prims \<Rightarrow> bytes32 \<Rightarrow> NodeId" where
  "node_from_verifying_key P key =
     NodeId (domain_hash P (ascii ''supgang/node-id/v1'' @ [0]) (be_bytes key))"

definition transport_key_from_public_material :: "prims \<Rightarrow> bytes \<Rightarrow> TransportKeyId" where
  "transport_key_from_public_material P material =
     TransportKeyId (domain_hash P (ascii ''supgang/transport-key-id/v1'' @ [0]) material)"

section \<open>Signing identities\<close>

datatype IdentityError = Random | InvalidKeyLength

record DeviceIdentity =
  device_seed :: bytes32

record RootIdentity =
  root_seed :: bytes32

definition device_from_secret_bytes :: "bytes \<Rightarrow> IdentityError + DeviceIdentity" where
  "device_from_secret_bytes bs =
     rbind (ok_or InvalidKeyLength (try_array bs)) (\<lambda>seed. Ok \<lparr>device_seed = seed\<rparr>)"

definition root_from_secret_bytes :: "bytes \<Rightarrow> IdentityError + RootIdentity" where
  "root_from_secret_bytes bs =
     rbind (ok_or InvalidKeyLength (try_array bs)) (\<lambda>seed. Ok \<lparr>root_seed = seed\<rparr>)"

definition device_verifying_key :: "prims \<Rightarrow> DeviceIdentity \<Rightarrow> bytes32" where
  "device_verifying_key P d = ed_public P (device_seed d)"

definition device_node_id :: "prims \<Rightarrow> DeviceIdentity \<Rightarrow> NodeId" where
  "device_node_id P d = node_from_verifying_key P (device_verifying_key P d)"

definition device_sign_domain :: "prims \<Rightarrow> DeviceIdentity \<Rightarrow> bytes \<Rightarrow> bytes \<Rightarrow> bytes64" where
  "device_sign_domain P d domain message = ed_sign P (device_seed d) (domain @ message)"

definition root_verifying_key :: "prims \<Rightarrow> RootIdentity \<Rightarrow> bytes32" where
  "root_verifying_key P r = ed_public P (root_seed r)"

definition root_hive_id :: "prims \<Rightarrow> RootIdentity \<Rightarrow> HiveId" where
  "root_hive_id P r = hive_from_root_verifying_key P (root_verifying_key P r)"

definition root_sign_domain :: "prims \<Rightarrow> RootIdentity \<Rightarrow> bytes \<Rightarrow> bytes \<Rightarrow> bytes64" where
  "root_sign_domain P r domain message = ed_sign P (root_seed r) (domain @ message)"

definition verify_domain :: "prims \<Rightarrow> bytes32 \<Rightarrow> bytes \<Rightarrow> bytes \<Rightarrow> bytes64 \<Rightarrow> bool" where
  "verify_domain P key domain message signature = ed_verify P key (domain @ message) signature"

section \<open>What was signed verifies\<close>

context ed25519
begin

lemma device_signature_verifies:
  "verify_domain P (device_verifying_key P d) domain m (device_sign_domain P d domain m)"
  by (simp add: verify_domain_def device_verifying_key_def device_sign_domain_def verify_sign)

lemma root_signature_verifies:
  "verify_domain P (root_verifying_key P r) domain m (root_sign_domain P r domain m)"
  by (simp add: verify_domain_def root_verifying_key_def root_sign_domain_def verify_sign)

lemma device_key_valid: "ed_valid_key P (device_verifying_key P d)"
  by (simp add: device_verifying_key_def public_valid)

lemma root_key_valid: "ed_valid_key P (root_verifying_key P r)"
  by (simp add: root_verifying_key_def public_valid)

end

text \<open>In the concrete instance distinct keys have distinct identifiers.\<close>

lemma sample_nodes_distinct:
  assumes "node_from_verifying_key reference_prims a = node_from_verifying_key reference_prims b"
  shows "a = b"
proof -
  let ?d = "ascii ''supgang/node-id/v1'' @ [0]"
  have "sha256 reference_prims (?d @ be_bytes a) = sha256 reference_prims (?d @ be_bytes b)"
    using assms by (simp add: node_from_verifying_key_def domain_hash_def del: reference_fields)
  then have "(be_word (?d @ be_bytes a) :: bytes32) = be_word (?d @ be_bytes b)" by simp
  then show ?thesis unfolding be_word_append .
qed

end
