(* ===== verification/Membership.thy ===== *)
theory Membership
  imports Identity
begin

text \<open>
  Root-authorized membership certificates (\<^verbatim>\<open>membership.rs\<close>): roles, the checks on a certificate,
  signing and verification, and the canonical bounded encoding. Encoding to a byte vector cannot
  fail in \<^verbatim>\<open>minicbor\<close> (its error type is \<^verbatim>\<open>Infallible\<close>), so \<open>Encode\<close> never arises.
\<close>

unbundle bit_operations_syntax

section \<open>Roles\<close>

datatype MembershipError =
    UnsupportedVersion
  | ZeroSerial
  | NodeKeyMismatch
  | InvalidLifetime
  | LifetimeTooLong
  | MissingDeviceRole
  | UnknownRole
  | Expired
  | HiveRootMismatch
  | InvalidSignature
  | Oversized
  | Encode
  | Decode
  | Malformed
  | NonCanonical

datatype MembershipRoles = MembershipRoles (roles_bits: u64)

definition ROLE_DEVICE :: MembershipRoles where "ROLE_DEVICE = MembershipRoles 1"
definition ROLE_INTRODUCER :: MembershipRoles where "ROLE_INTRODUCER = MembershipRoles 2"
definition ROLE_CONTROL_RELAY :: MembershipRoles where "ROLE_CONTROL_RELAY = MembershipRoles 4"

definition ROLES_KNOWN_BITS :: u64 where
  "ROLES_KNOWN_BITS = roles_bits ROLE_DEVICE OR roles_bits ROLE_INTRODUCER OR roles_bits ROLE_CONTROL_RELAY"

definition roles_from_bits :: "u64 \<Rightarrow> MembershipError + MembershipRoles" where
  "roles_from_bits bits =
     (if bits AND NOT ROLES_KNOWN_BITS = 0 then Ok (MembershipRoles bits)
      else Err MembershipError.UnknownRole)"

definition roles_contains :: "MembershipRoles \<Rightarrow> MembershipRoles \<Rightarrow> bool" where
  "roles_contains self other = (roles_bits self AND roles_bits other = roles_bits other)"

definition roles_or :: "MembershipRoles \<Rightarrow> MembershipRoles \<Rightarrow> MembershipRoles" where
  "roles_or a b = MembershipRoles (roles_bits a OR roles_bits b)"

section \<open>Certificates\<close>

definition MEMBERSHIP_VERSION :: u16 where "MEMBERSHIP_VERSION = 1"
definition MAX_SIGNED_MEMBERSHIP_BYTES :: nat where "MAX_SIGNED_MEMBERSHIP_BYTES = 1024"
definition MAX_MEMBERSHIP_LIFETIME_SECONDS :: u64 where
  "MAX_MEMBERSHIP_LIFETIME_SECONDS = 10 * 366 * 24 * 60 * 60"
definition MEMBERSHIP_DOMAIN :: bytes where "MEMBERSHIP_DOMAIN = ascii ''supgang/membership/v1'' @ [0]"
definition CERTIFICATE_FIELDS :: u64 where "CERTIFICATE_FIELDS = 9"
definition MEMBERSHIP_ENVELOPE_VERSION :: u16 where "MEMBERSHIP_ENVELOPE_VERSION = 1"

record MembershipCertificate =
  mc_version :: u16
  mc_hive_id :: HiveId
  mc_node_id :: NodeId
  mc_device_verifying_key :: bytes32
  mc_serial :: u64
  mc_issued_at :: u64
  mc_expires_at :: u64
  mc_roles :: MembershipRoles
  mc_admission_nonce :: bytes32

record SignedMembership =
  sm_certificate :: MembershipCertificate
  sm_signature :: bytes

definition membership_validate_shape :: "prims \<Rightarrow> MembershipCertificate \<Rightarrow> MembershipError + unit" where
  "membership_validate_shape P c =
     (if mc_version c \<noteq> MEMBERSHIP_VERSION then Err MembershipError.UnsupportedVersion
      else if mc_serial c = 0 then Err MembershipError.ZeroSerial
      else if mc_node_id c \<noteq> node_from_verifying_key P (mc_device_verifying_key c)
        then Err MembershipError.NodeKeyMismatch
      else if mc_expires_at c \<le> mc_issued_at c then Err MembershipError.InvalidLifetime
      else if saturating_sub (mc_expires_at c) (mc_issued_at c) > MAX_MEMBERSHIP_LIFETIME_SECONDS
        then Err MembershipError.LifetimeTooLong
      else if roles_bits (mc_roles c) = 0 \<or> \<not> roles_contains (mc_roles c) ROLE_DEVICE
        then Err MembershipError.MissingDeviceRole
      else rbind (roles_from_bits (roles_bits (mc_roles c))) (\<lambda>_. Ok ()))"

definition membership_validate_time :: "MembershipCertificate \<Rightarrow> u64 \<Rightarrow> MembershipError + unit" where
  "membership_validate_time c now =
     (if mc_expires_at c < now then Err MembershipError.Expired else Ok ())"

section \<open>Encoding\<close>

definition encode_certificate :: "prims \<Rightarrow> MembershipCertificate \<Rightarrow> bytes" where
  "encode_certificate P c =
     enc_array P CERTIFICATE_FIELDS @
     enc_u16 P (mc_version c) @
     enc_bytes P (be_bytes (hive_bytes (mc_hive_id c))) @
     enc_bytes P (be_bytes (node_bytes (mc_node_id c))) @
     enc_bytes P (be_bytes (mc_device_verifying_key c)) @
     enc_u64 P (mc_serial c) @
     enc_u64 P (mc_issued_at c) @
     enc_u64 P (mc_expires_at c) @
     enc_u64 P (roles_bits (mc_roles c)) @
     enc_bytes P (be_bytes (mc_admission_nonce c))"

definition membership_require_array :: "prims \<Rightarrow> u64 \<Rightarrow> bytes \<Rightarrow> MembershipError + bytes" where
  "membership_require_array P expected d =
     rbind (ok_or MembershipError.Decode (dec_array P d)) (\<lambda>(n, d).
       if n = Some expected then Ok d else Err MembershipError.Malformed)"

definition membership_read_fixed :: "prims \<Rightarrow> bytes \<Rightarrow> MembershipError + (bytes32 \<times> bytes)" where
  "membership_read_fixed P d =
     rbind (ok_or MembershipError.Decode (dec_bytes P d)) (\<lambda>(bs, d).
     rbind (ok_or MembershipError.Malformed (try_array bs)) (\<lambda>w. Ok (w, d)))"

definition decode_certificate :: "prims \<Rightarrow> bytes \<Rightarrow> MembershipError + MembershipCertificate" where
  "decode_certificate P input =
     rbind (membership_require_array P CERTIFICATE_FIELDS input) (\<lambda>d.
     rbind (ok_or MembershipError.Decode (dec_u16 P d)) (\<lambda>(version, d).
     rbind (membership_read_fixed P d) (\<lambda>(hive_id, d).
     rbind (membership_read_fixed P d) (\<lambda>(node_id, d).
     rbind (membership_read_fixed P d) (\<lambda>(device_verifying_key, d).
     rbind (ok_or MembershipError.Decode (dec_u64 P d)) (\<lambda>(serial, d).
     rbind (ok_or MembershipError.Decode (dec_u64 P d)) (\<lambda>(issued_at, d).
     rbind (ok_or MembershipError.Decode (dec_u64 P d)) (\<lambda>(expires_at, d).
     rbind (ok_or MembershipError.Decode (dec_u64 P d)) (\<lambda>(bits, d).
     rbind (roles_from_bits bits) (\<lambda>roles.
     rbind (membership_read_fixed P d) (\<lambda>(admission_nonce, d).
       if d \<noteq> [] then Err MembershipError.Malformed
       else let certificate = \<lparr>mc_version = version, mc_hive_id = HiveId hive_id,
              mc_node_id = NodeId node_id, mc_device_verifying_key = device_verifying_key,
              mc_serial = serial, mc_issued_at = issued_at, mc_expires_at = expires_at,
              mc_roles = roles, mc_admission_nonce = admission_nonce\<rparr> in
         rbind (membership_validate_shape P certificate) (\<lambda>_.
           if encode_certificate P certificate \<noteq> input then Err MembershipError.NonCanonical
           else Ok certificate))))))))))))"

definition encode_signed_membership :: "prims \<Rightarrow> SignedMembership \<Rightarrow> MembershipError + bytes" where
  "encode_signed_membership P s =
     (if length (sm_signature s) \<noteq> 64 then Err MembershipError.InvalidSignature
      else let output =
          enc_array P 3 @
          enc_u16 P MEMBERSHIP_ENVELOPE_VERSION @
          enc_bytes P (encode_certificate P (sm_certificate s)) @
          enc_bytes P (sm_signature s) in
        if length output > MAX_SIGNED_MEMBERSHIP_BYTES then Err MembershipError.Oversized
        else Ok output)"

definition decode_signed_membership :: "prims \<Rightarrow> bytes \<Rightarrow> MembershipError + SignedMembership" where
  "decode_signed_membership P input =
     (if length input > MAX_SIGNED_MEMBERSHIP_BYTES then Err MembershipError.Oversized
      else rbind (membership_require_array P 3 input) (\<lambda>d.
        rbind (ok_or MembershipError.Decode (dec_u16 P d)) (\<lambda>(version, d).
        if version \<noteq> MEMBERSHIP_ENVELOPE_VERSION then Err MembershipError.UnsupportedVersion
        else rbind (ok_or MembershipError.Decode (dec_bytes P d)) (\<lambda>(payload, d).
        rbind (ok_or MembershipError.Decode (dec_bytes P d)) (\<lambda>(signature, d).
        if length signature \<noteq> 64 \<or> d \<noteq> [] then Err MembershipError.Malformed
        else rbind (decode_certificate P payload) (\<lambda>certificate.
          let signed = \<lparr>sm_certificate = certificate, sm_signature = signature\<rparr> in
          rbind (encode_signed_membership P signed) (\<lambda>again.
            if again \<noteq> input then Err MembershipError.NonCanonical else Ok signed)))))))"

section \<open>Signing and verification\<close>

definition sign_membership :: "prims \<Rightarrow> MembershipCertificate \<Rightarrow> RootIdentity \<Rightarrow> MembershipError + SignedMembership" where
  "sign_membership P c root =
     rbind (membership_validate_shape P c) (\<lambda>_.
       if mc_hive_id c \<noteq> root_hive_id P root then Err MembershipError.HiveRootMismatch
       else Ok \<lparr>sm_certificate = c,
         sm_signature = be_bytes (root_sign_domain P root MEMBERSHIP_DOMAIN (encode_certificate P c))\<rparr>)"

definition verify_membership :: "prims \<Rightarrow> SignedMembership \<Rightarrow> bytes32 \<Rightarrow> MembershipError + unit" where
  "verify_membership P s root_key =
     rbind (membership_validate_shape P (sm_certificate s)) (\<lambda>_.
       if mc_hive_id (sm_certificate s) \<noteq> hive_from_root_verifying_key P root_key
         then Err MembershipError.HiveRootMismatch
       else rbind (ok_or MembershipError.InvalidSignature (try_array (sm_signature s))) (\<lambda>signature.
         if \<not> verify_domain P root_key MEMBERSHIP_DOMAIN (encode_certificate P (sm_certificate s)) signature
         then Err MembershipError.InvalidSignature else Ok ()))"

section \<open>Lemmas\<close>

text \<open>A membership a decoder can yield: the certificate passes its checks and the signature has
  its fixed size.\<close>

definition membership_wf :: "prims \<Rightarrow> SignedMembership \<Rightarrow> bool" where
  "membership_wf P s \<longleftrightarrow>
     membership_validate_shape P (sm_certificate s) = Ok () \<and> length (sm_signature s) = 64"

lemma membership_eta [simp]:
  "\<lparr>mc_version = mc_version c, mc_hive_id = mc_hive_id c, mc_node_id = mc_node_id c,
    mc_device_verifying_key = mc_device_verifying_key c, mc_serial = mc_serial c,
    mc_issued_at = mc_issued_at c, mc_expires_at = mc_expires_at c, mc_roles = mc_roles c,
    mc_admission_nonce = mc_admission_nonce c\<rparr> = c"
  "\<lparr>sm_certificate = sm_certificate s, sm_signature = sm_signature s\<rparr> = s"
  by simp_all

lemma roles_of_valid:
  "membership_validate_shape P c = Ok () \<Longrightarrow> roles_from_bits (roles_bits (mc_roles c)) = Ok (mc_roles c)"
  by (auto simp: membership_validate_shape_def roles_from_bits_def split: if_splits)

context minicbor
begin

lemma length_encode_certificate: "length (encode_certificate P c) \<le> 176"
  using length_enc_array(1) [of CERTIFICATE_FIELDS] length_enc_u16 [of "mc_version c"]
    length_enc_bytes32 [of "hive_bytes (mc_hive_id c)"] length_enc_bytes32 [of "node_bytes (mc_node_id c)"]
    length_enc_bytes32 [of "mc_device_verifying_key c"] length_enc_bytes32 [of "mc_admission_nonce c"]
    length_enc_u64 [of "mc_serial c"] length_enc_u64 [of "mc_issued_at c"]
    length_enc_u64 [of "mc_expires_at c"] length_enc_u64 [of "roles_bits (mc_roles c)"]
  by (simp add: encode_certificate_def CERTIFICATE_FIELDS_def)

lemma membership_read_fixed_enc [simp]:
  "membership_read_fixed P (enc_bytes P (be_bytes (w :: bytes32)) @ r) = Ok (w, r)"
  "membership_read_fixed P (enc_bytes P (be_bytes (w :: bytes32))) = Ok (w, [])"
  by (simp_all add: membership_read_fixed_def)

lemma decode_encode_certificate:
  assumes "membership_validate_shape P c = Ok ()"
  shows "decode_certificate P (encode_certificate P c) = Ok c"
  using assms roles_of_valid [OF assms]
  by (simp add: decode_certificate_def membership_require_array_def encode_certificate_def cbor_simps Let_def)

lemma encode_signed_membership_ok:
  assumes "length (sm_signature s) = 64"
  shows "\<exists>bs. encode_signed_membership P s = Ok bs \<and> length bs \<le> 250"
proof -
  let ?payload = "encode_certificate P (sm_certificate s)"
  have "length (enc_bytes P ?payload) \<le> 178"
    using length_enc_bytes_u8 [of ?payload] length_encode_certificate [of "sm_certificate s"] by simp
  then show ?thesis
    using length_enc_array(1) [of 3] length_enc_u16 [of MEMBERSHIP_ENVELOPE_VERSION]
      length_enc_bytes_u8 [of "sm_signature s"] assms
    by (simp add: encode_signed_membership_def Let_def MAX_SIGNED_MEMBERSHIP_BYTES_def)
qed

lemma decode_encode_signed_membership:
  assumes "membership_wf P s" and "encode_signed_membership P s = Ok bs"
  shows "decode_signed_membership P bs = Ok s"
proof -
  let ?payload = "encode_certificate P (sm_certificate s)"
  have "length ?payload < 2 ^ 64"
    using length_encode_certificate [of "sm_certificate s"] by simp
  moreover have bs: "bs = enc_array P 3 @ enc_u16 P MEMBERSHIP_ENVELOPE_VERSION @ enc_bytes P ?payload @
      enc_bytes P (sm_signature s)" "length bs \<le> MAX_SIGNED_MEMBERSHIP_BYTES"
    using assms by (auto simp: encode_signed_membership_def Let_def split: if_splits)
  moreover have "decode_certificate P ?payload = Ok (sm_certificate s)"
    using assms by (simp add: membership_wf_def decode_encode_certificate)
  ultimately show ?thesis
    using assms by (simp add: decode_signed_membership_def membership_require_array_def
        membership_wf_def cbor_simps Let_def)
qed

end

lemma decode_certificate_valid:
  "decode_certificate P bs = Ok c \<Longrightarrow> membership_validate_shape P c = Ok () \<and> encode_certificate P c = bs"
  by (auto simp: decode_certificate_def result_simps Let_def split: prod.splits if_splits)

lemma decode_signed_membership_canonical:
  "decode_signed_membership P bs = Ok s \<Longrightarrow> encode_signed_membership P s = Ok bs \<and> membership_wf P s"
  by (auto simp: decode_signed_membership_def membership_wf_def result_simps Let_def
      dest!: decode_certificate_valid split: prod.splits if_splits)

sublocale minicbor \<subseteq> membership_codec: canonical_codec
  "encode_signed_membership P" "decode_signed_membership P" "membership_wf P"
  by unfold_locales
    (blast dest: decode_encode_signed_membership decode_signed_membership_canonical)+

lemma verify_membership_Ok:
  "verify_membership P s key = Ok () \<longleftrightarrow>
     membership_wf P s \<and> mc_hive_id (sm_certificate s) = hive_from_root_verifying_key P key \<and>
     verify_domain P key MEMBERSHIP_DOMAIN (encode_certificate P (sm_certificate s)) (be_word (sm_signature s))"
  by (auto simp: verify_membership_def membership_wf_def result_simps try_array_def split: if_splits)

context ed25519
begin

lemma sign_membership_verifies:
  "sign_membership P c root = Ok s \<Longrightarrow>
     verify_membership P s (root_verifying_key P root) = Ok () \<and> sm_certificate s = c"
  by (auto simp: verify_membership_Ok sign_membership_def membership_wf_def result_simps
      root_hive_id_def root_signature_verifies split: if_splits)

end

end
