(* ===== verification/Revocation.thy ===== *)
theory Revocation
  imports Identity
begin

text \<open>
  Root-signed revocation snapshots (\<^verbatim>\<open>revocation.rs\<close>): a sorted set of denied devices under a
  monotonic serial, its checks, signatures and canonical bounded encoding.
\<close>

section \<open>Snapshots\<close>

datatype RevocationError =
    UnsupportedVersion
  | InvalidSerial
  | Unordered
  | Oversized
  | HiveRootMismatch
  | InvalidSignature
  | Encode
  | Decode
  | Malformed
  | NonCanonical

definition REVOCATION_VERSION :: u16 where "REVOCATION_VERSION = 1"
definition MAX_REVOKED_NODES :: nat where "MAX_REVOKED_NODES = 256"
definition MAX_SIGNED_REVOCATION_BYTES :: nat where "MAX_SIGNED_REVOCATION_BYTES = 9 * 1024"
definition REVOCATION_DOMAIN :: bytes where "REVOCATION_DOMAIN = ascii ''supgang/revocation/v1'' @ [0]"
definition LIST_FIELDS :: u64 where "LIST_FIELDS = 5"
definition REVOCATION_SIGNED_VERSION :: u16 where "REVOCATION_SIGNED_VERSION = 1"

record RevocationList =
  rl_version :: u16
  rl_hive_id :: HiveId
  rl_serial :: u64
  rl_issued_at :: u64
  rl_revoked_nodes :: "NodeId list"

record SignedRevocationList =
  sr_list :: RevocationList
  sr_signature :: bytes

definition revocation_validate_shape :: "RevocationList \<Rightarrow> RevocationError + unit" where
  "revocation_validate_shape l =
     (if rl_version l \<noteq> REVOCATION_VERSION then Err RevocationError.UnsupportedVersion
      else if length (rl_revoked_nodes l) > MAX_REVOKED_NODES then Err RevocationError.Oversized
      else if (rl_serial l = 0) \<noteq> (rl_revoked_nodes l = []) then Err RevocationError.InvalidSerial
      else if \<not> strictly_sorted (rl_revoked_nodes l) then Err RevocationError.Unordered
      else Ok ())"

definition revocation_list_contains :: "RevocationList \<Rightarrow> NodeId \<Rightarrow> bool" where
  "revocation_list_contains l node_id = binary_search_ok (rl_revoked_nodes l) node_id"

definition revocation_contains :: "SignedRevocationList \<Rightarrow> NodeId \<Rightarrow> bool" where
  "revocation_contains s node_id = revocation_list_contains (sr_list s) node_id"

section \<open>Encoding\<close>

definition encode_list :: "prims \<Rightarrow> RevocationList \<Rightarrow> RevocationError + bytes" where
  "encode_list P l =
     rbind (revocation_validate_shape l) (\<lambda>_. Ok (
       enc_array P LIST_FIELDS @
       enc_u16 P (rl_version l) @
       enc_bytes P (be_bytes (hive_bytes (rl_hive_id l))) @
       enc_u64 P (rl_serial l) @
       enc_u64 P (rl_issued_at l) @
       enc_array P (of_nat (length (rl_revoked_nodes l))) @
       concat (map (\<lambda>n. enc_bytes P (be_bytes (node_bytes n))) (rl_revoked_nodes l))))"

definition revocation_require_array :: "prims \<Rightarrow> u64 \<Rightarrow> bytes \<Rightarrow> RevocationError + bytes" where
  "revocation_require_array P expected d =
     rbind (ok_or RevocationError.Decode (dec_array P d)) (\<lambda>(n, d).
       if n = Some expected then Ok d else Err RevocationError.Malformed)"

definition revocation_read_fixed :: "prims \<Rightarrow> bytes \<Rightarrow> RevocationError + (bytes32 \<times> bytes)" where
  "revocation_read_fixed P d =
     rbind (ok_or RevocationError.Decode (dec_bytes P d)) (\<lambda>(bs, d).
     rbind (ok_or RevocationError.Malformed (try_array bs)) (\<lambda>w. Ok (w, d)))"

text \<open>The loop of \<^verbatim>\<open>decode_list\<close> that reads the announced number of identifiers.\<close>

definition read_nodes :: "prims \<Rightarrow> nat \<Rightarrow> bytes \<Rightarrow> RevocationError + (NodeId list \<times> bytes)" where
  "read_nodes P count d =
     repeat_dec (\<lambda>d. rbind (revocation_read_fixed P d) (\<lambda>(w, d). Ok (NodeId w, d))) count d"

definition decode_list :: "prims \<Rightarrow> bytes \<Rightarrow> RevocationError + RevocationList" where
  "decode_list P input =
     rbind (revocation_require_array P LIST_FIELDS input) (\<lambda>d.
     rbind (ok_or RevocationError.Decode (dec_u16 P d)) (\<lambda>(version, d).
     rbind (revocation_read_fixed P d) (\<lambda>(hive_id, d).
     rbind (ok_or RevocationError.Decode (dec_u64 P d)) (\<lambda>(serial, d).
     rbind (ok_or RevocationError.Decode (dec_u64 P d)) (\<lambda>(issued_at, d).
     rbind (ok_or RevocationError.Decode (dec_array P d)) (\<lambda>(count, d).
     rbind (ok_or RevocationError.Malformed count) (\<lambda>count.
       if unat count > MAX_REVOKED_NODES then Err RevocationError.Oversized
       else rbind (read_nodes P (unat count) d) (\<lambda>(revoked_nodes, d).
         if d \<noteq> [] then Err RevocationError.Malformed
         else let l = \<lparr>rl_version = version, rl_hive_id = HiveId hive_id, rl_serial = serial,
                rl_issued_at = issued_at, rl_revoked_nodes = revoked_nodes\<rparr> in
           rbind (revocation_validate_shape l) (\<lambda>_.
           rbind (encode_list P l) (\<lambda>again.
             if again \<noteq> input then Err RevocationError.NonCanonical else Ok l))))))))))"

definition encode_signed_revocations :: "prims \<Rightarrow> SignedRevocationList \<Rightarrow> RevocationError + bytes" where
  "encode_signed_revocations P s =
     rbind (revocation_validate_shape (sr_list s)) (\<lambda>_.
       if length (sr_signature s) \<noteq> 64 then Err RevocationError.InvalidSignature
       else rbind (encode_list P (sr_list s)) (\<lambda>payload.
         let output = enc_array P 3 @ enc_u16 P REVOCATION_SIGNED_VERSION @ enc_bytes P payload @
               enc_bytes P (sr_signature s) in
         if length output > MAX_SIGNED_REVOCATION_BYTES then Err RevocationError.Oversized
         else Ok output))"

definition decode_signed_revocations :: "prims \<Rightarrow> bytes \<Rightarrow> RevocationError + SignedRevocationList" where
  "decode_signed_revocations P input =
     (if input = [] \<or> length input > MAX_SIGNED_REVOCATION_BYTES then Err RevocationError.Oversized
      else rbind (revocation_require_array P 3 input) (\<lambda>d.
        rbind (ok_or RevocationError.Decode (dec_u16 P d)) (\<lambda>(version, d).
        if version \<noteq> REVOCATION_SIGNED_VERSION then Err RevocationError.UnsupportedVersion
        else rbind (ok_or RevocationError.Decode (dec_bytes P d)) (\<lambda>(payload, d).
        rbind (ok_or RevocationError.Decode (dec_bytes P d)) (\<lambda>(signature, d).
        if length signature \<noteq> 64 \<or> d \<noteq> [] then Err RevocationError.Malformed
        else rbind (decode_list P payload) (\<lambda>l.
          let value = \<lparr>sr_list = l, sr_signature = signature\<rparr> in
          rbind (encode_signed_revocations P value) (\<lambda>again.
            if again \<noteq> input then Err RevocationError.NonCanonical else Ok value)))))))"

section \<open>Signing and verification\<close>

definition sign_revocations :: "prims \<Rightarrow> RevocationList \<Rightarrow> RootIdentity \<Rightarrow> RevocationError + SignedRevocationList" where
  "sign_revocations P l root =
     rbind (revocation_validate_shape l) (\<lambda>_.
       if rl_hive_id l \<noteq> root_hive_id P root then Err RevocationError.HiveRootMismatch
       else rbind (encode_list P l) (\<lambda>payload.
         Ok \<lparr>sr_list = l, sr_signature = be_bytes (root_sign_domain P root REVOCATION_DOMAIN payload)\<rparr>))"

definition empty_revocations :: "prims \<Rightarrow> RootIdentity \<Rightarrow> u64 \<Rightarrow> RevocationError + SignedRevocationList" where
  "empty_revocations P root issued_at =
     sign_revocations P \<lparr>rl_version = REVOCATION_VERSION, rl_hive_id = root_hive_id P root,
       rl_serial = 0, rl_issued_at = issued_at, rl_revoked_nodes = []\<rparr> root"

definition verify_revocations :: "prims \<Rightarrow> SignedRevocationList \<Rightarrow> bytes32 \<Rightarrow> RevocationError + unit" where
  "verify_revocations P s root_key =
     rbind (revocation_validate_shape (sr_list s)) (\<lambda>_.
       if rl_hive_id (sr_list s) \<noteq> hive_from_root_verifying_key P root_key
         then Err RevocationError.HiveRootMismatch
       else rbind (ok_or RevocationError.InvalidSignature (try_array (sr_signature s))) (\<lambda>signature.
         rbind (encode_list P (sr_list s)) (\<lambda>payload.
           if verify_domain P root_key REVOCATION_DOMAIN payload signature then Ok ()
           else Err RevocationError.InvalidSignature)))"

section \<open>Lemmas\<close>

definition revocation_wf :: "SignedRevocationList \<Rightarrow> bool" where
  "revocation_wf s \<longleftrightarrow> revocation_validate_shape (sr_list s) = Ok () \<and> length (sr_signature s) = 64"

lemma revocation_eta [simp]:
  "\<lparr>rl_version = rl_version l, rl_hive_id = rl_hive_id l, rl_serial = rl_serial l,
    rl_issued_at = rl_issued_at l, rl_revoked_nodes = rl_revoked_nodes l\<rparr> = l"
  "\<lparr>sr_list = sr_list s, sr_signature = sr_signature s\<rparr> = s"
  by simp_all

lemma revocation_shape_Ok:
  "revocation_validate_shape l = Ok () \<longleftrightarrow>
     rl_version l = REVOCATION_VERSION \<and> length (rl_revoked_nodes l) \<le> MAX_REVOKED_NODES \<and>
     (rl_serial l = 0 \<longleftrightarrow> rl_revoked_nodes l = []) \<and> strictly_sorted (rl_revoked_nodes l)"
  by (auto simp: revocation_validate_shape_def split: if_splits)

text \<open>On a checked snapshot the binary search decides membership in the set.\<close>

lemma revocation_contains_iff:
  "revocation_validate_shape (sr_list s) = Ok () \<Longrightarrow>
     revocation_contains s n \<longleftrightarrow> n \<in> set (rl_revoked_nodes (sr_list s))"
  by (simp add: revocation_contains_def revocation_list_contains_def revocation_shape_Ok
      binary_search_ok_iff strictly_sorted_distinct)

lemma decode_list_canonical:
  "decode_list P bs = Ok l \<Longrightarrow> revocation_validate_shape l = Ok () \<and> encode_list P l = Ok bs"
  by (auto simp: decode_list_def result_simps Let_def split: prod.splits if_splits)

lemma decode_signed_revocations_canonical:
  "decode_signed_revocations P bs = Ok s \<Longrightarrow> encode_signed_revocations P s = Ok bs \<and> revocation_wf s"
  by (auto simp: decode_signed_revocations_def revocation_wf_def result_simps Let_def
      dest!: decode_list_canonical split: prod.splits if_splits)

lemma verify_revocations_Ok:
  "verify_revocations P s key = Ok () \<longleftrightarrow>
     revocation_wf s \<and> rl_hive_id (sr_list s) = hive_from_root_verifying_key P key \<and>
     (\<exists>payload. encode_list P (sr_list s) = Ok payload \<and>
       verify_domain P key REVOCATION_DOMAIN payload (be_word (sr_signature s)))"
  by (auto simp: verify_revocations_def revocation_wf_def result_simps try_array_def split: if_splits)

context minicbor
begin

lemma revocation_read_fixed_enc [simp]:
  "revocation_read_fixed P (enc_bytes P (be_bytes (w :: bytes32)) @ r) = Ok (w, r)"
  by (simp add: revocation_read_fixed_def)

lemma read_nodes_enc:
  "read_nodes P (length ns) (concat (map (\<lambda>n. enc_bytes P (be_bytes (node_bytes n))) ns) @ r) = Ok (ns, r)"
  unfolding read_nodes_def by (rule repeat_dec_enc) simp

lemma length_nodes_enc:
  "length (concat (map (\<lambda>n. enc_bytes P (be_bytes (node_bytes n))) ns)) \<le> 34 * length ns"
  by (rule length_concat_le) (rule length_enc_bytes32)

lemma length_encode_list:
  assumes "encode_list P l = Ok bs"
  shows "length bs \<le> 8763"
proof -
  let ?ns = "rl_revoked_nodes l"
  have n: "length ?ns \<le> 256"
    and bs: "bs = enc_array P LIST_FIELDS @ enc_u16 P (rl_version l) @
      enc_bytes P (be_bytes (hive_bytes (rl_hive_id l))) @ enc_u64 P (rl_serial l) @
      enc_u64 P (rl_issued_at l) @ enc_array P (of_nat (length ?ns)) @
      concat (map (\<lambda>n. enc_bytes P (be_bytes (node_bytes n))) ?ns)"
    using assms by (auto simp: encode_list_def result_simps revocation_shape_Ok MAX_REVOKED_NODES_def)
  have "length (enc_array P (of_nat (length ?ns))) \<le> 3"
    using length_enc_array_u16 [of "of_nat (length ?ns)"] n
    by (simp add: word_less_nat_alt unat_of_nat)
  then show ?thesis
    using length_enc_array(1) [of LIST_FIELDS] length_enc_u16 [of "rl_version l"]
      length_enc_bytes32 [of "hive_bytes (rl_hive_id l)"] length_enc_u64 [of "rl_serial l"]
      length_enc_u64 [of "rl_issued_at l"] length_nodes_enc [of ?ns] n
    by (simp add: bs LIST_FIELDS_def)
qed

lemma decode_encode_list:
  assumes "encode_list P l = Ok bs"
  shows "decode_list P bs = Ok l"
proof -
  have shape: "revocation_validate_shape l = Ok ()"
    using assms by (auto simp: encode_list_def result_simps)
  then have count: "length (rl_revoked_nodes l) \<le> 256"
    by (simp add: revocation_shape_Ok MAX_REVOKED_NODES_def)
  have "unat (of_nat (length (rl_revoked_nodes l)) :: u64) = length (rl_revoked_nodes l)"
    using count by (simp add: unat_of_nat)
  then show ?thesis
    using assms shape count read_nodes_enc [of "rl_revoked_nodes l" "[]"]
    by (auto simp: decode_list_def encode_list_def revocation_require_array_def cbor_simps
        MAX_REVOKED_NODES_def Let_def)
qed

lemma encode_signed_revocations_ok:
  assumes "revocation_wf s"
  shows "\<exists>bs. encode_signed_revocations P s = Ok bs \<and> length bs \<le> 8900"
proof -
  obtain payload where payload: "encode_list P (sr_list s) = Ok payload"
    using assms by (simp add: revocation_wf_def encode_list_def)
  then have "length (enc_bytes P payload) \<le> 8766"
    using length_enc_bytes_u16 [of payload] length_encode_list [OF payload] by simp
  then show ?thesis
    using length_enc_array(1) [of 3] length_enc_u16 [of REVOCATION_SIGNED_VERSION]
      length_enc_bytes_u8 [of "sr_signature s"] assms payload
    by (simp add: encode_signed_revocations_def revocation_wf_def Let_def MAX_SIGNED_REVOCATION_BYTES_def)
qed

lemma decode_encode_signed_revocations:
  assumes "revocation_wf s" and "encode_signed_revocations P s = Ok bs"
  shows "decode_signed_revocations P bs = Ok s"
proof -
  obtain payload where payload: "encode_list P (sr_list s) = Ok payload"
    and bs: "bs = enc_array P 3 @ enc_u16 P REVOCATION_SIGNED_VERSION @ enc_bytes P payload @
      enc_bytes P (sr_signature s)" "length bs \<le> MAX_SIGNED_REVOCATION_BYTES"
    using assms by (auto simp: encode_signed_revocations_def result_simps Let_def split: if_splits)
  have "length payload < 2 ^ 64" using length_encode_list [OF payload] by simp
  then show ?thesis
    using assms bs decode_encode_list [OF payload] enc_array_nonempty [of 3]
    by (simp add: decode_signed_revocations_def revocation_require_array_def revocation_wf_def
        cbor_simps Let_def)
qed

end

sublocale minicbor \<subseteq> revocation_codec: canonical_codec
  "encode_signed_revocations P" "decode_signed_revocations P" revocation_wf
  by unfold_locales
    (blast dest: decode_encode_signed_revocations decode_signed_revocations_canonical)+

context ed25519
begin

lemma sign_revocations_verifies:
  "sign_revocations P l root = Ok s \<Longrightarrow>
     verify_revocations P s (root_verifying_key P root) = Ok () \<and> sr_list s = l"
  by (auto simp: verify_revocations_Ok sign_revocations_def revocation_wf_def result_simps
      root_hive_id_def root_signature_verifies split: if_splits)

end

end
