(* ===== verification/Disk.thy ===== *)
theory Disk
  imports Prelude
begin

text \<open>
  The file system as the journal uses it. A directory holds a journal and its head witness. Every
  system call takes its outcome from a schedule of faults, so that each may fail, with the partial
  effect such a failure has. What a power loss may restore is kept apart from what a process sees:
  an entry renamed over is recoverable until the directory is synchronized, and bytes written or
  cut are volatile until the file is.
\<close>

section \<open>Files and directories\<close>

datatype IoErrorKind = NotFound | AlreadyExists | PermissionDenied | OtherIo

text \<open>
  The metadata the program checks. \<open>fm_acl\<close> is the answer of \<^verbatim>\<open>supgang_acl::reject_non_owner_grants\<close>
  for the file.
\<close>

record FileMeta =
  fm_is_file :: bool
  fm_uid :: u32
  fm_mode :: u32
  fm_acl :: "IoErrorKind option"

datatype dir_entry = Symlink | File FileMeta bytes

datatype path = JournalPath | HeadPath

text \<open>
  A directory slot: its current entry, the entries a power loss may bring back, and the contents
  of the current file a power loss may leave.
\<close>

record cell =
  cl_now :: "dir_entry option"
  cl_older_entries :: "dir_entry option list"
  cl_older_contents :: "bytes list"

record disk =
  dk_cells :: "path \<Rightarrow> cell"
  dk_faults :: "nat option list"
  dk_uid :: u32

text \<open>A file under construction, before it is renamed into place.\<close>

record temp_file =
  tf_meta :: FileMeta
  tf_bytes :: bytes
  tf_older :: "bytes list"

definition with_bytes :: "dir_entry option \<Rightarrow> bytes \<Rightarrow> dir_entry option" where
  "with_bytes e bs = (case e of Some (File m _) \<Rightarrow> Some (File m bs) | _ \<Rightarrow> e)"

definition cell_outcomes :: "cell \<Rightarrow> dir_entry option list" where
  "cell_outcomes c = cl_now c # map (with_bytes (cl_now c)) (cl_older_contents c) @ cl_older_entries c"

definition settled :: "dir_entry option \<Rightarrow> cell" where
  "settled e = \<lparr>cl_now = e, cl_older_entries = [], cl_older_contents = []\<rparr>"

text \<open>The directory after a power loss and a restart: each slot settles on one of its outcomes.\<close>

definition restart :: "disk \<Rightarrow> dir_entry option \<Rightarrow> dir_entry option \<Rightarrow> disk" where
  "restart d j h = d\<lparr>dk_cells := (\<lambda>p. settled (case p of JournalPath \<Rightarrow> j | HeadPath \<Rightarrow> h)), dk_faults := []\<rparr>"

definition crash_states :: "disk \<Rightarrow> disk list" where
  "crash_states d =
     [restart d j h. j \<leftarrow> cell_outcomes (dk_cells d JournalPath), h \<leftarrow> cell_outcomes (dk_cells d HeadPath)]"

section \<open>Operations with effects\<close>

type_synonym ('e, 'a) io = "disk \<Rightarrow> ('e + 'a) \<times> disk"

definition io_ok :: "'a \<Rightarrow> ('e, 'a) io" where
  "io_ok x d = (Ok x, d)"

definition io_err :: "'e \<Rightarrow> ('e, 'a) io" where
  "io_err e d = (Err e, d)"

definition io_bind :: "('e, 'a) io \<Rightarrow> ('a \<Rightarrow> ('e, 'b) io) \<Rightarrow> ('e, 'b) io" where
  "io_bind m f d = (case m d of (Inl e, d) \<Rightarrow> (Err e, d) | (Inr x, d) \<Rightarrow> f x d)"

definition io_lift :: "'e + 'a \<Rightarrow> ('e, 'a) io" where
  "io_lift r d = (r, d)"

definition io_map_err :: "('e \<Rightarrow> 'f) \<Rightarrow> ('e, 'a) io \<Rightarrow> ('f, 'a) io" where
  "io_map_err g m d = (case m d of (r, d) \<Rightarrow> (map_err g r, d))"

fun io_each :: "('a \<Rightarrow> ('e, unit) io) \<Rightarrow> 'a list \<Rightarrow> ('e, unit) io" where
  "io_each f [] = io_ok ()"
| "io_each f (x # xs) = io_bind (f x) (\<lambda>_. io_each f xs)"

definition pop_fault :: "disk \<Rightarrow> nat option \<times> disk" where
  "pop_fault d = (case dk_faults d of [] \<Rightarrow> (None, d) | f # fs \<Rightarrow> (f, d\<lparr>dk_faults := fs\<rparr>))"

text \<open>
  A system call: its result and effect when it succeeds, and its effect when it fails part-way,
  given the progress the schedule grants it.
\<close>

definition syscall :: "(disk \<Rightarrow> 'a \<times> disk) \<Rightarrow> (nat \<Rightarrow> disk \<Rightarrow> disk) \<Rightarrow> (IoErrorKind, 'a) io" where
  "syscall good bad d =
     (case pop_fault d of
        (None, d) \<Rightarrow> (case good d of (x, d) \<Rightarrow> (Ok x, d))
      | (Some t, d) \<Rightarrow> (Err OtherIo, bad t d))"

section \<open>System calls\<close>

text \<open>The effects on one slot.\<close>

definition entry_bytes :: "dir_entry option \<Rightarrow> bytes" where
  "entry_bytes e = (case e of Some (File _ bs) \<Rightarrow> bs | _ \<Rightarrow> [])"

text \<open>The contents a write passes through, the final one excluded.\<close>

definition torn :: "bytes \<Rightarrow> bytes \<Rightarrow> bytes list" where
  "torn old bs = map (\<lambda>k. old @ take k bs) [0..<length bs]"

definition cell_extend :: "bytes \<Rightarrow> cell \<Rightarrow> cell" where
  "cell_extend bs c =
     (let old = entry_bytes (cl_now c) in
      c\<lparr>cl_now := with_bytes (cl_now c) (old @ bs), cl_older_contents := torn old bs @ cl_older_contents c\<rparr>)"

definition cell_cut :: "nat \<Rightarrow> cell \<Rightarrow> cell" where
  "cell_cut n c =
     (let old = entry_bytes (cl_now c) in
      c\<lparr>cl_now := with_bytes (cl_now c) (take n old), cl_older_contents := old # cl_older_contents c\<rparr>)"

definition cell_sync :: "cell \<Rightarrow> cell" where
  "cell_sync c = c\<lparr>cl_older_contents := []\<rparr>"

definition cell_sync_entry :: "cell \<Rightarrow> cell" where
  "cell_sync_entry c = c\<lparr>cl_older_entries := []\<rparr>"

definition cell_install :: "temp_file \<Rightarrow> cell \<Rightarrow> cell" where
  "cell_install f c =
     \<lparr>cl_now = Some (File (tf_meta f) (tf_bytes f)), cl_older_entries = cell_outcomes c,
      cl_older_contents = tf_older f\<rparr>"

definition on_cell :: "path \<Rightarrow> (cell \<Rightarrow> cell) \<Rightarrow> disk \<Rightarrow> disk" where
  "on_cell p f d = d\<lparr>dk_cells := (dk_cells d)(p := f (dk_cells d p))\<rparr>"

definition file_bytes :: "path \<Rightarrow> disk \<Rightarrow> bytes" where
  "file_bytes p d = entry_bytes (cl_now (dk_cells d p))"

text \<open>\<^verbatim>\<open>write_all\<close> at the end of the file: a failed write may leave any prefix of the bytes.\<close>

definition write_all :: "path \<Rightarrow> bytes \<Rightarrow> (IoErrorKind, unit) io" where
  "write_all p bs =
     syscall (\<lambda>d. ((), on_cell p (cell_extend bs) d)) (\<lambda>t. on_cell p (cell_extend (take t bs)))"

definition set_len :: "path \<Rightarrow> nat \<Rightarrow> (IoErrorKind, unit) io" where
  "set_len p n = syscall (\<lambda>d. ((), on_cell p (cell_cut n) d)) (\<lambda>t d. d)"

definition sync_file :: "path \<Rightarrow> (IoErrorKind, unit) io" where
  "sync_file p = syscall (\<lambda>d. ((), on_cell p cell_sync d)) (\<lambda>t d. d)"

definition sync_directory :: "(IoErrorKind, unit) io" where
  "sync_directory =
     syscall (\<lambda>d. ((), d\<lparr>dk_cells := (\<lambda>p. cell_sync_entry (dk_cells d p))\<rparr>)) (\<lambda>t d. d)"

text \<open>Calls that leave every file as it is: \<^verbatim>\<open>seek\<close>, \<^verbatim>\<open>metadata\<close>, \<^verbatim>\<open>read_to_end\<close>, \<^verbatim>\<open>getrandom\<close>.\<close>

definition observe :: "(disk \<Rightarrow> 'a) \<Rightarrow> (IoErrorKind, 'a) io" where
  "observe f = syscall (\<lambda>d. (f d, d)) (\<lambda>t d. d)"

text \<open>A file created with mode \<^verbatim>\<open>0o600\<close>, which is \<open>0x180\<close>, and no access-control list.\<close>

definition private_meta :: "u32 \<Rightarrow> FileMeta" where
  "private_meta uid = \<lparr>fm_is_file = True, fm_uid = uid, fm_mode = 0x180, fm_acl = None\<rparr>"

definition new_temp :: "u32 \<Rightarrow> temp_file" where
  "new_temp uid = \<lparr>tf_meta = private_meta uid, tf_bytes = [], tf_older = []\<rparr>"

text \<open>
  Opening with \<^verbatim>\<open>create_new\<close> and then, when the file is there, without it; both with
  \<^verbatim>\<open>O_NOFOLLOW\<close>. The result says whether the file was created.
\<close>

definition open_or_create :: "path \<Rightarrow> (IoErrorKind, bool) io" where
  "open_or_create p d =
     (case cl_now (dk_cells d p) of
        None \<Rightarrow> syscall (\<lambda>d. (True, on_cell p (cell_install (new_temp (dk_uid d))) d)) (\<lambda>t d. d) d
      | Some Symlink \<Rightarrow> io_err OtherIo d
      | Some (File _ _) \<Rightarrow> observe (\<lambda>_. False) d)"

definition open_existing :: "path \<Rightarrow> (IoErrorKind, unit) io" where
  "open_existing p d =
     (case cl_now (dk_cells d p) of
        None \<Rightarrow> io_err NotFound d
      | Some Symlink \<Rightarrow> io_err OtherIo d
      | Some (File _ _) \<Rightarrow> observe (\<lambda>_. ()) d)"

definition create_temp :: "(IoErrorKind, temp_file) io" where
  "create_temp = observe (\<lambda>d. new_temp (dk_uid d))"

definition temp_write :: "temp_file \<Rightarrow> bytes \<Rightarrow> (IoErrorKind, temp_file) io" where
  "temp_write f bs =
     observe (\<lambda>_. f\<lparr>tf_bytes := tf_bytes f @ bs, tf_older := torn (tf_bytes f) bs @ tf_older f\<rparr>)"

definition temp_sync :: "temp_file \<Rightarrow> (IoErrorKind, temp_file) io" where
  "temp_sync f = observe (\<lambda>_. f\<lparr>tf_older := []\<rparr>)"

text \<open>\<^verbatim>\<open>rename\<close> over a path. A failed call may still have taken effect, which the schedule decides.\<close>

definition rename_temp :: "temp_file \<Rightarrow> path \<Rightarrow> (IoErrorKind, unit) io" where
  "rename_temp f p =
     syscall (\<lambda>d. ((), on_cell p (cell_install f) d)) (\<lambda>t d. if t = 0 then d else on_cell p (cell_install f) d)"

section \<open>Laws of sequencing\<close>

lemma io_bind_simps [simp]:
  "io_bind (io_ok x) f = f x" "io_bind (io_err e) f = io_err e"
  "io_bind (io_lift (Inr x)) f = f x" "io_bind (io_lift (Inl e)) f = io_err e"
  by (auto simp: io_bind_def io_ok_def io_err_def io_lift_def)

lemma cell_outcomes_now [simp]: "cl_now c \<in> set (cell_outcomes c)"
  by (simp add: cell_outcomes_def)

lemma cell_outcomes_settled [simp]: "cell_outcomes (settled e) = [e]"
  by (simp add: cell_outcomes_def settled_def)

lemma settled_now [simp]: "cl_now (settled e) = e"
  by (simp add: settled_def)

lemma in_crash_states:
  "d' \<in> set (crash_states d) \<longleftrightarrow>
     (\<exists>j \<in> set (cell_outcomes (dk_cells d JournalPath)). \<exists>h \<in> set (cell_outcomes (dk_cells d HeadPath)).
        d' = restart d j h)"
  by (auto simp: crash_states_def)

section \<open>Reasoning under every fault schedule\<close>

text \<open>
  \<open>spec s u I m Q E\<close>: run by user \<open>u\<close> on slots satisfying \<open>I\<close>, under any schedule of faults, \<open>m\<close> ends with
  a result and slots satisfying \<open>Q\<close>, or with an error and slots satisfying \<open>E\<close>; if \<open>s\<close> holds then an error
  occurs only when the schedule has a fault.
\<close>

type_synonym slots = "path \<Rightarrow> cell"

definition outcome_ok ::
  "bool \<Rightarrow> u32 \<Rightarrow> ('a \<Rightarrow> slots \<Rightarrow> bool) \<Rightarrow> (slots \<Rightarrow> bool) \<Rightarrow> disk \<Rightarrow> ('e + 'a) \<times> disk \<Rightarrow> bool" where
  "outcome_ok s u Q E d out \<longleftrightarrow>
     dk_uid (snd out) = u \<and> (dk_faults d = [] \<longrightarrow> dk_faults (snd out) = []) \<and>
     (case fst out of
        Inl _ \<Rightarrow> E (dk_cells (snd out)) \<and> (s \<longrightarrow> dk_faults d \<noteq> [])
      | Inr x \<Rightarrow> Q x (dk_cells (snd out)))"

definition spec ::
  "bool \<Rightarrow> u32 \<Rightarrow> (slots \<Rightarrow> bool) \<Rightarrow> ('e, 'a) io \<Rightarrow> ('a \<Rightarrow> slots \<Rightarrow> bool) \<Rightarrow> (slots \<Rightarrow> bool) \<Rightarrow> bool" where
  "spec s u I m Q E \<longleftrightarrow> (\<forall>d. dk_uid d = u \<and> I (dk_cells d) \<longrightarrow> outcome_ok s u Q E d (m d))"

lemma outcome_ok_simps [simp]:
  "outcome_ok s u Q E d (Inl e, d') \<longleftrightarrow>
     dk_uid d' = u \<and> (dk_faults d = [] \<longrightarrow> dk_faults d' = []) \<and> E (dk_cells d') \<and> (s \<longrightarrow> dk_faults d \<noteq> [])"
  "outcome_ok s u Q E d (Inr x, d') \<longleftrightarrow>
     dk_uid d' = u \<and> (dk_faults d = [] \<longrightarrow> dk_faults d' = []) \<and> Q x (dk_cells d')"
  by (auto simp: outcome_ok_def)

lemma specD: "spec s u I m Q E \<Longrightarrow> dk_uid d = u \<Longrightarrow> I (dk_cells d) \<Longrightarrow> outcome_ok s u Q E d (m d)"
  by (simp add: spec_def)

lemma spec_bind:
  assumes "spec s u I m R E" and "\<And>x. spec s u (R x) (f x) Q E"
  shows "spec s u I (io_bind m f) Q E"
  unfolding spec_def
proof (intro allI impI)
  fix d :: disk assume d: "dk_uid d = u \<and> I (dk_cells d)"
  obtain r d1 where m: "m d = (r, d1)" by (cases "m d")
  have D: "outcome_ok s u R E d (r, d1)" using specD [OF assms(1)] d m by metis
  show "outcome_ok s u Q E d (io_bind m f d)"
  proof (cases r)
    case (Inl e)
    then show ?thesis using D m by (simp add: io_bind_def)
  next
    case (Inr x)
    then have run: "io_bind m f d = f x d1" using m by (simp add: io_bind_def)
    have "outcome_ok s u Q E d1 (f x d1)" using specD [OF assms(2)] D Inr by simp
    then show ?thesis using D Inr unfolding run by (cases "f x d1"; cases "fst (f x d1)") auto
  qed
qed

lemma spec_weaken:
  assumes "spec s u I' m Q' E'" and "\<And>c. I c \<Longrightarrow> I' c" and "\<And>x c. Q' x c \<Longrightarrow> Q x c" and "\<And>c. E' c \<Longrightarrow> E c"
  shows "spec s u I m Q E"
  unfolding spec_def
proof (intro allI impI)
  fix d :: disk assume "dk_uid d = u \<and> I (dk_cells d)"
  then have "outcome_ok s u Q' E' d (m d)" using assms(1,2) by (simp add: specD)
  then show "outcome_ok s u Q E d (m d)"
    using assms(3,4) by (cases "m d"; cases "fst (m d)") auto
qed

lemma spec_ok: "(\<And>c. I c \<Longrightarrow> Q x c) \<Longrightarrow> spec s u I (io_ok x) Q E"
  by (simp add: spec_def io_ok_def)

lemma spec_err: "(\<And>c. I c \<Longrightarrow> \<not> s \<and> E c) \<Longrightarrow> spec s u I (io_err e) Q E"
  by (auto simp: spec_def io_err_def)

lemma spec_lift:
  assumes "\<And>x c. r = Inr x \<Longrightarrow> I c \<Longrightarrow> Q x c" and "\<And>e c. r = Inl e \<Longrightarrow> I c \<Longrightarrow> \<not> s \<and> E c"
  shows "spec s u I (io_lift r) Q E"
  using assms by (cases r) (auto simp: spec_def io_lift_def)

lemma spec_map_err:
  assumes "spec s u I m Q E"
  shows "spec s u I (io_map_err g m) Q E"
  unfolding spec_def
proof (intro allI impI)
  fix d :: disk assume "dk_uid d = u \<and> I (dk_cells d)"
  then have "outcome_ok s u Q E d (m d)" using assms by (simp add: specD)
  then show "outcome_ok s u Q E d (io_map_err g m d)"
    by (cases "m d"; cases "fst (m d)") (auto simp: io_map_err_def)
qed

lemma spec_syscall:
  assumes "\<And>d. dk_uid d = u \<Longrightarrow> I (dk_cells d) \<Longrightarrow> dk_uid (snd (good d)) = u \<and>
      dk_faults (snd (good d)) = dk_faults d \<and> Q (fst (good d)) (dk_cells (snd (good d)))"
    and "\<And>t d. dk_uid d = u \<Longrightarrow> I (dk_cells d) \<Longrightarrow> dk_uid (bad t d) = u \<and> E (dk_cells (bad t d))"
  shows "spec s u I (syscall good bad) Q E"
  unfolding spec_def
proof (intro allI impI)
  fix d :: disk assume d: "dk_uid d = u \<and> I (dk_cells d)"
  consider "dk_faults d = []" | f fs where "dk_faults d = f # fs" by (cases "dk_faults d") auto
  then show "outcome_ok s u Q E d (syscall good bad d)"
  proof cases
    case 1
    then show ?thesis using assms(1) [of d] d
      by (auto simp: syscall_def pop_fault_def outcome_ok_def split: prod.splits)
  next
    case (2 f fs)
    then show ?thesis using assms(1) [of "d\<lparr>dk_faults := fs\<rparr>"] assms(2) [of "d\<lparr>dk_faults := fs\<rparr>"] d
      by (cases f) (auto simp: syscall_def pop_fault_def outcome_ok_def split: prod.splits)
  qed
qed

lemma spec_observe:
  assumes "\<And>c. I c \<Longrightarrow> E c" and "\<And>d. dk_uid d = u \<Longrightarrow> I (dk_cells d) \<Longrightarrow> Q (f d) (dk_cells d)"
  shows "spec s u I (observe f) Q E"
  unfolding observe_def by (rule spec_syscall) (use assms in auto)

lemma on_cell_simps [simp]:
  "dk_cells (on_cell p f d) = (dk_cells d)(p := f (dk_cells d p))" "dk_uid (on_cell p f d) = dk_uid d"
  "dk_faults (on_cell p f d) = dk_faults d"
  by (simp_all add: on_cell_def)

lemma spec_write_all:
  assumes "\<And>c t. I c \<Longrightarrow> E (c(p := cell_extend (take t bs) (c p)))"
    and "\<And>c. I c \<Longrightarrow> Q () (c(p := cell_extend bs (c p)))"
  shows "spec s u I (write_all p bs) Q E"
  unfolding write_all_def by (rule spec_syscall) (use assms in auto)

lemma spec_set_len:
  assumes "\<And>c. I c \<Longrightarrow> E c" and "\<And>c. I c \<Longrightarrow> Q () (c(p := cell_cut n (c p)))"
  shows "spec s u I (set_len p n) Q E"
  unfolding set_len_def by (rule spec_syscall) (use assms in auto)

lemma spec_sync_file:
  assumes "\<And>c. I c \<Longrightarrow> E c" and "\<And>c. I c \<Longrightarrow> Q () (c(p := cell_sync (c p)))"
  shows "spec s u I (sync_file p) Q E"
  unfolding sync_file_def by (rule spec_syscall) (use assms in auto)

lemma spec_sync_directory:
  assumes "\<And>c. I c \<Longrightarrow> E c" and "\<And>c. I c \<Longrightarrow> Q () (\<lambda>p. cell_sync_entry (c p))"
  shows "spec s u I sync_directory Q E"
  unfolding sync_directory_def by (rule spec_syscall) (use assms in auto)

lemma spec_rename_temp:
  assumes "\<And>c. I c \<Longrightarrow> E c" and "\<And>c. I c \<Longrightarrow> E (c(p := cell_install f (c p)))"
    and "\<And>c. I c \<Longrightarrow> Q () (c(p := cell_install f (c p)))"
  shows "spec s u I (rename_temp f p) Q E"
  unfolding rename_temp_def by (rule spec_syscall) (use assms in auto)

end
