(* ===== verification/Journal_Format.thy ===== *)
theory Journal_Format
  imports Primitives Disk
begin

text \<open>
  The byte format of the journal (\<^verbatim>\<open>journal.rs\<close>) and of its head witness
  (\<^verbatim>\<open>journal/witness.rs\<close>): frames with checksums after a magic marker, and the fixed-size record of
  the last committed length, frame count and digest.
\<close>

section \<open>Frames\<close>

datatype JournalError =
    Io IoErrorKind
  | NotRegularFile
  | WrongOwner
  | InsecurePermissions
  | InsecureAcl
  | InvalidHeader
  | Checksum nat
  | OversizedFrame nat
  | JournalFull
  | Rollback
  | InvalidPayload

definition MAX_FRAME_BYTES :: nat where "MAX_FRAME_BYTES = 64 * 1024"
definition MAX_JOURNAL_BYTES :: u64 where "MAX_JOURNAL_BYTES = 16 * 1024 * 1024"
definition JOURNAL_MAGIC :: bytes where "JOURNAL_MAGIC = ascii ''SUPGJNL1''"
definition CHECKSUM_BYTES :: nat where "CHECKSUM_BYTES = 32"
definition LENGTH_BYTES :: nat where "LENGTH_BYTES = 4"
definition CHECKSUM_DOMAIN :: bytes where "CHECKSUM_DOMAIN = ascii ''supgang/journal-frame/v1'' @ [0]"

definition checksum :: "prims \<Rightarrow> bytes \<Rightarrow> bytes \<Rightarrow> bytes" where
  "checksum P len payload = be_bytes (sha256 P (CHECKSUM_DOMAIN @ len @ payload))"

text \<open>The loop of \<^verbatim>\<open>parse_frames\<close>, from \<open>cursor\<close> on; running out of bytes ends it without an error.\<close>

function parse_loop :: "prims \<Rightarrow> bytes \<Rightarrow> nat \<Rightarrow> bytes list \<Rightarrow> JournalError + (bytes list \<times> nat)" where
  "parse_loop P bs cursor frames =
     (if \<not> cursor < length bs then Ok (frames, cursor)
      else case slice bs cursor (cursor + LENGTH_BYTES) of
        None \<Rightarrow> Ok (frames, cursor)
      | Some length_bytes \<Rightarrow>
          let payload_length = unat (be_word length_bytes :: u32) in
          if payload_length = 0 \<or> payload_length > MAX_FRAME_BYTES then Err (OversizedFrame cursor)
          else
            let payload_start = cursor + LENGTH_BYTES;
                checksum_start = payload_start + payload_length;
                frame_end = checksum_start + CHECKSUM_BYTES in
            (case slice bs payload_start checksum_start of
               None \<Rightarrow> Ok (frames, cursor)
             | Some payload \<Rightarrow>
                 (case slice bs checksum_start frame_end of
                    None \<Rightarrow> Ok (frames, cursor)
                  | Some stored \<Rightarrow>
                      if checksum P length_bytes payload \<noteq> stored then Err (Checksum cursor)
                      else parse_loop P bs frame_end (frames @ [payload]))))"
  by pat_completeness auto
termination
  by (relation "measure (\<lambda>(P, bs, cursor, frames). length bs - cursor)") auto

declare parse_loop.simps [simp del]

definition parse_frames :: "prims \<Rightarrow> bytes \<Rightarrow> JournalError + (bytes list \<times> nat)" where
  "parse_frames P bs = parse_loop P bs (length JOURNAL_MAGIC) []"

text \<open>The bytes \<^verbatim>\<open>write_frame\<close> writes and \<^verbatim>\<open>update_frame_hash\<close> feeds to the hasher.\<close>

definition frame_length_bytes :: "bytes \<Rightarrow> bytes" where
  "frame_length_bytes payload = be_bytes (of_nat (length payload) :: u32)"

definition frame :: "prims \<Rightarrow> bytes \<Rightarrow> bytes" where
  "frame P payload = frame_length_bytes payload @ payload @ checksum P (frame_length_bytes payload) payload"

definition payload_ok :: "bytes \<Rightarrow> bool" where
  "payload_ok payload \<longleftrightarrow> payload \<noteq> [] \<and> length payload \<le> MAX_FRAME_BYTES"

definition update_frame_hash :: "prims \<Rightarrow> bytes \<Rightarrow> bytes \<Rightarrow> JournalError + bytes" where
  "update_frame_hash P hasher payload =
     (if \<not> payload_ok payload then Err InvalidPayload else Ok (hasher @ frame P payload))"

text \<open>The abstract content of a committed journal: the marker and its frames.\<close>

definition journal_image :: "prims \<Rightarrow> bytes list \<Rightarrow> bytes" where
  "journal_image P fs = JOURNAL_MAGIC @ concat (map (frame P) fs)"

section \<open>The head witness\<close>

record JournalWitness =
  wt_length :: u64
  wt_frame_count :: u64
  wt_journal_digest :: bytes32

definition WITNESS_MAGIC :: bytes where "WITNESS_MAGIC = ascii ''SUPGHD01''"
definition WITNESS_DOMAIN :: bytes where "WITNESS_DOMAIN = ascii ''supgang/journal-head/v1'' @ [0]"
definition CONTENT_BYTES :: nat where "CONTENT_BYTES = 8 + 8 + 8 + 32"
definition FILE_BYTES :: nat where "FILE_BYTES = CONTENT_BYTES + 32"

definition journal_witness :: "prims \<Rightarrow> bytes \<Rightarrow> nat \<Rightarrow> JournalWitness" where
  "journal_witness P bs frame_count =
     \<lparr>wt_length = of_nat (length bs), wt_frame_count = of_nat frame_count, wt_journal_digest = sha256 P bs\<rparr>"

definition encode_witness :: "prims \<Rightarrow> JournalWitness \<Rightarrow> bytes" where
  "encode_witness P w =
     (let output = WITNESS_MAGIC @ be_bytes (wt_length w) @ be_bytes (wt_frame_count w) @
        be_bytes (wt_journal_digest w) in
      output @ be_bytes (sha256 P (WITNESS_DOMAIN @ output)))"

definition decode_witness :: "prims \<Rightarrow> bytes \<Rightarrow> JournalError + JournalWitness" where
  "decode_witness P bs =
     (if length bs \<noteq> FILE_BYTES \<or> slice bs 0 (length WITNESS_MAGIC) \<noteq> Some WITNESS_MAGIC then Err Rollback
      else rbind (ok_or Rollback (slice bs 0 CONTENT_BYTES)) (\<lambda>content.
        if slice bs CONTENT_BYTES (length bs) \<noteq> Some (be_bytes (sha256 P (WITNESS_DOMAIN @ content)))
        then Err Rollback
        else
          rbind (ok_or Rollback (slice bs (length WITNESS_MAGIC) (length WITNESS_MAGIC + 8))) (\<lambda>len_bytes.
          rbind (ok_or Rollback (try_array len_bytes)) (\<lambda>len.
          rbind (ok_or Rollback (slice bs (length WITNESS_MAGIC + 8) (length WITNESS_MAGIC + 16))) (\<lambda>count_bytes.
          rbind (ok_or Rollback (try_array count_bytes)) (\<lambda>frame_count.
          rbind (ok_or Rollback (slice bs (length WITNESS_MAGIC + 16) CONTENT_BYTES)) (\<lambda>digest_bytes.
          rbind (ok_or Rollback (try_array digest_bytes)) (\<lambda>journal_digest.
            Ok \<lparr>wt_length = len, wt_frame_count = frame_count, wt_journal_digest = journal_digest\<rparr>))))))))"

section \<open>Parsing what was written\<close>

lemmas frame_sizes = MAX_FRAME_BYTES_def CHECKSUM_BYTES_def LENGTH_BYTES_def

lemma length_magic [simp]: "length JOURNAL_MAGIC = 8"
  by (simp add: JOURNAL_MAGIC_def ascii_def)

lemma length_checksum [simp]: "length (checksum P l p) = 32"
  by (simp add: checksum_def)

lemma length_frame_length_bytes [simp]: "length (frame_length_bytes p) = 4"
  by (simp add: frame_length_bytes_def)

lemma length_frame: "length (frame P p) = length p + 36"
  by (simp add: frame_def)

lemma frame_length_value:
  "payload_ok p \<Longrightarrow> unat (be_word (frame_length_bytes p) :: u32) = length p"
  by (simp add: frame_length_bytes_def payload_ok_def MAX_FRAME_BYTES_def unat_of_nat)

lemma journal_image_Nil: "journal_image P [] = JOURNAL_MAGIC"
  by (simp add: journal_image_def)

lemma journal_image_append: "journal_image P (fs @ gs) = journal_image P fs @ concat (map (frame P) gs)"
  by (simp add: journal_image_def)

lemma length_journal_image: "length (journal_image P fs) = 8 + sum_list (map (\<lambda>p. length p + 36) fs)"
  by (simp add: journal_image_def length_concat comp_def length_frame)

lemma slice_at: "i = length as \<Longrightarrow> j = i + length bs \<Longrightarrow> slice (as @ bs @ cs) i j = Some bs"
  by (simp add: slice_def)

lemma parse_loop_stop: "length bs \<le> cursor \<Longrightarrow> parse_loop P bs cursor frames = Ok (frames, cursor)"
  by (subst parse_loop.simps) simp

lemma parse_loop_frame:
  assumes "payload_ok p"
  shows "parse_loop P (as @ frame P p @ r) (length as) frames =
    parse_loop P (as @ frame P p @ r) (length as + length (frame P p)) (frames @ [p])"
proof -
  let ?bs = "as @ frame P p @ r" and ?l = "frame_length_bytes p" and ?n = "length as"
  let ?c = "checksum P (frame_length_bytes p) p"
  have bs: "?bs = as @ ?l @ p @ ?c @ r" by (simp add: frame_def)
  have "slice (as @ ?l @ (p @ ?c @ r)) ?n (?n + 4) = Some ?l"
    by (rule slice_at) simp_all
  moreover have "slice ((as @ ?l) @ p @ (?c @ r)) (?n + 4) (?n + 4 + length p) = Some p"
    by (rule slice_at) simp_all
  moreover have "slice ((as @ ?l @ p) @ ?c @ r) (?n + 4 + length p) (?n + 4 + length p + 32) = Some ?c"
    by (rule slice_at) simp_all
  ultimately have parts: "slice ?bs ?n (?n + 4) = Some ?l"
    "slice ?bs (?n + 4) (?n + 4 + length p) = Some p"
    "slice ?bs (?n + 4 + length p) (?n + 4 + length p + 32) = Some ?c"
    unfolding bs by simp_all
  have "?n < length ?bs" by (simp add: length_frame)
  moreover have "p \<noteq> []" "length p \<le> 65536" using assms by (simp_all add: payload_ok_def MAX_FRAME_BYTES_def)
  moreover have "?n + length (frame P p) = ?n + 4 + length p + 32" by (simp add: length_frame)
  ultimately show ?thesis
    by (subst parse_loop.simps)
      (simp only: parts frame_length_value [OF assms] frame_sizes Let_def option.case, simp)
qed

text \<open>A frame cut short ends the scan without an error, wherever the cut is.\<close>

lemma parse_loop_cut:
  assumes "payload_ok p" and "k < length (frame P p)"
  shows "parse_loop P (as @ take k (frame P p)) (length as) frames = Ok (frames, length as)"
proof -
  let ?bs = "as @ take k (frame P p)" and ?n = "length as"
  let ?l = "frame_length_bytes p" and ?c = "checksum P (frame_length_bytes p) p"
  have len: "length ?bs = ?n + k" using assms(2) by simp
  have p: "p \<noteq> []" "length p \<le> 65536" using assms(1) by (simp_all add: payload_ok_def MAX_FRAME_BYTES_def)
  consider "k = 0" | "0 < k" "k < 4" | "4 \<le> k" "k < 4 + length p" | "4 + length p \<le> k"
    by linarith
  then show ?thesis
  proof cases
    case 1
    then show ?thesis by (simp add: parse_loop_stop)
  next
    case 2
    then show ?thesis
      by (subst parse_loop.simps) (simp add: len slice_None LENGTH_BYTES_def)
  next
    case 3
    then have "?bs = as @ ?l @ take (k - 4) (p @ ?c)" by (simp add: frame_def)
    then have "slice ?bs ?n (?n + 4) = Some ?l" by (simp only:) (rule slice_at, simp_all)
    then show ?thesis using 3 p
      by (subst parse_loop.simps)
        (simp add: len slice_None frame_length_value [OF assms(1)] frame_sizes Let_def)
  next
    case 4
    then have bs: "?bs = as @ ?l @ p @ take (k - 4 - length p) ?c" by (simp add: frame_def)
    have "slice (as @ ?l @ (p @ take (k - 4 - length p) ?c)) ?n (?n + 4) = Some ?l"
      by (rule slice_at) simp_all
    moreover have "slice ((as @ ?l) @ p @ take (k - 4 - length p) ?c) (?n + 4) (?n + 4 + length p) = Some p"
      by (rule slice_at) simp_all
    ultimately have "slice ?bs ?n (?n + 4) = Some ?l" "slice ?bs (?n + 4) (?n + 4 + length p) = Some p"
      unfolding bs by simp_all
    moreover have "k < length p + 36" using assms(2) by (simp add: length_frame)
    ultimately show ?thesis using 4 p
      by (subst parse_loop.simps)
        (simp add: len slice_None frame_length_value [OF assms(1)] frame_sizes Let_def)
  qed
qed

lemma parse_loop_frames:
  "\<forall>p \<in> set fs. payload_ok p \<Longrightarrow>
     parse_loop P (as @ concat (map (frame P) fs) @ r) (length as) frames =
     parse_loop P (as @ concat (map (frame P) fs) @ r) (length as + length (concat (map (frame P) fs))) (frames @ fs)"
proof (induction fs arbitrary: as frames)
  case (Cons p fs)
  then show ?case
    using parse_loop_frame [of p P as "concat (map (frame P) fs) @ r" frames]
      Cons.IH [of "as @ frame P p" "frames @ [p]"]
    by (simp add: add_ac)
qed simp

text \<open>A written sequence of frames cut anywhere is a whole number of them and part of the next.\<close>

lemma cut_frames:
  "\<exists>n j. n \<le> length fs \<and> take k (concat (map (frame P) fs)) =
     concat (map (frame P) (take n fs)) @ (if n < length fs then take j (frame P (fs ! n)) else []) \<and>
     (n < length fs \<longrightarrow> j < length (frame P (fs ! n)))"
proof (induction fs arbitrary: k)
  case (Cons p fs)
  show ?case
  proof (cases "k < length (frame P p)")
    case True
    then show ?thesis by (intro exI [of _ 0] exI [of _ k]) simp
  next
    case False
    obtain n j where "n \<le> length fs" "take (k - length (frame P p)) (concat (map (frame P) fs)) =
      concat (map (frame P) (take n fs)) @ (if n < length fs then take j (frame P (fs ! n)) else [])"
      "n < length fs \<longrightarrow> j < length (frame P (fs ! n))"
      using Cons.IH by blast
    then show ?thesis using False by (intro exI [of _ "Suc n"] exI [of _ j]) auto
  qed
qed simp

lemma parse_cut_image:
  assumes "\<forall>p \<in> set fs. payload_ok p" and "\<forall>p \<in> set gs. payload_ok p"
  shows "\<exists>n y. journal_image P fs @ take k (concat (map (frame P) gs)) = journal_image P (fs @ take n gs) @ y \<and>
    parse_frames P (journal_image P fs @ take k (concat (map (frame P) gs))) =
      Ok (fs @ take n gs, length (journal_image P (fs @ take n gs)))"
proof -
  obtain n j where n: "n \<le> length gs" and cut: "take k (concat (map (frame P) gs)) =
      concat (map (frame P) (take n gs)) @ (if n < length gs then take j (frame P (gs ! n)) else [])"
    and j: "n < length gs \<longrightarrow> j < length (frame P (gs ! n))"
    using cut_frames [of gs k P] by blast
  let ?hs = "fs @ take n gs"
  let ?r = "if n < length gs then take j (frame P (gs ! n)) else []"
  have "\<forall>p \<in> set ?hs. payload_ok p" using assms by (auto dest: in_set_takeD)
  then have "parse_frames P (journal_image P ?hs @ ?r) = parse_loop P (journal_image P ?hs @ ?r) (length (journal_image P ?hs)) ?hs"
    using parse_loop_frames [of ?hs P JOURNAL_MAGIC ?r "[]"] by (simp add: parse_frames_def journal_image_def)
  also have "\<dots> = Ok (?hs, length (journal_image P ?hs))"
    using j assms parse_loop_cut [of "gs ! n" j P "journal_image P ?hs"] by (auto simp: parse_loop_stop)
  finally have "parse_frames P (journal_image P ?hs @ ?r) = Ok (?hs, length (journal_image P ?hs))" .
  moreover have "journal_image P fs @ take k (concat (map (frame P) gs)) = journal_image P ?hs @ ?r"
    by (simp add: cut journal_image_append)
  ultimately show ?thesis by (intro exI [of _ n] exI [of _ ?r]) (simp only: simp_thms)
qed

lemma parse_image:
  "\<forall>p \<in> set fs. payload_ok p \<Longrightarrow> parse_frames P (journal_image P fs) = Ok (fs, length (journal_image P fs))"
  using parse_cut_image [of fs "[]" P 0] by simp

text \<open>Conversely, what the scan accepts is exactly what was written for the frames it returns.\<close>

lemma frame_of_slices:
  assumes "slice bs i (i + 4) = Some l" and "slice bs (i + 4) (i + 4 + n) = Some p"
    and "slice bs (i + 4 + n) (i + 4 + n + 32) = Some (checksum P l p)"
    and "n = unat (be_word l :: u32)" and "n \<noteq> 0" and "n \<le> 65536"
  shows "payload_ok p" "i + length (frame P p) = i + 4 + n + 32" "i + 4 + n + 32 \<le> length bs"
    "take (length (frame P p)) (drop i bs) = frame P p"
proof -
  have len: "length l = 4" "length p = n" "i + 4 + n + 32 \<le> length bs"
    using assms(1-3) by (auto dest: slice_Some_length)
  have "frame_length_bytes p = l"
    using len assms(4) be_bytes_be_word [where 'a = 32, of l] by (simp add: frame_length_bytes_def)
  then have frame: "frame P p = l @ p @ checksum P l p" by (simp add: frame_def)
  have "l = take 4 (drop i bs)" "p = take n (drop (i + 4) bs)" "checksum P l p = take 32 (drop (i + 4 + n) bs)"
    using assms(1-3) by (auto simp: slice_def split: if_splits)
  then have "take (4 + (n + 32)) (drop i bs) = l @ p @ checksum P l p"
    by (simp only: take_add drop_drop) (simp add: add_ac)
  then show "take (length (frame P p)) (drop i bs) = frame P p" "i + length (frame P p) = i + 4 + n + 32"
    using len frame by simp_all
  show "payload_ok p" using len assms(5,6) by (auto simp: payload_ok_def MAX_FRAME_BYTES_def)
qed (use slice_Some_length [OF assms(3)] in simp)

lemma parse_loop_Ok:
  assumes "parse_loop P bs cursor acc = Ok (frames, n)"
  shows "frames = acc \<and> n = cursor \<or>
    (\<exists>p. payload_ok p \<and> cursor + length (frame P p) \<le> length bs \<and> 0 < length bs - cursor \<and>
      take (length (frame P p)) (drop cursor bs) = frame P p \<and>
      parse_loop P bs (cursor + length (frame P p)) (acc @ [p]) = Ok (frames, n))"
proof (cases "cursor < length bs")
  case False
  then show ?thesis using assms by (simp add: parse_loop_stop)
next
  case True
  note step = assms [unfolded parse_loop.simps [of P bs cursor acc] frame_sizes Let_def]
  show ?thesis
  proof (cases "slice bs cursor (cursor + 4)")
    case None
    then show ?thesis using step True by simp
  next
    case l: (Some l)
    let ?n = "unat (be_word l :: u32)"
    have n: "?n \<noteq> 0" "?n \<le> 65536" using step True l by (auto split: if_splits)
    show ?thesis
    proof (cases "slice bs (cursor + 4) (cursor + 4 + ?n) = None \<or>
        slice bs (cursor + 4 + ?n) (cursor + 4 + ?n + 32) = None")
      case True
      then show ?thesis using step \<open>cursor < length bs\<close> l n by (auto split: option.splits if_splits)
    next
      case False
      then obtain p c where p: "slice bs (cursor + 4) (cursor + 4 + ?n) = Some p"
        "slice bs (cursor + 4 + ?n) (cursor + 4 + ?n + 32) = Some c" by auto
      then have c: "checksum P l p = c" "parse_loop P bs (cursor + 4 + ?n + 32) (acc @ [p]) = Ok (frames, n)"
        using step \<open>cursor < length bs\<close> l n by (auto split: if_splits)
      have fr: "payload_ok p" "cursor + length (frame P p) = cursor + 4 + ?n + 32"
        "cursor + 4 + ?n + 32 \<le> length bs" "take (length (frame P p)) (drop cursor bs) = frame P p"
        using frame_of_slices [OF l p(1) p(2) [folded c(1)] refl n] by blast+
      then show ?thesis
        using c(2) \<open>cursor < length bs\<close> unfolding fr(2) [symmetric]
        by (intro disjI2 exI [of _ p]) (simp only: zero_less_diff simp_thms)
    qed
  qed
qed

lemma parse_loop_sound:
  assumes "parse_loop P bs cursor acc = Ok (frames, n)" and "cursor \<le> length bs"
  shows "\<exists>fs. frames = acc @ fs \<and> (\<forall>p \<in> set fs. payload_ok p) \<and> n \<le> length bs \<and>
    n = cursor + length (concat (map (frame P) fs)) \<and>
    take (length (concat (map (frame P) fs))) (drop cursor bs) = concat (map (frame P) fs)"
  using assms
proof (induction "length bs - cursor" arbitrary: cursor acc rule: less_induct)
  case less
  from parse_loop_Ok [OF less.prems(1)] show ?case
  proof (elim disjE exE conjE)
    assume "frames = acc" "n = cursor"
    then show ?thesis using less.prems(2) by (intro exI [of _ "[]"]) simp
  next
    fix p assume 2: "payload_ok p" "cursor + length (frame P p) \<le> length bs"
      "take (length (frame P p)) (drop cursor bs) = frame P p" "0 < length bs - cursor"
      "parse_loop P bs (cursor + length (frame P p)) (acc @ [p]) = Ok (frames, n)"
    let ?e = "cursor + length (frame P p)"
    have smaller: "length bs - ?e < length bs - cursor" using 2(2,4) by (simp add: length_frame)
    obtain fs where fs: "frames = (acc @ [p]) @ fs" "\<forall>p \<in> set fs. payload_ok p" "n \<le> length bs"
        "n = ?e + length (concat (map (frame P) fs))"
        "take (length (concat (map (frame P) fs))) (drop ?e bs) = concat (map (frame P) fs)"
      using less.hyps [OF smaller 2(5) 2(2)] by (elim exE conjE) (rule that)
    have "drop (length (frame P p)) (drop cursor bs) = drop ?e bs"
      by (simp only: drop_drop add.commute [of cursor])
    then have "take (length (frame P p) + length (concat (map (frame P) fs))) (drop cursor bs) =
        take (length (frame P p)) (drop cursor bs) @ take (length (concat (map (frame P) fs))) (drop ?e bs)"
      by (simp only: take_add)
    then have "take (length (concat (map (frame P) (p # fs)))) (drop cursor bs) = concat (map (frame P) (p # fs))"
      unfolding 2(3) fs(5) by simp
    moreover have "frames = acc @ p # fs" "\<forall>q \<in> set (p # fs). payload_ok q"
      "n = cursor + length (concat (map (frame P) (p # fs)))" using fs(1,2,4) 2(1) by simp_all
    ultimately show ?thesis using fs(3) by blast
  qed
qed

lemma parse_frames_sound:
  assumes "parse_frames P (JOURNAL_MAGIC @ r) = Ok (frames, n)"
  shows "\<forall>p \<in> set frames. payload_ok p" "n = length (journal_image P frames)"
    "take n (JOURNAL_MAGIC @ r) = journal_image P frames" "n \<le> length (JOURNAL_MAGIC @ r)"
proof -
  have "8 \<le> length (JOURNAL_MAGIC @ r)" by simp
  then obtain fs where frames: "frames = fs" and ok: "\<forall>p \<in> set fs. payload_ok p" and le: "n \<le> length (JOURNAL_MAGIC @ r)"
    and n: "n = 8 + length (concat (map (frame P) fs))"
    and bs: "take (length (concat (map (frame P) fs))) (drop 8 (JOURNAL_MAGIC @ r)) = concat (map (frame P) fs)"
    using parse_loop_sound [OF assms [unfolded parse_frames_def length_magic]] by auto
  show "\<forall>p \<in> set frames. payload_ok p" "n = length (journal_image P frames)" "n \<le> length (JOURNAL_MAGIC @ r)"
    using ok n le by (simp_all add: frames journal_image_def)
  show "take n (JOURNAL_MAGIC @ r) = journal_image P frames"
    unfolding frames journal_image_def n take_add bs by simp
qed

lemma journal_image_inject:
  assumes "journal_image P fs = journal_image P gs" and "\<forall>p \<in> set fs. payload_ok p" and "\<forall>p \<in> set gs. payload_ok p"
  shows "fs = gs"
proof -
  have "parse_frames P (journal_image P gs) = Ok (fs, length (journal_image P fs))"
    using parse_image [OF assms(2), of P] unfolding assms(1) .
  then show ?thesis unfolding parse_image [OF assms(3)] by simp
qed

section \<open>Laws of the witness\<close>

lemma length_witness_magic [simp]: "length WITNESS_MAGIC = 8"
  by (simp add: WITNESS_MAGIC_def ascii_def)

lemma length_encode_witness [simp]: "length (encode_witness P w) = FILE_BYTES"
  by (simp add: encode_witness_def FILE_BYTES_def CONTENT_BYTES_def Let_def)

lemma decode_encode_witness [simp]: "decode_witness P (encode_witness P w) = Ok w"
  by (simp add: decode_witness_def encode_witness_def slice_def FILE_BYTES_def CONTENT_BYTES_def Let_def
      try_array_def)

end
