(* ===== verification/Storage.thy ===== *)
theory Storage
  imports Identity Journal_Format
begin

text \<open>
  The protected identity files (\<^verbatim>\<open>storage.rs\<close>): the loaded identity of a member, the pending identity
  of a computer that asked to join, and the fixed checksummed formats both are kept in.
\<close>

section \<open>Identities\<close>

record LocalIdentity =
  li_root :: "RootIdentity option"
  li_root_verifying_key :: bytes32
  li_device :: DeviceIdentity
  li_hive_id :: HiveId

record PendingIdentity =
  pi_device :: DeviceIdentity
  pi_request_nonce :: bytes32

datatype StorageError =
    Io IoErrorKind
  | Identity IdentityError
  | Journal JournalError
  | NotDirectory
  | WrongOwner
  | InsecureDirectoryPermissions
  | UnsafeAncestor
  | AlreadyInitialized
  | PendingAlreadyExists
  | MissingPendingIdentity
  | InvalidIdentityFile
  | InvalidPendingIdentity
  | InsecureIdentityPermissions
  | InsecureAcl
  | NoDefaultStateDirectory

definition IDENTITY_MAGIC :: bytes where "IDENTITY_MAGIC = ascii ''SUPGKEY3''"
definition IDENTITY_DOMAIN :: bytes where "IDENTITY_DOMAIN = ascii ''supgang/identity-file/v3'' @ [0]"
definition KEY_BYTES :: nat where "KEY_BYTES = 32"
definition STORAGE_CHECKSUM_BYTES :: nat where "STORAGE_CHECKSUM_BYTES = 32"
definition ROOT_PRESENT_BYTES :: nat where "ROOT_PRESENT_BYTES = 1"
definition IDENTITY_FILE_BYTES :: nat where
  "IDENTITY_FILE_BYTES =
     length IDENTITY_MAGIC + ROOT_PRESENT_BYTES + KEY_BYTES + KEY_BYTES + KEY_BYTES + STORAGE_CHECKSUM_BYTES"
definition PENDING_MAGIC :: bytes where "PENDING_MAGIC = ascii ''SUPGPND1''"
definition PENDING_DOMAIN :: bytes where "PENDING_DOMAIN = ascii ''supgang/pending-identity/v1'' @ [0]"
definition PENDING_FILE_BYTES :: nat where
  "PENDING_FILE_BYTES = length PENDING_MAGIC + KEY_BYTES + KEY_BYTES + STORAGE_CHECKSUM_BYTES"

definition identity_checksum :: "prims \<Rightarrow> bytes \<Rightarrow> bytes" where
  "identity_checksum P data = be_bytes (sha256 P (IDENTITY_DOMAIN @ data))"

definition pending_checksum :: "prims \<Rightarrow> bytes \<Rightarrow> bytes" where
  "pending_checksum P data = be_bytes (sha256 P (PENDING_DOMAIN @ data))"

section \<open>Files\<close>

text \<open>The payload \<^verbatim>\<open>write_identity\<close> builds, and \<^verbatim>\<open>write_pending\<close> for a pending identity.\<close>

definition identity_payload :: "prims \<Rightarrow> LocalIdentity \<Rightarrow> bytes" where
  "identity_payload P identity =
     (let root_secret = (case li_root identity of None \<Rightarrow> be_bytes (0 :: bytes32) | Some r \<Rightarrow> be_bytes (root_seed r));
          payload = IDENTITY_MAGIC @ [if li_root identity \<noteq> None then 1 else 0] @
            be_bytes (li_root_verifying_key identity) @ root_secret @ be_bytes (device_seed (li_device identity)) in
      payload @ identity_checksum P payload)"

definition pending_payload :: "prims \<Rightarrow> PendingIdentity \<Rightarrow> bytes" where
  "pending_payload P pending =
     (let payload = PENDING_MAGIC @ be_bytes (device_seed (pi_device pending)) @ be_bytes (pi_request_nonce pending) in
      payload @ pending_checksum P payload)"

text \<open>The root secret of the file, by its marker byte.\<close>

definition decode_root_secret :: "prims \<Rightarrow> bytes \<Rightarrow> bytes \<Rightarrow> bytes32 \<Rightarrow> StorageError + RootIdentity option" where
  "decode_root_secret P marker root_secret root_key =
     (if marker = [0] \<and> list_all (\<lambda>b. b = 0) root_secret then Ok None
      else if marker = [1] then
        rbind (map_err StorageError.Identity (root_from_secret_bytes root_secret)) (\<lambda>root.
          if root_verifying_key P root \<noteq> root_key then Err InvalidIdentityFile else Ok (Some root))
      else Err InvalidIdentityFile)"

definition decode_identity :: "prims \<Rightarrow> bytes \<Rightarrow> StorageError + LocalIdentity" where
  "decode_identity P bs =
     (if length bs \<noteq> IDENTITY_FILE_BYTES \<or> slice bs 0 (length IDENTITY_MAGIC) \<noteq> Some IDENTITY_MAGIC
      then Err InvalidIdentityFile
      else let data_end = length IDENTITY_MAGIC + ROOT_PRESENT_BYTES + KEY_BYTES + KEY_BYTES + KEY_BYTES in
        rbind (ok_or InvalidIdentityFile (slice bs 0 data_end)) (\<lambda>data.
        rbind (ok_or InvalidIdentityFile (slice bs data_end (length bs))) (\<lambda>stored_checksum.
        if identity_checksum P data \<noteq> stored_checksum then Err InvalidIdentityFile
        else
          let marker_index = length IDENTITY_MAGIC;
              root_key_start = marker_index + ROOT_PRESENT_BYTES;
              root_key_end = root_key_start + KEY_BYTES;
              root_secret_end = root_key_end + KEY_BYTES;
              device_end = root_secret_end + KEY_BYTES in
          rbind (ok_or InvalidIdentityFile (slice bs marker_index root_key_start)) (\<lambda>marker.
          rbind (ok_or InvalidIdentityFile (slice bs root_key_start root_key_end)) (\<lambda>key.
          rbind (ok_or InvalidIdentityFile (try_array key)) (\<lambda>root_key_bytes.
          rbind (if ed_valid_key P root_key_bytes then Ok root_key_bytes else Err InvalidIdentityFile) (\<lambda>root_key.
          rbind (ok_or InvalidIdentityFile (slice bs root_key_end root_secret_end)) (\<lambda>root_secret.
          rbind (decode_root_secret P marker root_secret root_key) (\<lambda>root.
          rbind (ok_or InvalidIdentityFile (slice bs root_secret_end device_end)) (\<lambda>device_secret.
          rbind (map_err StorageError.Identity (device_from_secret_bytes device_secret)) (\<lambda>device.
            Ok \<lparr>li_root = root, li_root_verifying_key = root_key, li_device = device,
              li_hive_id = hive_from_root_verifying_key P root_key\<rparr>)))))))))))"

definition decode_pending :: "prims \<Rightarrow> bytes \<Rightarrow> StorageError + PendingIdentity" where
  "decode_pending P bs =
     (if length bs \<noteq> PENDING_FILE_BYTES \<or> slice bs 0 (length PENDING_MAGIC) \<noteq> Some PENDING_MAGIC
      then Err InvalidPendingIdentity
      else let data_end = length PENDING_MAGIC + KEY_BYTES + KEY_BYTES in
        rbind (ok_or InvalidPendingIdentity (slice bs 0 data_end)) (\<lambda>data.
        rbind (ok_or InvalidPendingIdentity (slice bs data_end (length bs))) (\<lambda>stored_checksum.
        if pending_checksum P data \<noteq> stored_checksum then Err InvalidPendingIdentity
        else
          let device_start = length PENDING_MAGIC;
              device_end = device_start + KEY_BYTES;
              nonce_end = device_end + KEY_BYTES in
          rbind (ok_or InvalidPendingIdentity (slice bs device_start device_end)) (\<lambda>device_secret.
          rbind (map_err StorageError.Identity (device_from_secret_bytes device_secret)) (\<lambda>device.
          rbind (ok_or InvalidPendingIdentity (slice bs device_end nonce_end)) (\<lambda>nonce.
          rbind (ok_or InvalidPendingIdentity (try_array nonce)) (\<lambda>request_nonce.
            Ok \<lparr>pi_device = device, pi_request_nonce = request_nonce\<rparr>)))))))"

text \<open>What \<^verbatim>\<open>install_joined_identity\<close> makes of a pending key.\<close>

definition joined_identity :: "prims \<Rightarrow> PendingIdentity \<Rightarrow> bytes32 \<Rightarrow> LocalIdentity" where
  "joined_identity P pending root_key =
     \<lparr>li_root = None, li_root_verifying_key = root_key, li_device = pi_device pending,
      li_hive_id = hive_from_root_verifying_key P root_key\<rparr>"

section \<open>Lemmas\<close>

text \<open>An identity as \<^verbatim>\<open>initialize\<close>, \<^verbatim>\<open>install_joined_identity\<close> and \<^verbatim>\<open>load_identity\<close> build it.\<close>

definition identity_wf :: "prims \<Rightarrow> LocalIdentity \<Rightarrow> bool" where
  "identity_wf P i \<longleftrightarrow> li_hive_id i = hive_from_root_verifying_key P (li_root_verifying_key i) \<and>
     ed_valid_key P (li_root_verifying_key i) \<and>
     (\<forall>r. li_root i = Some r \<longrightarrow> root_verifying_key P r = li_root_verifying_key i)"

lemma storage_sizes [simp]:
  "length IDENTITY_MAGIC = 8" "length PENDING_MAGIC = 8" "KEY_BYTES = 32" "STORAGE_CHECKSUM_BYTES = 32"
  "ROOT_PRESENT_BYTES = 1" "length (identity_checksum P data) = 32" "length (pending_checksum P data) = 32"
  by (simp_all add: IDENTITY_MAGIC_def PENDING_MAGIC_def ascii_def KEY_BYTES_def STORAGE_CHECKSUM_BYTES_def
      ROOT_PRESENT_BYTES_def identity_checksum_def pending_checksum_def)

lemma slice_field:
  assumes "i = length as" and "j = i + length bs"
  shows "slice (as @ bs @ cs) i j = Some bs"
  using assms slice_middle by metis

lemma from_secret_be_bytes [simp]:
  "root_from_secret_bytes (be_bytes (w :: bytes32)) = Ok \<lparr>root_seed = w\<rparr>"
  "device_from_secret_bytes (be_bytes (w :: bytes32)) = Ok \<lparr>device_seed = w\<rparr>"
  by (simp_all add: root_from_secret_bytes_def device_from_secret_bytes_def)

lemma seed_eta [simp]: "\<lparr>root_seed = root_seed r\<rparr> = r" "\<lparr>device_seed = device_seed d\<rparr> = d"
  "\<lparr>pi_device = pi_device p, pi_request_nonce = pi_request_nonce p\<rparr> = p"
  by simp_all

lemma be_bytes_zero: "list_all (\<lambda>b. b = 0) (be_bytes (0 :: bytes32))"
  by code_simp

lemma decode_identity_payload:
  assumes "identity_wf P i"
  shows "decode_identity P (identity_payload P i) = Ok i"
proof -
  define m k r d where fields: "m = [if li_root i \<noteq> None then 1 else 0 :: u8]"
    "k = be_bytes (li_root_verifying_key i)"
    "r = (case li_root i of None \<Rightarrow> be_bytes (0 :: bytes32) | Some r \<Rightarrow> be_bytes (root_seed r))"
    "d = be_bytes (device_seed (li_device i))"
  have len: "length m = 1" "length k = 32" "length r = 32" "length d = 32"
    by (simp_all add: fields split: option.splits)
  let ?data = "IDENTITY_MAGIC @ m @ k @ r @ d" and ?file = "\<lambda>c. IDENTITY_MAGIC @ m @ k @ r @ d @ c"
  have s: "slice (?file c) 0 8 = Some IDENTITY_MAGIC" "slice (?file c) 0 105 = Some ?data"
    "slice (?file c) 8 9 = Some m" "slice (?file c) 9 41 = Some k" "slice (?file c) 41 73 = Some r"
    "slice (?file c) 73 105 = Some d" "length c = 32 \<Longrightarrow> slice (?file c) 105 137 = Some c" for c
    using len slice_field [of 0 "[]" 8 IDENTITY_MAGIC] slice_field [of 0 "[]" 105 ?data c]
      slice_field [of 8 IDENTITY_MAGIC 9 m] slice_field [of 9 "IDENTITY_MAGIC @ m" 41 k]
      slice_field [of 41 "IDENTITY_MAGIC @ m @ k" 73 r] slice_field [of 73 "IDENTITY_MAGIC @ m @ k @ r" 105 d c]
      slice_field [of 105 ?data 137 c "[]"]
    by simp_all
  have p: "identity_payload P i = ?file (identity_checksum P ?data)"
    by (simp add: identity_payload_def fields Let_def)
  have secret: "decode_root_secret P m r (li_root_verifying_key i) = Ok (li_root i)"
    using assms be_bytes_zero by (cases "li_root i") (simp_all add: fields identity_wf_def decode_root_secret_def)
  have "device_from_secret_bytes d = Ok (li_device i)" "try_array k = Some (li_root_verifying_key i)"
    by (simp_all add: fields)
  then show ?thesis
    unfolding p decode_identity_def using assms len
    by (simp add: s secret IDENTITY_FILE_BYTES_def identity_wf_def Let_def)
qed

lemma decode_pending_payload: "decode_pending P (pending_payload P p) = Ok p"
proof -
  define d n where fields: "d = be_bytes (device_seed (pi_device p))" "n = be_bytes (pi_request_nonce p)"
  have len: "length d = 32" "length n = 32" by (simp_all add: fields)
  let ?data = "PENDING_MAGIC @ d @ n" and ?file = "\<lambda>c. PENDING_MAGIC @ d @ n @ c"
  have s: "slice (?file c) 0 8 = Some PENDING_MAGIC" "slice (?file c) 0 72 = Some ?data" "slice (?file c) 8 40 = Some d"
    "slice (?file c) 40 72 = Some n" "length c = 32 \<Longrightarrow> slice (?file c) 72 104 = Some c" for c
    using len slice_field [of 0 "[]" 8 PENDING_MAGIC] slice_field [of 0 "[]" 72 ?data c]
      slice_field [of 8 PENDING_MAGIC 40 d] slice_field [of 40 "PENDING_MAGIC @ d" 72 n] slice_field [of 72 ?data 104 c "[]"]
    by simp_all
  have p: "pending_payload P p = ?file (pending_checksum P ?data)"
    by (simp add: pending_payload_def fields Let_def)
  have "device_from_secret_bytes d = Ok (pi_device p)" "try_array n = Some (pi_request_nonce p)"
    by (simp_all add: fields)
  then show ?thesis
    unfolding p decode_pending_def using len by (simp add: s PENDING_FILE_BYTES_def Let_def)
qed

text \<open>Only the bytes written for an identity load as that identity.\<close>

lemma slice_join:
  assumes "slice bs i j = Some as" and "slice bs j k = Some cs"
  shows "slice bs i k = Some (as @ cs)"
proof -
  have le: "i \<le> j" "j \<le> k" "k \<le> length bs" and as: "as = drop i (take j bs)" and cs: "cs = drop j (take k bs)"
    using assms by (auto simp: slice_def take_drop split: if_splits)
  have "take k bs = take j bs @ drop j (take k bs)"
    using append_take_drop_id [of j "take k bs"] le by (simp add: min_def)
  then have "drop i (take k bs) = drop i (take j bs @ drop j (take k bs))" by simp
  also have "\<dots> = as @ cs" using le as cs by simp
  finally show ?thesis using le by (simp add: slice_def take_drop)
qed

lemma from_secret_Ok:
  "root_from_secret_bytes bs = Ok r \<Longrightarrow> be_bytes (root_seed r) = bs"
  "device_from_secret_bytes bs = Ok d \<Longrightarrow> be_bytes (device_seed d) = bs"
  by (auto simp: root_from_secret_bytes_def device_from_secret_bytes_def result_simps dest: try_array_Some)

lemma if_Ok_eq_Inr: "(if c then Inr x else Inl e) = Inr y \<longleftrightarrow> c \<and> x = y"
  by auto

lemma decode_identity_canonical:
  assumes "decode_identity P bs = Ok i"
  shows "identity_payload P i = bs \<and> identity_wf P i"
proof -
  obtain m k r d c where parts: "slice bs 0 8 = Some IDENTITY_MAGIC" "slice bs 8 9 = Some m" "slice bs 9 41 = Some k"
      "slice bs 41 73 = Some r" "slice bs 73 105 = Some d" "slice bs 105 137 = Some c" "length bs = 137"
    and sum: "\<exists>data. slice bs 0 105 = Some data \<and> c = identity_checksum P data"
    and key: "try_array k = Some (li_root_verifying_key i)" and valid: "ed_valid_key P (li_root_verifying_key i)"
    and root: "decode_root_secret P m r (li_root_verifying_key i) = Ok (li_root i)"
    and device: "device_from_secret_bytes d = Ok (li_device i)"
    and hive: "li_hive_id i = hive_from_root_verifying_key P (li_root_verifying_key i)"
    using assms unfolding decode_identity_def Let_def storage_sizes IDENTITY_FILE_BYTES_def
    by (auto simp: result_simps if_Ok_eq_Inr)
  have data: "slice bs 0 105 = Some (IDENTITY_MAGIC @ m @ k @ r @ d)"
    using slice_join [OF slice_join [OF slice_join [OF slice_join [OF parts(1,2)] parts(3)] parts(4)] parts(5)] by simp
  then have "slice bs 0 137 = Some (IDENTITY_MAGIC @ m @ k @ r @ d @ c)"
    using slice_join [OF data parts(6)] by simp
  then have bs: "bs = IDENTITY_MAGIC @ m @ k @ r @ d @ c" using parts(7) by (simp add: slice_def)
  have zero: "r = be_bytes (0 :: bytes32)" if "list_all (\<lambda>b. b = 0) r"
    using that slice_Some_length [OF parts(4)] be_bytes_zero
    by (intro nth_equalityI) (auto simp: list_all_length)
  have "m = [if li_root i \<noteq> None then 1 else 0] \<and>
      r = (case li_root i of None \<Rightarrow> be_bytes (0 :: bytes32) | Some r \<Rightarrow> be_bytes (root_seed r)) \<and>
      (\<forall>r. li_root i = Some r \<longrightarrow> root_verifying_key P r = li_root_verifying_key i)"
    using root zero
    by (cases "li_root i") (auto simp: decode_root_secret_def result_simps from_secret_Ok(1) split: if_splits)
  then show ?thesis
    using bs data sum hive valid try_array_Some [OF key] from_secret_Ok(2) [OF device]
    by (auto simp: identity_payload_def identity_wf_def Let_def)
qed

lemma decode_pending_canonical:
  assumes "decode_pending P bs = Ok p"
  shows "pending_payload P p = bs"
proof -
  obtain d n c where parts: "slice bs 0 8 = Some PENDING_MAGIC" "slice bs 8 40 = Some d" "slice bs 40 72 = Some n"
      "slice bs 72 104 = Some c" "length bs = 104"
    and sum: "\<exists>data. slice bs 0 72 = Some data \<and> c = pending_checksum P data"
    and device: "device_from_secret_bytes d = Ok (pi_device p)" and nonce: "try_array n = Some (pi_request_nonce p)"
    using assms unfolding decode_pending_def Let_def storage_sizes PENDING_FILE_BYTES_def
    by (auto simp: result_simps)
  have data: "slice bs 0 72 = Some (PENDING_MAGIC @ d @ n)"
    using slice_join [OF slice_join [OF parts(1,2)] parts(3)] by simp
  then have "slice bs 0 104 = Some (PENDING_MAGIC @ d @ n @ c)" using slice_join [OF data parts(4)] by simp
  then have "bs = PENDING_MAGIC @ d @ n @ c" using parts(5) by (simp add: slice_def)
  then show ?thesis
    using data sum try_array_Some [OF nonce] from_secret_Ok(2) [OF device]
    by (auto simp: pending_payload_def Let_def)
qed

text \<open>Both files are canonical codecs.\<close>

interpretation identity_file: canonical_codec
  "\<lambda>i. Ok (identity_payload P i)" "decode_identity P" "identity_wf P" for P
  by unfold_locales (auto simp: decode_identity_payload dest: decode_identity_canonical)

interpretation pending_file: canonical_codec "\<lambda>p. Ok (pending_payload P p)" "decode_pending P" "\<lambda>_. True" for P
  by unfold_locales (auto simp: decode_pending_payload dest: decode_pending_canonical)

end
