(* ===== verification/Invitation.thy ===== *)
theory Invitation
  imports Membership Revocation Storage
begin

text \<open>
  Offline admission (\<^verbatim>\<open>invitation.rs\<close>): a joining computer proves possession of its pending key in a
  join request; the root answers with a short-lived signed bundle of the membership and the current
  revocation snapshot, which the computer accepts only for its own key and nonce.
\<close>

definition MAX_JOIN_REQUEST_BYTES :: nat where "MAX_JOIN_REQUEST_BYTES = 512"
definition MAX_JOIN_BUNDLE_BYTES :: nat where "MAX_JOIN_BUNDLE_BYTES = 12 * 1024"
definition REQUEST_VERSION :: u16 where "REQUEST_VERSION = 2"
definition BUNDLE_VERSION :: u16 where "BUNDLE_VERSION = 3"
definition REQUEST_DOMAIN :: bytes where "REQUEST_DOMAIN = ascii ''supgang/join-request/v2'' @ [0]"
definition BUNDLE_DOMAIN :: bytes where "BUNDLE_DOMAIN = ascii ''supgang/join-bundle/v3'' @ [0]"
definition REQUEST_FIELDS :: u64 where "REQUEST_FIELDS = 4"
definition BUNDLE_FIELDS :: u64 where "BUNDLE_FIELDS = 7"
definition MAX_BUNDLE_LIFETIME_SECONDS :: u64 where "MAX_BUNDLE_LIFETIME_SECONDS = 60 * 60"

datatype InvitationError =
    UnsupportedVersion
  | Oversized
  | InvalidDeviceKey
  | InvalidRequestSignature
  | InvalidRootKey
  | RequestBindingMismatch
  | InvalidBundleSignature
  | InvalidBundleLifetime
  | ExpiredBundle
  | Membership MembershipError
  | Revocation RevocationError
  | Encode
  | Decode
  | InvalidShape
  | NonCanonical

record JoinRequest =
  jr_device_verifying_key :: bytes32
  jr_nonce :: bytes32
  jr_signature :: bytes64

record JoinBundle =
  jb_root_verifying_key :: bytes32
  jb_membership :: SignedMembership
  jb_revocations :: SignedRevocationList
  jb_issued_at :: u64
  jb_expires_at :: u64
  jb_signature :: bytes

definition request_payload :: "bytes32 \<Rightarrow> bytes32 \<Rightarrow> bytes" where
  "request_payload device_key nonce = be_bytes REQUEST_VERSION @ be_bytes device_key @ be_bytes nonce"

definition bundle_payload ::
  "prims \<Rightarrow> bytes32 \<Rightarrow> SignedMembership \<Rightarrow> SignedRevocationList \<Rightarrow> u64 \<Rightarrow> u64 \<Rightarrow> InvitationError + bytes" where
  "bundle_payload P root_key membership revocations issued_at expires_at =
     rbind (map_err InvitationError.Membership (encode_signed_membership P membership)) (\<lambda>membership.
     rbind (map_err InvitationError.Revocation (encode_signed_revocations P revocations)) (\<lambda>revocations.
       Ok (
         enc_array P 6 @
         enc_u16 P BUNDLE_VERSION @
         enc_bytes P (be_bytes root_key) @
         enc_bytes P membership @
         enc_bytes P revocations @
         enc_u64 P issued_at @
         enc_u64 P expires_at)))"

section \<open>Requests\<close>

definition create_join_request :: "prims \<Rightarrow> PendingIdentity \<Rightarrow> JoinRequest" where
  "create_join_request P pending =
     (let device_verifying_key = device_verifying_key P (pi_device pending);
          payload = request_payload device_verifying_key (pi_request_nonce pending);
          signature = device_sign_domain P (pi_device pending) REQUEST_DOMAIN payload in
      \<lparr>jr_device_verifying_key = device_verifying_key, jr_nonce = pi_request_nonce pending, jr_signature = signature\<rparr>)"

definition verify_join_request :: "prims \<Rightarrow> JoinRequest \<Rightarrow> InvitationError + bytes32" where
  "verify_join_request P r =
     rbind (if ed_valid_key P (jr_device_verifying_key r) then Ok (jr_device_verifying_key r)
            else Err InvalidDeviceKey) (\<lambda>key.
       let payload = request_payload (jr_device_verifying_key r) (jr_nonce r) in
       if verify_domain P key REQUEST_DOMAIN payload (jr_signature r) then Ok key
       else Err InvalidRequestSignature)"

definition invitation_require_array :: "prims \<Rightarrow> bytes \<Rightarrow> u64 \<Rightarrow> InvitationError + bytes" where
  "invitation_require_array P d expected =
     rbind (ok_or InvitationError.Decode (dec_array P d)) (\<lambda>(n, d).
       if n = Some expected then Ok d else Err InvitationError.InvalidShape)"

definition invitation_read_fixed :: "prims \<Rightarrow> bytes \<Rightarrow> InvitationError + (bytes32 \<times> bytes)" where
  "invitation_read_fixed P d =
     rbind (ok_or InvitationError.Decode (dec_bytes P d)) (\<lambda>(bs, d).
     rbind (ok_or InvitationError.InvalidShape (try_array bs)) (\<lambda>w. Ok (w, d)))"

definition read_signature :: "prims \<Rightarrow> bytes \<Rightarrow> InvitationError + (bytes64 \<times> bytes)" where
  "read_signature P d =
     rbind (ok_or InvitationError.Decode (dec_bytes P d)) (\<lambda>(bs, d).
     rbind (ok_or InvitationError.InvalidShape (try_array bs)) (\<lambda>w. Ok (w, d)))"

definition ensure_finished :: "bytes \<Rightarrow> InvitationError + unit" where
  "ensure_finished d = (if d = [] then Ok () else Err InvitationError.InvalidShape)"

definition encode_join_request :: "prims \<Rightarrow> JoinRequest \<Rightarrow> InvitationError + bytes" where
  "encode_join_request P r =
     (let output =
        enc_array P REQUEST_FIELDS @
        enc_u16 P REQUEST_VERSION @
        enc_bytes P (be_bytes (jr_device_verifying_key r)) @
        enc_bytes P (be_bytes (jr_nonce r)) @
        enc_bytes P (be_bytes (jr_signature r)) in
      if length output > MAX_JOIN_REQUEST_BYTES then Err InvitationError.Oversized
      else Ok output)"

definition decode_join_request :: "prims \<Rightarrow> bytes \<Rightarrow> InvitationError + JoinRequest" where
  "decode_join_request P input =
     (if length input > MAX_JOIN_REQUEST_BYTES then Err InvitationError.Oversized
      else rbind (invitation_require_array P input REQUEST_FIELDS) (\<lambda>d.
        rbind (ok_or InvitationError.Decode (dec_u16 P d)) (\<lambda>(version, d).
        if version \<noteq> REQUEST_VERSION then Err InvitationError.UnsupportedVersion
        else rbind (invitation_read_fixed P d) (\<lambda>(device_verifying_key, d).
        rbind (invitation_read_fixed P d) (\<lambda>(nonce, d).
        rbind (read_signature P d) (\<lambda>(signature, d).
        let request = \<lparr>jr_device_verifying_key = device_verifying_key, jr_nonce = nonce, jr_signature = signature\<rparr> in
        rbind (ensure_finished d) (\<lambda>_.
        rbind (encode_join_request P request) (\<lambda>again.
          if again \<noteq> input then Err InvitationError.NonCanonical
          else rbind (verify_join_request P request) (\<lambda>_. Ok request)))))))))"

section \<open>Bundles\<close>

definition join_bundle_new ::
  "prims \<Rightarrow> RootIdentity \<Rightarrow> SignedMembership \<Rightarrow> SignedRevocationList \<Rightarrow> u64 \<Rightarrow> InvitationError + JoinBundle" where
  "join_bundle_new P root membership revocations issued_at =
     (let root_key = root_verifying_key P root in
      rbind (map_err InvitationError.Membership (verify_membership P membership root_key)) (\<lambda>_.
      rbind (map_err InvitationError.Revocation (verify_revocations P revocations root_key)) (\<lambda>_.
        if mc_issued_at (sm_certificate membership) > issued_at \<or> rl_issued_at (sr_list revocations) > issued_at
        then Err InvalidBundleLifetime
        else let expires_at = saturating_add issued_at MAX_BUNDLE_LIFETIME_SECONDS in
          rbind (bundle_payload P root_key membership revocations issued_at expires_at) (\<lambda>payload.
            Ok \<lparr>jb_root_verifying_key = root_key, jb_membership = membership, jb_revocations = revocations,
              jb_issued_at = issued_at, jb_expires_at = expires_at,
              jb_signature = be_bytes (root_sign_domain P root BUNDLE_DOMAIN payload)\<rparr>))))"

definition verify_for_pending :: "prims \<Rightarrow> JoinBundle \<Rightarrow> PendingIdentity \<Rightarrow> u64 \<Rightarrow> InvitationError + bytes32" where
  "verify_for_pending P b pending now =
     (let m = sm_certificate (jb_membership b) in
      rbind (if ed_valid_key P (jb_root_verifying_key b) then Ok (jb_root_verifying_key b)
             else Err InvalidRootKey) (\<lambda>root_key.
      rbind (map_err InvitationError.Membership (verify_membership P (jb_membership b) root_key)) (\<lambda>_.
      rbind (map_err InvitationError.Revocation (verify_revocations P (jb_revocations b) root_key)) (\<lambda>_.
        if jb_expires_at b \<le> jb_issued_at b
          \<or> saturating_sub (jb_expires_at b) (jb_issued_at b) > MAX_BUNDLE_LIFETIME_SECONDS
          \<or> mc_issued_at m > jb_issued_at b
          \<or> rl_issued_at (sr_list (jb_revocations b)) > jb_issued_at b
        then Err InvalidBundleLifetime
        else if jb_expires_at b < now then Err ExpiredBundle
        else rbind (ok_or InvalidBundleSignature (try_array (jb_signature b))) (\<lambda>signature.
          rbind (bundle_payload P (jb_root_verifying_key b) (jb_membership b) (jb_revocations b)
                  (jb_issued_at b) (jb_expires_at b)) (\<lambda>payload.
            if \<not> verify_domain P root_key BUNDLE_DOMAIN payload signature then Err InvalidBundleSignature
            else if mc_device_verifying_key m \<noteq> device_verifying_key P (pi_device pending)
              \<or> mc_admission_nonce m \<noteq> pi_request_nonce pending
              \<or> revocation_contains (jb_revocations b) (mc_node_id m)
            then Err RequestBindingMismatch
            else Ok root_key))))))"

definition encode_join_bundle :: "prims \<Rightarrow> JoinBundle \<Rightarrow> InvitationError + bytes" where
  "encode_join_bundle P b =
     rbind (map_err InvitationError.Membership (encode_signed_membership P (jb_membership b))) (\<lambda>membership.
     rbind (map_err InvitationError.Revocation (encode_signed_revocations P (jb_revocations b))) (\<lambda>revocations.
       let output =
         enc_array P BUNDLE_FIELDS @
         enc_u16 P BUNDLE_VERSION @
         enc_bytes P (be_bytes (jb_root_verifying_key b)) @
         enc_bytes P membership @
         enc_bytes P revocations @
         enc_u64 P (jb_issued_at b) @
         enc_u64 P (jb_expires_at b) @
         enc_bytes P (jb_signature b) in
       if length output > MAX_JOIN_BUNDLE_BYTES then Err InvitationError.Oversized
       else Ok output))"

definition decode_join_bundle :: "prims \<Rightarrow> bytes \<Rightarrow> InvitationError + JoinBundle" where
  "decode_join_bundle P input =
     (if length input > MAX_JOIN_BUNDLE_BYTES then Err InvitationError.Oversized
      else rbind (invitation_require_array P input BUNDLE_FIELDS) (\<lambda>d.
        rbind (ok_or InvitationError.Decode (dec_u16 P d)) (\<lambda>(version, d).
        if version \<noteq> BUNDLE_VERSION then Err InvitationError.UnsupportedVersion
        else rbind (invitation_read_fixed P d) (\<lambda>(root_verifying_key, d).
        rbind (ok_or InvitationError.Decode (dec_bytes P d)) (\<lambda>(bs, d).
        rbind (map_err InvitationError.Membership (decode_signed_membership P bs)) (\<lambda>membership.
        rbind (ok_or InvitationError.Decode (dec_bytes P d)) (\<lambda>(bs, d).
        rbind (map_err InvitationError.Revocation (decode_signed_revocations P bs)) (\<lambda>revocations.
        rbind (ok_or InvitationError.Decode (dec_u64 P d)) (\<lambda>(issued_at, d).
        rbind (ok_or InvitationError.Decode (dec_u64 P d)) (\<lambda>(expires_at, d).
        rbind (ok_or InvitationError.Decode (dec_bytes P d)) (\<lambda>(signature, d).
        let bundle = \<lparr>jb_root_verifying_key = root_verifying_key, jb_membership = membership,
              jb_revocations = revocations, jb_issued_at = issued_at, jb_expires_at = expires_at,
              jb_signature = signature\<rparr> in
        rbind (ensure_finished d) (\<lambda>_.
        rbind (encode_join_bundle P bundle) (\<lambda>again.
          if again \<noteq> input then Err InvitationError.NonCanonical else Ok bundle)))))))))))))"

section \<open>Lemmas\<close>

definition request_wf :: "prims \<Rightarrow> JoinRequest \<Rightarrow> bool" where
  "request_wf P r \<longleftrightarrow> is_ok (verify_join_request P r)"

definition bundle_wf :: "prims \<Rightarrow> JoinBundle \<Rightarrow> bool" where
  "bundle_wf P b \<longleftrightarrow> membership_wf P (jb_membership b) \<and> revocation_wf (jb_revocations b)"

lemma join_eta [simp]:
  "\<lparr>jr_device_verifying_key = jr_device_verifying_key r, jr_nonce = jr_nonce r, jr_signature = jr_signature r\<rparr> = r"
  "\<lparr>jb_root_verifying_key = jb_root_verifying_key b, jb_membership = jb_membership b,
    jb_revocations = jb_revocations b, jb_issued_at = jb_issued_at b, jb_expires_at = jb_expires_at b,
    jb_signature = jb_signature b\<rparr> = b"
  by simp_all

lemma decode_join_request_canonical:
  "decode_join_request P bs = Ok r \<Longrightarrow> encode_join_request P r = Ok bs \<and> request_wf P r"
  by (auto simp: decode_join_request_def request_wf_def result_simps is_ok_iff Let_def split: prod.splits if_splits)

lemma decode_join_bundle_canonical:
  "decode_join_bundle P bs = Ok b \<Longrightarrow> encode_join_bundle P b = Ok bs \<and> bundle_wf P b"
  by (auto simp: decode_join_bundle_def bundle_wf_def result_simps Let_def
      dest: decode_signed_membership_canonical decode_signed_revocations_canonical split: prod.splits if_splits)

lemma verify_join_request_Ok:
  "verify_join_request P r = Ok key \<longleftrightarrow> key = jr_device_verifying_key r \<and> ed_valid_key P key \<and>
     verify_domain P key REQUEST_DOMAIN (request_payload key (jr_nonce r)) (jr_signature r)"
  by (auto simp: verify_join_request_def Let_def split: if_splits)

lemma join_bundle_new_Ok:
  "join_bundle_new P root m rv t = Ok b \<Longrightarrow>
     verify_membership P m (root_verifying_key P root) = Ok () \<and> verify_revocations P rv (root_verifying_key P root) = Ok () \<and>
     mc_issued_at (sm_certificate m) \<le> t \<and> rl_issued_at (sr_list rv) \<le> t \<and>
     (\<exists>payload. bundle_payload P (root_verifying_key P root) m rv t (saturating_add t MAX_BUNDLE_LIFETIME_SECONDS) = Ok payload \<and>
       b = \<lparr>jb_root_verifying_key = root_verifying_key P root, jb_membership = m, jb_revocations = rv,
              jb_issued_at = t, jb_expires_at = saturating_add t MAX_BUNDLE_LIFETIME_SECONDS,
              jb_signature = be_bytes (root_sign_domain P root BUNDLE_DOMAIN payload)\<rparr>)"
  by (auto simp: join_bundle_new_def result_simps Let_def not_less split: if_splits)

lemma verify_for_pending_Ok:
  assumes "verify_for_pending P b pending now = Ok key"
  shows "key = jb_root_verifying_key b" "verify_membership P (jb_membership b) key = Ok ()"
    "verify_revocations P (jb_revocations b) key = Ok ()" "now \<le> jb_expires_at b"
    "mc_device_verifying_key (sm_certificate (jb_membership b)) = device_verifying_key P (pi_device pending)"
    "mc_admission_nonce (sm_certificate (jb_membership b)) = pi_request_nonce pending"
    "mc_node_id (sm_certificate (jb_membership b)) \<notin> set (rl_revoked_nodes (sr_list (jb_revocations b)))"
    "\<exists>payload. bundle_payload P key (jb_membership b) (jb_revocations b) (jb_issued_at b) (jb_expires_at b) = Ok payload \<and>
       verify_domain P key BUNDLE_DOMAIN payload (be_word (jb_signature b))"
proof -
  show rv: "verify_revocations P (jb_revocations b) key = Ok ()" and "key = jb_root_verifying_key b"
    and "verify_membership P (jb_membership b) key = Ok ()" and "now \<le> jb_expires_at b"
    using assms by (auto simp: verify_for_pending_def result_simps Let_def not_less split: if_splits)
  show "mc_device_verifying_key (sm_certificate (jb_membership b)) = device_verifying_key P (pi_device pending)"
    "mc_admission_nonce (sm_certificate (jb_membership b)) = pi_request_nonce pending"
    "\<exists>payload. bundle_payload P key (jb_membership b) (jb_revocations b) (jb_issued_at b) (jb_expires_at b) = Ok payload \<and>
       verify_domain P key BUNDLE_DOMAIN payload (be_word (jb_signature b))"
    using assms by (auto simp: verify_for_pending_def result_simps Let_def try_array_def split: if_splits)
  have "\<not> revocation_contains (jb_revocations b) (mc_node_id (sm_certificate (jb_membership b)))"
    using assms by (auto simp: verify_for_pending_def result_simps Let_def split: if_splits)
  then show "mc_node_id (sm_certificate (jb_membership b)) \<notin> set (rl_revoked_nodes (sr_list (jb_revocations b)))"
    using rv revocation_contains_iff by (simp add: verify_revocations_Ok revocation_wf_def)
qed

context minicbor
begin

lemma invitation_read_fixed_enc [simp]:
  "invitation_read_fixed P (enc_bytes P (be_bytes (w :: bytes32)) @ r) = Ok (w, r)"
  by (simp add: invitation_read_fixed_def)

lemma read_signature_enc [simp]: "read_signature P (enc_bytes P (be_bytes (w :: bytes64))) = Ok (w, [])"
  by (simp add: read_signature_def)

lemma encode_join_request_ok: "\<exists>bs. encode_join_request P r = Ok bs \<and> length bs \<le> 138"
  using length_enc_array(1) [of REQUEST_FIELDS] length_enc_u16 [of REQUEST_VERSION]
    length_enc_bytes32 [of "jr_device_verifying_key r"] length_enc_bytes32 [of "jr_nonce r"]
    length_enc_bytes64 [of "jr_signature r"]
  by (simp add: encode_join_request_def Let_def MAX_JOIN_REQUEST_BYTES_def REQUEST_FIELDS_def)

lemma decode_encode_join_request:
  assumes "request_wf P r" and "encode_join_request P r = Ok bs"
  shows "decode_join_request P bs = Ok r"
proof -
  have "bs = enc_array P REQUEST_FIELDS @ enc_u16 P REQUEST_VERSION @ enc_bytes P (be_bytes (jr_device_verifying_key r)) @
      enc_bytes P (be_bytes (jr_nonce r)) @ enc_bytes P (be_bytes (jr_signature r))" "length bs \<le> MAX_JOIN_REQUEST_BYTES"
    using assms(2) by (auto simp: encode_join_request_def Let_def split: if_splits)
  then show ?thesis
    using assms by (auto simp: decode_join_request_def invitation_require_array_def ensure_finished_def request_wf_def
        is_ok_iff cbor_simps Let_def)
qed

lemma encode_join_bundle_ok:
  assumes "bundle_wf P b" and "length (jb_signature b) = 64"
  shows "\<exists>bs. encode_join_bundle P b = Ok bs \<and> length bs \<le> 9300"
proof -
  obtain m where m: "encode_signed_membership P (jb_membership b) = Ok m" "length m \<le> 250"
    using encode_signed_membership_ok assms(1) by (auto simp: bundle_wf_def membership_wf_def)
  obtain r where r: "encode_signed_revocations P (jb_revocations b) = Ok r" "length r \<le> 8900"
    using encode_signed_revocations_ok assms(1) by (auto simp: bundle_wf_def)
  show ?thesis
    using m r assms(2) length_enc_array(1) [of BUNDLE_FIELDS] length_enc_u16 [of BUNDLE_VERSION]
      length_enc_bytes32 [of "jb_root_verifying_key b"] length_enc_bytes_u8 [of m] length_enc_bytes_u16 [of r]
      length_enc_u64 [of "jb_issued_at b"] length_enc_u64 [of "jb_expires_at b"] length_enc_bytes_u8 [of "jb_signature b"]
    by (simp add: encode_join_bundle_def Let_def MAX_JOIN_BUNDLE_BYTES_def BUNDLE_FIELDS_def)
qed

lemma decode_encode_join_bundle:
  assumes "bundle_wf P b" and "encode_join_bundle P b = Ok bs"
  shows "decode_join_bundle P bs = Ok b"
proof -
  obtain m where m: "encode_signed_membership P (jb_membership b) = Ok m" "length m \<le> 250"
    using encode_signed_membership_ok assms(1) by (auto simp: bundle_wf_def membership_wf_def)
  obtain r where r: "encode_signed_revocations P (jb_revocations b) = Ok r" "length r \<le> 8900"
    using encode_signed_revocations_ok assms(1) by (auto simp: bundle_wf_def)
  have bs: "bs = enc_array P BUNDLE_FIELDS @ enc_u16 P BUNDLE_VERSION @ enc_bytes P (be_bytes (jb_root_verifying_key b)) @
      enc_bytes P m @ enc_bytes P r @ enc_u64 P (jb_issued_at b) @ enc_u64 P (jb_expires_at b) @ enc_bytes P (jb_signature b)"
    "length bs \<le> MAX_JOIN_BUNDLE_BYTES"
    using assms(2) m r by (auto simp: encode_join_bundle_def Let_def split: if_splits)
  have "decode_signed_membership P m = Ok (jb_membership b)" "decode_signed_revocations P r = Ok (jb_revocations b)"
    using assms(1) m(1) r(1)
    by (auto simp: bundle_wf_def intro: decode_encode_signed_membership decode_encode_signed_revocations)
  moreover have "length (jb_signature b) < 2 ^ 64"
    using bs length_enc_bytes_ge [of "jb_signature b"] by (simp add: MAX_JOIN_BUNDLE_BYTES_def)
  ultimately show ?thesis
    using assms bs m(2) r(2)
    by (simp add: decode_join_bundle_def invitation_require_array_def ensure_finished_def cbor_simps Let_def)
qed

end

sublocale minicbor \<subseteq> request_codec: canonical_codec
  "encode_join_request P" "decode_join_request P" "request_wf P"
  by unfold_locales (blast dest: decode_encode_join_request decode_join_request_canonical)+

sublocale minicbor \<subseteq> bundle_codec: canonical_codec
  "encode_join_bundle P" "decode_join_bundle P" "bundle_wf P"
  by unfold_locales (blast dest: decode_encode_join_bundle decode_join_bundle_canonical)+

lemma bundle_lifetime:
  assumes "t \<noteq> - 1"
  shows "t < saturating_add t MAX_BUNDLE_LIFETIME_SECONDS"
    "saturating_sub (saturating_add t MAX_BUNDLE_LIFETIME_SECONDS) t \<le> MAX_BUNDLE_LIFETIME_SECONDS"
proof -
  have "unat t \<noteq> 2 ^ 64 - 1"
    using assms by (auto simp: word_unat_eq_iff unsigned_minus_1_eq_mask mask_eq_exp_minus_1)
  then show "t < saturating_add t MAX_BUNDLE_LIFETIME_SECONDS"
    "saturating_sub (saturating_add t MAX_BUNDLE_LIFETIME_SECONDS) t \<le> MAX_BUNDLE_LIFETIME_SECONDS"
    using unat_less [of t]
    by (auto simp: word_less_nat_alt word_le_nat_alt unat_saturating_add unat_saturating_sub
        MAX_BUNDLE_LIFETIME_SECONDS_def)
qed

context ed25519
begin

lemma create_join_request_wf: "request_wf P (create_join_request P pending)"
  by (simp add: request_wf_def verify_join_request_def create_join_request_def Let_def device_key_valid
      device_signature_verifies)

lemma join_bundle_accepted:
  assumes new: "join_bundle_new P root m rv t = Ok b" and "t \<noteq> - 1"
    and key: "mc_device_verifying_key (sm_certificate m) = device_verifying_key P (pi_device pending)"
    and nonce: "mc_admission_nonce (sm_certificate m) = pi_request_nonce pending"
    and live: "mc_node_id (sm_certificate m) \<notin> set (rl_revoked_nodes (sr_list rv))"
    and now: "now \<le> jb_expires_at b"
  shows "verify_for_pending P b pending now = Ok (root_verifying_key P root)"
proof -
  note made = join_bundle_new_Ok [OF new]
  have "\<not> revocation_contains rv (mc_node_id (sm_certificate m))"
    using made live revocation_contains_iff by (auto simp: verify_revocations_Ok revocation_wf_def)
  then show ?thesis
    using made now bundle_lifetime [OF assms(2)]
    by (auto simp: verify_for_pending_def root_key_valid root_signature_verifies key nonce not_le not_less Let_def)
qed

end

end
