(* ===== verification/Candidate.thy ===== *)
theory Candidate
  imports Prelude "HOL-Library.Product_Lexorder"
begin

text \<open>
  Endpoint candidates (\<^verbatim>\<open>candidate.rs\<close>): socket addresses with a provenance, accepted only when the
  address is dialable and its scope fits the provenance. The address predicates of the standard
  library are written out over the octets.
\<close>

section \<open>Addresses\<close>

datatype IpAddr = V4 bytes4 | V6 bytes16

datatype SocketAddr =
    SocketV4 (v4_ip: bytes4) (v4_port: u16)
  | SocketV6 (v6_ip: bytes16) (v6_port: u16) (v6_flowinfo: u32) (v6_scope_id: u32)

fun socket_ip :: "SocketAddr \<Rightarrow> IpAddr" where
  "socket_ip (SocketV4 ip _) = V4 ip"
| "socket_ip (SocketV6 ip _ _ _) = V6 ip"

fun socket_port :: "SocketAddr \<Rightarrow> u16" where
  "socket_port (SocketV4 _ port) = port"
| "socket_port (SocketV6 _ port _ _) = port"

text \<open>\<^verbatim>\<open>SocketAddr::new\<close>\<close>

fun socket_new :: "IpAddr \<Rightarrow> u16 \<Rightarrow> SocketAddr" where
  "socket_new (V4 ip) port = SocketV4 ip port"
| "socket_new (V6 ip) port = SocketV6 ip port 0 0"

abbreviation octets :: "'a::len word \<Rightarrow> u8 list" where
  "octets a \<equiv> be_bytes a"

definition to_ipv4_mapped :: "bytes16 \<Rightarrow> bytes4 option" where
  "to_ipv4_mapped ip = (if drop_bit 32 ip = 0xFFFF then Some (ucast ip) else None)"

fun is_unspecified :: "IpAddr \<Rightarrow> bool" where
  "is_unspecified (V4 ip) = (ip = 0)"
| "is_unspecified (V6 ip) = (ip = 0)"

fun is_multicast :: "IpAddr \<Rightarrow> bool" where
  "is_multicast (V4 ip) = (224 \<le> octets ip ! 0 \<and> octets ip ! 0 \<le> 239)"
| "is_multicast (V6 ip) = (octets ip ! 0 = 0xFF)"

definition v4_is_broadcast :: "bytes4 \<Rightarrow> bool" where
  "v4_is_broadcast ip = (ip = 0xFFFFFFFF)"

definition v4_is_loopback :: "bytes4 \<Rightarrow> bool" where
  "v4_is_loopback ip = (octets ip ! 0 = 127)"

definition v4_is_link_local :: "bytes4 \<Rightarrow> bool" where
  "v4_is_link_local ip = (octets ip ! 0 = 169 \<and> octets ip ! 1 = 254)"

definition v4_is_private :: "bytes4 \<Rightarrow> bool" where
  "v4_is_private ip =
     (octets ip ! 0 = 10 \<or> octets ip ! 0 = 172 \<and> and (octets ip ! 1) 0xF0 = 16 \<or>
      octets ip ! 0 = 192 \<and> octets ip ! 1 = 168)"

definition v4_is_documentation :: "bytes4 \<Rightarrow> bool" where
  "v4_is_documentation ip =
     (octets ip ! 0 = 192 \<and> octets ip ! 1 = 0 \<and> octets ip ! 2 = 2 \<or>
      octets ip ! 0 = 198 \<and> octets ip ! 1 = 51 \<and> octets ip ! 2 = 100 \<or>
      octets ip ! 0 = 203 \<and> octets ip ! 1 = 0 \<and> octets ip ! 2 = 113)"

definition v6_is_loopback :: "bytes16 \<Rightarrow> bool" where
  "v6_is_loopback ip = (ip = 1)"

definition v6_is_unicast_link_local :: "bytes16 \<Rightarrow> bool" where
  "v6_is_unicast_link_local ip = (octets ip ! 0 = 0xFE \<and> and (octets ip ! 1) 0xC0 = 0x80)"

section \<open>Candidates\<close>

datatype CandidateKind = Local | Direct | Reflexive | Mapped | OwnedRelay

datatype CandidateTransport = QuicV1

datatype CandidateError =
    UnknownKind
  | UnknownTransport
  | ZeroPort
  | Unspecified
  | MulticastOrBroadcast
  | LocalScopeMismatch
  | NonGlobalScope
  | GlobalMarkedLocal

definition MAX_CANDIDATES :: nat where "MAX_CANDIDATES = 8"

fun kind_code :: "CandidateKind \<Rightarrow> u8" where
  "kind_code Local = 0"
| "kind_code Direct = 1"
| "kind_code Reflexive = 2"
| "kind_code Mapped = 3"
| "kind_code OwnedRelay = 4"

definition kind_try_from :: "u8 \<Rightarrow> CandidateError + CandidateKind" where
  "kind_try_from v =
     (if v = 0 then Ok Local else if v = 1 then Ok Direct else if v = 2 then Ok Reflexive
      else if v = 3 then Ok Mapped else if v = 4 then Ok OwnedRelay else Err UnknownKind)"

fun transport_code :: "CandidateTransport \<Rightarrow> u8" where
  "transport_code QuicV1 = 0"

definition transport_try_from :: "u8 \<Rightarrow> CandidateError + CandidateTransport" where
  "transport_try_from v = (if v = 0 then Ok QuicV1 else Err UnknownTransport)"

datatype EndpointCandidate =
  EndpointCandidate (ec_kind: CandidateKind) (ec_transport: CandidateTransport) (ec_address: SocketAddr)

fun canonical_socket_address :: "SocketAddr \<Rightarrow> SocketAddr" where
  "canonical_socket_address (SocketV6 ip port flow scope) =
     (case to_ipv4_mapped ip of
        Some ipv4 \<Rightarrow> socket_new (V4 ipv4) port
      | None \<Rightarrow> SocketV6 ip port flow scope)"
| "canonical_socket_address (SocketV4 ip port) = SocketV4 ip port"

definition is_multicast_or_broadcast :: "IpAddr \<Rightarrow> bool" where
  "is_multicast_or_broadcast ip \<longleftrightarrow> is_multicast ip \<or> (case ip of V4 v \<Rightarrow> v4_is_broadcast v | V6 _ \<Rightarrow> False)"

fun is_local_scope :: "IpAddr \<Rightarrow> bool" where
  "is_local_scope (V4 ip) \<longleftrightarrow> v4_is_loopback ip \<or> v4_is_link_local ip"
| "is_local_scope (V6 ip) \<longleftrightarrow> v6_is_loopback ip \<or> v6_is_unicast_link_local ip"

fun is_globally_routable :: "IpAddr \<Rightarrow> bool" where
  "is_globally_routable (V4 ip) =
     (let first = octets ip ! 0; second = octets ip ! 1; third = octets ip ! 2;
          shared = (first = 100 \<and> 64 \<le> second \<and> second \<le> 127);
          protocol_assignment = (first = 192 \<and> second = 0 \<and> third = 0);
          deprecated_relay = (first = 192 \<and> second = 88 \<and> third = 99);
          benchmarking = (first = 198 \<and> (second = 18 \<or> second = 19))
      in first \<noteq> 0 \<and> first < 224 \<and> \<not> v4_is_private ip \<and> \<not> v4_is_loopback ip \<and> \<not> v4_is_link_local ip \<and>
         \<not> v4_is_documentation ip \<and> \<not> shared \<and> \<not> protocol_assignment \<and> \<not> deprecated_relay \<and> \<not> benchmarking)"
| "is_globally_routable (V6 ip) =
     (let first = octets ip ! 0; second = octets ip ! 1; third = octets ip ! 2; fourth = octets ip ! 3;
          global_unicast = (and first 0xE0 = 0x20);
          documentation = (first = 0x20 \<and> second = 0x01 \<and> third = 0x0D \<and> fourth = 0xB8)
      in global_unicast \<and> \<not> documentation)"

definition validate_address :: "CandidateKind \<Rightarrow> SocketAddr \<Rightarrow> CandidateError + unit" where
  "validate_address kind address =
     (if socket_port address = 0 then Err ZeroPort
      else let ip = socket_ip address in
        if is_unspecified ip then Err Unspecified
        else if is_multicast_or_broadcast ip then Err MulticastOrBroadcast
        else if is_local_scope ip \<and> kind \<noteq> Local then Err LocalScopeMismatch
        else if kind = Local \<and> is_globally_routable ip then Err GlobalMarkedLocal
        else if kind \<noteq> Local \<and> \<not> is_globally_routable ip then Err NonGlobalScope
        else Ok ())"

definition candidate_new ::
  "CandidateKind \<Rightarrow> CandidateTransport \<Rightarrow> SocketAddr \<Rightarrow> CandidateError + EndpointCandidate" where
  "candidate_new kind transport address =
     (let address = canonical_socket_address address in
      rbind (validate_address kind address) (\<lambda>_. Ok (EndpointCandidate kind transport address)))"

section \<open>The derived order\<close>

text \<open>\<^verbatim>\<open>#[derive(Ord)]\<close>: variants in the order of declaration, then fields from left to right.\<close>

fun socket_key :: "SocketAddr \<Rightarrow> nat \<times> nat \<times> nat \<times> nat \<times> nat" where
  "socket_key (SocketV4 ip port) = (0, unat ip, unat port, 0, 0)"
| "socket_key (SocketV6 ip port flow scope) = (1, unat ip, unat port, unat flow, unat scope)"

definition candidate_key :: "EndpointCandidate \<Rightarrow> nat \<times> nat \<times> nat \<times> nat \<times> nat \<times> nat \<times> nat" where
  "candidate_key c = (unat (kind_code (ec_kind c)), unat (transport_code (ec_transport c)), socket_key (ec_address c))"

lemma socket_key_inject: "socket_key a = socket_key b \<Longrightarrow> a = b"
  by (cases a; cases b) (simp_all add: word_unat_eq_iff)

lemma kind_code_inject: "kind_code a = kind_code b \<Longrightarrow> a = b"
  by (cases a; cases b) simp_all

lemma candidate_key_inject: "candidate_key a = candidate_key b \<Longrightarrow> a = b"
proof (cases a; cases b)
  fix k t s k' t' s'
  assume "candidate_key a = candidate_key b" "a = EndpointCandidate k t s" "b = EndpointCandidate k' t' s'"
  then show "a = b"
    using socket_key_inject [of s s'] kind_code_inject [of k k'] by (cases t; cases t') (simp add: candidate_key_def word_unat_eq_iff)
qed

instantiation EndpointCandidate :: linorder
begin

definition less_eq_EndpointCandidate :: "EndpointCandidate \<Rightarrow> EndpointCandidate \<Rightarrow> bool" where
  "less_eq_EndpointCandidate a b = (candidate_key a \<le> candidate_key b)"

definition less_EndpointCandidate :: "EndpointCandidate \<Rightarrow> EndpointCandidate \<Rightarrow> bool" where
  "less_EndpointCandidate a b = (candidate_key a < candidate_key b)"

instance
  by standard (auto simp: less_eq_EndpointCandidate_def less_EndpointCandidate_def intro: candidate_key_inject)

end

section \<open>Lemmas\<close>

lemma kind_try_from_code [simp]: "kind_try_from (kind_code k) = Ok k"
  by (cases k) (simp_all add: kind_try_from_def)

lemma transport_try_from_code [simp]: "transport_try_from (transport_code t) = Ok t"
  by (cases t) (simp add: transport_try_from_def)

lemma canonical_canonical [simp]:
  "canonical_socket_address (canonical_socket_address a) = canonical_socket_address a"
  by (cases a) (simp_all split: option.splits)

definition candidate_ok :: "EndpointCandidate \<Rightarrow> bool" where
  "candidate_ok c \<longleftrightarrow> candidate_new (ec_kind c) (ec_transport c) (ec_address c) = Ok c"

lemma candidate_new_ok: "candidate_new k t a = Ok c \<Longrightarrow> candidate_ok c \<and> ec_kind c = k \<and> ec_transport c = t"
  by (auto simp: candidate_new_def candidate_ok_def result_simps Let_def)

lemma validate_address_Ok:
  "validate_address k a = Ok () \<longleftrightarrow>
     socket_port a \<noteq> 0 \<and> \<not> is_unspecified (socket_ip a) \<and> \<not> is_multicast_or_broadcast (socket_ip a) \<and>
     (is_local_scope (socket_ip a) \<longrightarrow> k = Local) \<and> (k = Local \<longleftrightarrow> \<not> is_globally_routable (socket_ip a))"
  by (auto simp: validate_address_def Let_def split: if_splits)

text \<open>The predicates agree: a globally routable address is unicast, specified and of no local scope.\<close>

lemma be_nat_first: "be_nat (Suc k) n ! 0 = of_nat (n div 256 ^ k)"
proof (induction k arbitrary: n)
  case (Suc k)
  have "be_nat (Suc (Suc k)) n ! 0 = be_nat (Suc k) (n div 256) ! 0" by (simp add: nth_append)
  then show ?case using Suc [of "n div 256"] by (simp add: div_mult2_eq)
qed simp

lemma first_octet_v4: "octets (w :: bytes4) ! 0 = of_nat (unat w div 16777216)"
  using be_nat_first [of 3 "unat w"] by (simp add: be_bytes_def)

lemma first_octet_v6: "octets (w :: bytes16) ! 0 = of_nat (unat w div 2 ^ 120)"
  using be_nat_first [of 15 "unat w"] by (simp add: be_bytes_def)

lemma routable_unicast:
  assumes "is_globally_routable ip"
  shows "\<not> is_unspecified ip" "\<not> is_multicast_or_broadcast ip" "\<not> is_local_scope ip"
proof -
  show "\<not> is_unspecified ip"
    using assms by (cases ip) (auto simp: first_octet_v4 first_octet_v6 Let_def)
  show "\<not> is_multicast_or_broadcast ip"
  proof (cases ip)
    case (V4 a)
    then have "octets a ! 0 < 224" using assms by (simp add: Let_def)
    moreover have "octets (0xFFFFFFFF :: bytes4) ! 0 = 255"
      by (simp add: first_octet_v4)
    ultimately show ?thesis using V4 by (auto simp: is_multicast_or_broadcast_def v4_is_broadcast_def)
  next
    case (V6 a)
    then have "octets a ! 0 \<noteq> 0xFF" using assms by (auto simp: Let_def)
    then show ?thesis using V6 by (simp add: is_multicast_or_broadcast_def)
  qed
  show "\<not> is_local_scope ip"
    using assms by (cases ip) (auto simp: v6_is_loopback_def v6_is_unicast_link_local_def first_octet_v6 Let_def)
qed

end
