(* ===== verification/Endpoint.thy ===== *)
theory Endpoint
  imports Membership Candidate "HOL-Library.List_Lexorder"
begin

text \<open>
  The contents of endpoint records (\<^verbatim>\<open>record.rs\<close>, and the display names of \<^verbatim>\<open>profile.rs\<close>): names,
  service advertisements, capabilities, the record itself and its checks that need no key.
\<close>

section \<open>Names\<close>

datatype ProfileError = InvalidName

datatype PeerName = PeerName (peer_name_str: string)

definition MAX_PEER_NAME_BYTES :: nat where "MAX_PEER_NAME_BYTES = 63"

definition is_ascii_lowercase :: "char \<Rightarrow> bool" where
  "is_ascii_lowercase c \<longleftrightarrow> 97 \<le> (of_char c :: nat) \<and> (of_char c :: nat) \<le> 122"
definition is_ascii_uppercase :: "char \<Rightarrow> bool" where
  "is_ascii_uppercase c \<longleftrightarrow> 65 \<le> (of_char c :: nat) \<and> (of_char c :: nat) \<le> 90"
definition is_ascii_digit :: "char \<Rightarrow> bool" where
  "is_ascii_digit c \<longleftrightarrow> 48 \<le> (of_char c :: nat) \<and> (of_char c :: nat) \<le> 57"

definition is_name_byte :: "char \<Rightarrow> bool" where
  "is_name_byte c \<longleftrightarrow> is_ascii_lowercase c \<or> is_ascii_uppercase c \<or> is_ascii_digit c \<or>
     c \<in> {CHR '' '', CHR ''.'', CHR ''_'', CHR ''-''}"

text \<open>\<^verbatim>\<open>str::trim\<close> over the white space of ASCII.\<close>

definition is_whitespace :: "char \<Rightarrow> bool" where
  "is_whitespace c \<longleftrightarrow> (of_char c :: nat) \<in> {9, 10, 11, 12, 13, 32}"

definition trim :: "string \<Rightarrow> string" where
  "trim s = rev (dropWhile is_whitespace (rev (dropWhile is_whitespace s)))"

definition peer_name_new :: "string \<Rightarrow> ProfileError + PeerName" where
  "peer_name_new value =
     (if value = [] \<or> length value > MAX_PEER_NAME_BYTES \<or> trim value \<noteq> value \<or> \<not> list_all is_name_byte value
      then Err InvalidName else Ok (PeerName value))"

section \<open>Errors\<close>

datatype RecordError =
    UnsupportedVersion
  | InvalidServiceName
  | InvalidServicePort
  | InvalidKeyPin
  | ServicesNotSupported
  | TooManyServices
  | ServicesNotCanonical
  | InvalidDisplayName
  | ZeroSequence
  | InvalidLifetime
  | LifetimeTooLong
  | TooManyCandidates
  | CandidatesNotCanonical
  | UnknownCapability
  | Expired
  | IssuedInFuture
  | SignerMismatch
  | InvalidSignature
  | Encoding
  | Membership
  | MembershipMismatch
  | OutlivesMembership
  | UnauthorizedCapability

section \<open>Service advertisements\<close>

datatype ServiceName = ServiceName (service_name_str: string)

definition ENDPOINT_RECORD_VERSION_V1 :: u16 where "ENDPOINT_RECORD_VERSION_V1 = 1"
definition ENDPOINT_RECORD_VERSION_V2 :: u16 where "ENDPOINT_RECORD_VERSION_V2 = 2"
definition ENDPOINT_RECORD_VERSION :: u16 where "ENDPOINT_RECORD_VERSION = 3"
definition MAX_SERVICE_ADVERTS :: nat where "MAX_SERVICE_ADVERTS = 4"
definition MAX_SERVICE_NAME_BYTES :: nat where "MAX_SERVICE_NAME_BYTES = 16"
definition MAX_RECORD_LIFETIME_SECONDS :: u64 where "MAX_RECORD_LIFETIME_SECONDS = 7 * 24 * 60 * 60"
definition MAX_FUTURE_SKEW_SECONDS :: u64 where "MAX_FUTURE_SKEW_SECONDS = 5 * 60"

definition service_name_new :: "string \<Rightarrow> RecordError + ServiceName" where
  "service_name_new value =
     (let portable = (\<lambda>c. is_ascii_lowercase c \<or> is_ascii_digit c \<or> c = CHR ''-'') in
      if value = [] \<or> length value > MAX_SERVICE_NAME_BYTES \<or> hd value = CHR ''-'' \<or> \<not> list_all portable value
      then Err InvalidServiceName else Ok (ServiceName value))"

datatype ServiceAdvert = ServiceAdvert (sa_name: ServiceName) (sa_port: u16) (sa_key_pin: bytes32)

definition service_validate :: "ServiceAdvert \<Rightarrow> RecordError + unit" where
  "service_validate s = (if sa_port s = 0 then Err InvalidServicePort else Ok ())"

text \<open>Names are compared as their bytes, advertisements field by field.\<close>

definition name_key :: "ServiceName \<Rightarrow> nat list" where
  "name_key n = map of_char (service_name_str n)"

definition advert_key :: "ServiceAdvert \<Rightarrow> nat list \<times> nat \<times> nat" where
  "advert_key s = (name_key (sa_name s), unat (sa_port s), unat (sa_key_pin s))"

lemma name_key_inject: "name_key a = name_key b \<Longrightarrow> a = b"
  by (cases a; cases b) (simp add: name_key_def inj_map_eq_map [OF inj_of_char])

lemma advert_key_inject: "advert_key a = advert_key b \<Longrightarrow> a = b"
  by (cases a; cases b) (auto simp: advert_key_def word_unat_eq_iff dest: name_key_inject)

instantiation ServiceName :: linorder
begin

definition less_eq_ServiceName :: "ServiceName \<Rightarrow> ServiceName \<Rightarrow> bool" where
  "less_eq_ServiceName a b = (name_key a \<le> name_key b)"

definition less_ServiceName :: "ServiceName \<Rightarrow> ServiceName \<Rightarrow> bool" where
  "less_ServiceName a b = (name_key a < name_key b)"

instance
  by standard (auto simp: less_eq_ServiceName_def less_ServiceName_def intro: name_key_inject)

end

instantiation ServiceAdvert :: linorder
begin

definition less_eq_ServiceAdvert :: "ServiceAdvert \<Rightarrow> ServiceAdvert \<Rightarrow> bool" where
  "less_eq_ServiceAdvert a b = (advert_key a \<le> advert_key b)"

definition less_ServiceAdvert :: "ServiceAdvert \<Rightarrow> ServiceAdvert \<Rightarrow> bool" where
  "less_ServiceAdvert a b = (advert_key a < advert_key b)"

instance
  by standard (auto simp: less_eq_ServiceAdvert_def less_ServiceAdvert_def intro: advert_key_inject)

end

fun try_for_each :: "('a \<Rightarrow> 'e + unit) \<Rightarrow> 'a list \<Rightarrow> 'e + unit" where
  "try_for_each f [] = Ok ()"
| "try_for_each f (x # xs) = rbind (f x) (\<lambda>_. try_for_each f xs)"

definition validate_services :: "ServiceAdvert list \<Rightarrow> RecordError + unit" where
  "validate_services services =
     (if length services > MAX_SERVICE_ADVERTS then Err TooManyServices
      else if \<not> strictly_sorted (map sa_name services) then Err ServicesNotCanonical
      else try_for_each service_validate services)"

section \<open>Capabilities\<close>

datatype Capabilities = Capabilities (capability_bits: u64)

definition CAPABILITIES_NONE :: Capabilities where "CAPABILITIES_NONE = Capabilities 0"
definition CAPABILITY_INTRODUCER :: Capabilities where "CAPABILITY_INTRODUCER = Capabilities 1"
definition CAPABILITY_CONTROL_RELAY :: Capabilities where "CAPABILITY_CONTROL_RELAY = Capabilities 2"
definition CAPABILITY_KNOWN_BITS :: u64 where
  "CAPABILITY_KNOWN_BITS = or (capability_bits CAPABILITY_INTRODUCER) (capability_bits CAPABILITY_CONTROL_RELAY)"

definition capabilities_from_bits :: "u64 \<Rightarrow> RecordError + Capabilities" where
  "capabilities_from_bits bits =
     (if and bits (not CAPABILITY_KNOWN_BITS) = 0 then Ok (Capabilities bits) else Err UnknownCapability)"

definition capabilities_contains :: "Capabilities \<Rightarrow> Capabilities \<Rightarrow> bool" where
  "capabilities_contains a b \<longleftrightarrow> and (capability_bits a) (capability_bits b) = capability_bits b"

definition capabilities_or :: "Capabilities \<Rightarrow> Capabilities \<Rightarrow> Capabilities" where
  "capabilities_or a b = Capabilities (or (capability_bits a) (capability_bits b))"

section \<open>Records\<close>

record EndpointClaims =
  cm_candidates :: "EndpointCandidate list"
  cm_capabilities :: Capabilities
  cm_services :: "ServiceAdvert list"

record EndpointRecord =
  er_protocol_version :: u16
  er_hive_id :: HiveId
  er_node_id :: NodeId
  er_display_name :: "PeerName option"
  er_transport_key_id :: TransportKeyId
  er_generation :: u64
  er_sequence :: u64
  er_issued_at :: u64
  er_expires_at :: u64
  er_candidates :: "EndpointCandidate list"
  er_capabilities :: Capabilities
  er_services :: "ServiceAdvert list"

record SignedEndpointRecord =
  se_record :: EndpointRecord
  se_signature :: bytes

definition endpoint_validate_shape :: "EndpointRecord \<Rightarrow> RecordError + unit" where
  "endpoint_validate_shape r =
     (if er_protocol_version r \<notin> {ENDPOINT_RECORD_VERSION_V1, ENDPOINT_RECORD_VERSION_V2, ENDPOINT_RECORD_VERSION}
      then Err RecordError.UnsupportedVersion
      else if (er_protocol_version r = ENDPOINT_RECORD_VERSION_V1) \<noteq> (er_display_name r = None)
      then Err InvalidDisplayName
      else if er_protocol_version r < ENDPOINT_RECORD_VERSION \<and> er_services r \<noteq> [] then Err ServicesNotSupported
      else rbind (validate_services (er_services r)) (\<lambda>_.
        if er_sequence r = 0 then Err ZeroSequence
        else if er_expires_at r \<le> er_issued_at r then Err RecordError.InvalidLifetime
        else if saturating_sub (er_expires_at r) (er_issued_at r) > MAX_RECORD_LIFETIME_SECONDS
        then Err RecordError.LifetimeTooLong
        else if length (er_candidates r) > MAX_CANDIDATES then Err TooManyCandidates
        else if \<not> strictly_sorted (er_candidates r) then Err CandidatesNotCanonical
        else rbind (capabilities_from_bits (capability_bits (er_capabilities r))) (\<lambda>_. Ok ())))"

definition endpoint_validate_time :: "EndpointRecord \<Rightarrow> u64 \<Rightarrow> RecordError + unit" where
  "endpoint_validate_time r now =
     (if er_expires_at r < now then Err RecordError.Expired
      else if er_issued_at r > saturating_add now MAX_FUTURE_SKEW_SECONDS then Err RecordError.IssuedInFuture
      else Ok ())"

definition canonicalize_candidates :: "EndpointRecord \<Rightarrow> EndpointRecord" where
  "canonicalize_candidates r =
     r\<lparr>er_candidates := sort_dedup (er_candidates r), er_services := sort_dedup (er_services r)\<rparr>"

section \<open>Lemmas\<close>

lemma is_ascii_name: "peer_name_new s = Ok n \<Longrightarrow> is_ascii s \<and> n = PeerName s \<and> length s \<le> 63"
  by (auto simp: peer_name_new_def is_ascii_def list_all_iff is_name_byte_def is_ascii_lowercase_def
      is_ascii_uppercase_def is_ascii_digit_def MAX_PEER_NAME_BYTES_def split: if_splits)

lemma is_ascii_service: "service_name_new s = Ok n \<Longrightarrow> is_ascii s \<and> n = ServiceName s \<and> length s \<le> 16"
  by (auto simp: service_name_new_def is_ascii_def list_all_iff is_ascii_lowercase_def
      is_ascii_digit_def MAX_SERVICE_NAME_BYTES_def Let_def split: if_splits)

lemma try_for_each_Ok: "try_for_each f xs = Ok () \<longleftrightarrow> (\<forall>x \<in> set xs. f x = Ok ())"
  by (induction xs) (auto simp: result_simps)

lemma canonicalize_idem: "canonicalize_candidates (canonicalize_candidates r) = canonicalize_candidates r"
  by (simp add: canonicalize_candidates_def sort_dedup_id strictly_sorted_sort_dedup)

end
