(* ===== verification/Wire.thy ===== *)
theory Wire
  imports Endpoint
begin

text \<open>
  The CBOR encoding of endpoint records (\<^verbatim>\<open>wire.rs\<close>): three record versions, candidates and service
  advertisements, and the signed envelope.
\<close>

section \<open>Encoding\<close>

datatype WireError =
    Oversized
  | Encode
  | Decode
  | WrongFieldCount
  | IntegerRange
  | AddressLength
  | Candidate CandidateError
  | Capability
  | EnvelopeVersion
  | RecordVersion
  | DisplayName
  | Service
  | SignatureLength
  | NonCanonical
  | TrailingData

definition MAX_ENDPOINT_RECORD_BYTES :: nat where "MAX_ENDPOINT_RECORD_BYTES = 3584"
definition MAX_SIGNED_ENDPOINT_RECORD_BYTES :: nat where "MAX_SIGNED_ENDPOINT_RECORD_BYTES = 4096"
definition WIRE_ENVELOPE_VERSION :: u16 where "WIRE_ENVELOPE_VERSION = 1"
definition RECORD_FIELDS_V1 :: u64 where "RECORD_FIELDS_V1 = 10"
definition RECORD_FIELDS_V2 :: u64 where "RECORD_FIELDS_V2 = 11"
definition RECORD_FIELDS_V3 :: u64 where "RECORD_FIELDS_V3 = 12"
definition SERVICE_FIELDS :: u64 where "SERVICE_FIELDS = 3"
definition CANDIDATE_FIELDS :: u64 where "CANDIDATE_FIELDS = 4"

definition encode_candidate :: "prims \<Rightarrow> EndpointCandidate \<Rightarrow> bytes" where
  "encode_candidate P c =
     enc_array P CANDIDATE_FIELDS @
     enc_u8 P (kind_code (ec_kind c)) @
     enc_u8 P (transport_code (ec_transport c)) @
     (case socket_ip (ec_address c) of
        V4 ip \<Rightarrow> enc_bytes P (be_bytes ip)
      | V6 ip \<Rightarrow> enc_bytes P (be_bytes ip)) @
     enc_u16 P (socket_port (ec_address c))"

definition encode_service :: "prims \<Rightarrow> ServiceAdvert \<Rightarrow> bytes" where
  "encode_service P s =
     enc_array P SERVICE_FIELDS @
     enc_str P (service_name_str (sa_name s)) @
     enc_u16 P (sa_port s) @
     enc_bytes P (be_bytes (sa_key_pin s))"

definition record_fields :: "EndpointRecord \<Rightarrow> WireError + u64" where
  "record_fields r =
     (if er_protocol_version r = ENDPOINT_RECORD_VERSION_V1 \<and> er_display_name r = None then Ok RECORD_FIELDS_V1
      else if er_protocol_version r = ENDPOINT_RECORD_VERSION_V2 \<and> er_display_name r \<noteq> None then Ok RECORD_FIELDS_V2
      else if er_protocol_version r = ENDPOINT_RECORD_VERSION \<and> er_display_name r \<noteq> None then Ok RECORD_FIELDS_V3
      else Err RecordVersion)"

definition encode_endpoint_record :: "prims \<Rightarrow> EndpointRecord \<Rightarrow> WireError + bytes" where
  "encode_endpoint_record P r =
     rbind (record_fields r) (\<lambda>field_count.
       let output =
         enc_array P field_count @
         enc_u16 P (er_protocol_version r) @
         enc_bytes P (be_bytes (hive_bytes (er_hive_id r))) @
         enc_bytes P (be_bytes (node_bytes (er_node_id r))) @
         (case er_display_name r of Some n \<Rightarrow> enc_str P (peer_name_str n) | None \<Rightarrow> []) @
         enc_bytes P (be_bytes (transport_key_bytes (er_transport_key_id r))) @
         enc_u64 P (er_generation r) @
         enc_u64 P (er_sequence r) @
         enc_u64 P (er_issued_at r) @
         enc_u64 P (er_expires_at r) @
         enc_array P (of_nat (length (er_candidates r))) @
         concat (map (encode_candidate P) (er_candidates r)) @
         enc_u64 P (capability_bits (er_capabilities r)) @
         (if field_count = RECORD_FIELDS_V3
          then enc_array P (of_nat (length (er_services r))) @ concat (map (encode_service P) (er_services r))
          else [])
       in if length output > MAX_ENDPOINT_RECORD_BYTES then Err Oversized else Ok output)"

section \<open>Decoding\<close>

definition wire_require_array :: "prims \<Rightarrow> u64 \<Rightarrow> bytes \<Rightarrow> WireError + bytes" where
  "wire_require_array P expected d =
     rbind (ok_or Decode (dec_array P d)) (\<lambda>(n, d). if n = Some expected then Ok d else Err WrongFieldCount)"

definition read_array_len :: "prims \<Rightarrow> bytes \<Rightarrow> WireError + (nat \<times> bytes)" where
  "read_array_len P d =
     rbind (ok_or Decode (dec_array P d)) (\<lambda>(n, d).
     rbind (ok_or WrongFieldCount n) (\<lambda>n. Ok (unat n, d)))"

definition wire_read_fixed :: "prims \<Rightarrow> bytes \<Rightarrow> WireError + (bytes32 \<times> bytes)" where
  "wire_read_fixed P d =
     rbind (ok_or Decode (dec_bytes P d)) (\<lambda>(bs, d).
     rbind (ok_or AddressLength (try_array bs)) (\<lambda>w. Ok (w, d)))"

definition decode_candidate :: "prims \<Rightarrow> bytes \<Rightarrow> WireError + (EndpointCandidate \<times> bytes)" where
  "decode_candidate P d =
     rbind (wire_require_array P CANDIDATE_FIELDS d) (\<lambda>d.
     rbind (ok_or Decode (dec_u8 P d)) (\<lambda>(kind, d).
     rbind (map_err Candidate (kind_try_from kind)) (\<lambda>kind.
     rbind (ok_or Decode (dec_u8 P d)) (\<lambda>(transport, d).
     rbind (map_err Candidate (transport_try_from transport)) (\<lambda>transport.
     rbind (ok_or Decode (dec_bytes P d)) (\<lambda>(address_bytes, d).
     rbind (if length address_bytes = 4
            then rbind (ok_or AddressLength (try_array address_bytes)) (\<lambda>ip. Ok (V4 ip))
            else if length address_bytes = 16
            then rbind (ok_or AddressLength (try_array address_bytes)) (\<lambda>ip. Ok (V6 ip))
            else Err AddressLength) (\<lambda>ip.
     rbind (ok_or Decode (dec_u16 P d)) (\<lambda>(port, d).
     rbind (map_err Candidate (candidate_new kind transport (socket_new ip port))) (\<lambda>c. Ok (c, d))))))))))"

definition decode_service :: "prims \<Rightarrow> bytes \<Rightarrow> WireError + (ServiceAdvert \<times> bytes)" where
  "decode_service P d =
     rbind (wire_require_array P SERVICE_FIELDS d) (\<lambda>d.
     rbind (ok_or Decode (dec_str P d)) (\<lambda>(name, d).
     rbind (map_err (\<lambda>_. Service) (service_name_new name)) (\<lambda>name.
     rbind (ok_or Decode (dec_u16 P d)) (\<lambda>(port, d).
     rbind (wire_read_fixed P d) (\<lambda>(key_pin, d).
     let service = ServiceAdvert name port key_pin in
     rbind (map_err (\<lambda>_. Service) (service_validate service)) (\<lambda>_. Ok (service, d)))))))"

definition display_name_present :: "u16 \<Rightarrow> u64 \<Rightarrow> WireError + bool" where
  "display_name_present protocol_version field_count =
     (if protocol_version = ENDPOINT_RECORD_VERSION_V1 \<and> field_count = RECORD_FIELDS_V1 then Ok False
      else if protocol_version = ENDPOINT_RECORD_VERSION_V2 \<and> field_count = RECORD_FIELDS_V2 then Ok True
      else if protocol_version = ENDPOINT_RECORD_VERSION \<and> field_count = RECORD_FIELDS_V3 then Ok True
      else if protocol_version \<in> {ENDPOINT_RECORD_VERSION_V1, ENDPOINT_RECORD_VERSION_V2, ENDPOINT_RECORD_VERSION}
      then Err WrongFieldCount else Err RecordVersion)"

definition decode_display_name :: "prims \<Rightarrow> bool \<Rightarrow> bytes \<Rightarrow> WireError + (PeerName option \<times> bytes)" where
  "decode_display_name P present d =
     (if present then
        rbind (ok_or Decode (dec_str P d)) (\<lambda>(name, d).
        rbind (map_err (\<lambda>_. DisplayName) (peer_name_new name)) (\<lambda>n. Ok (Some n, d)))
      else Ok (None, d))"

definition decode_candidates :: "prims \<Rightarrow> bytes \<Rightarrow> WireError + (EndpointCandidate list \<times> bytes)" where
  "decode_candidates P d =
     rbind (read_array_len P d) (\<lambda>(count, d).
       if count > MAX_CANDIDATES then Err Oversized else repeat_dec (decode_candidate P) count d)"

definition decode_services :: "prims \<Rightarrow> u64 \<Rightarrow> bytes \<Rightarrow> WireError + (ServiceAdvert list \<times> bytes)" where
  "decode_services P field_count d =
     (if field_count = RECORD_FIELDS_V3 then
        rbind (read_array_len P d) (\<lambda>(count, d).
          if count > MAX_SERVICE_ADVERTS then Err Oversized else repeat_dec (decode_service P) count d)
      else Ok ([], d))"

definition decode_endpoint_record :: "prims \<Rightarrow> bytes \<Rightarrow> WireError + EndpointRecord" where
  "decode_endpoint_record P input =
     (if length input > MAX_ENDPOINT_RECORD_BYTES then Err Oversized
      else
        rbind (ok_or Decode (dec_array P input)) (\<lambda>(field_count, d).
        rbind (ok_or WrongFieldCount field_count) (\<lambda>field_count.
        rbind (ok_or Decode (dec_u16 P d)) (\<lambda>(protocol_version, d).
        rbind (display_name_present protocol_version field_count) (\<lambda>present.
        rbind (wire_read_fixed P d) (\<lambda>(hive_id, d).
        rbind (wire_read_fixed P d) (\<lambda>(node_id, d).
        rbind (decode_display_name P present d) (\<lambda>(display_name, d).
        rbind (wire_read_fixed P d) (\<lambda>(transport_key_id, d).
        rbind (ok_or Decode (dec_u64 P d)) (\<lambda>(generation, d).
        rbind (ok_or Decode (dec_u64 P d)) (\<lambda>(sequence, d).
        rbind (ok_or Decode (dec_u64 P d)) (\<lambda>(issued_at, d).
        rbind (ok_or Decode (dec_u64 P d)) (\<lambda>(expires_at, d).
        rbind (decode_candidates P d) (\<lambda>(candidates, d).
        rbind (ok_or Decode (dec_u64 P d)) (\<lambda>(bits, d).
        rbind (map_err (\<lambda>_. Capability) (capabilities_from_bits bits)) (\<lambda>capabilities.
        rbind (decode_services P field_count d) (\<lambda>(services, d).
          if d \<noteq> [] then Err TrailingData
          else let r = \<lparr>er_protocol_version = protocol_version, er_hive_id = HiveId hive_id,
              er_node_id = NodeId node_id, er_display_name = display_name,
              er_transport_key_id = TransportKeyId transport_key_id, er_generation = generation,
              er_sequence = sequence, er_issued_at = issued_at, er_expires_at = expires_at,
              er_candidates = candidates, er_capabilities = capabilities, er_services = services\<rparr> in
            rbind (encode_endpoint_record P r) (\<lambda>again.
              if again \<noteq> input then Err NonCanonical else Ok r))))))))))))))))))"

definition encode_signed_endpoint_record :: "prims \<Rightarrow> SignedEndpointRecord \<Rightarrow> WireError + bytes" where
  "encode_signed_endpoint_record P s =
     (if length (se_signature s) \<noteq> 64 then Err SignatureLength
      else rbind (encode_endpoint_record P (se_record s)) (\<lambda>payload.
        let output = enc_array P 3 @ enc_u16 P WIRE_ENVELOPE_VERSION @ enc_bytes P payload @
              enc_bytes P (se_signature s) in
        if length output > MAX_SIGNED_ENDPOINT_RECORD_BYTES then Err Oversized else Ok output))"

definition decode_signed_endpoint_record :: "prims \<Rightarrow> bytes \<Rightarrow> WireError + SignedEndpointRecord" where
  "decode_signed_endpoint_record P input =
     (if length input > MAX_SIGNED_ENDPOINT_RECORD_BYTES then Err Oversized
      else
        rbind (wire_require_array P 3 input) (\<lambda>d.
        rbind (ok_or Decode (dec_u16 P d)) (\<lambda>(version, d).
        if version \<noteq> WIRE_ENVELOPE_VERSION then Err EnvelopeVersion
        else rbind (ok_or Decode (dec_bytes P d)) (\<lambda>(payload, d).
        if length payload > MAX_ENDPOINT_RECORD_BYTES then Err Oversized
        else rbind (ok_or Decode (dec_bytes P d)) (\<lambda>(signature, d).
        if length signature \<noteq> 64 then Err SignatureLength
        else if d \<noteq> [] then Err TrailingData
        else rbind (decode_endpoint_record P payload) (\<lambda>r.
          let signed = \<lparr>se_record = r, se_signature = signature\<rparr> in
          rbind (encode_signed_endpoint_record P signed) (\<lambda>again.
            if again \<noteq> input then Err NonCanonical else Ok signed)))))))"

section \<open>Round trips\<close>

text \<open>Addresses the wire can express: IPv6 sockets without flow label or scope.\<close>

fun wire_address :: "SocketAddr \<Rightarrow> bool" where
  "wire_address (SocketV4 _ _) = True"
| "wire_address (SocketV6 _ _ flow scope) = (flow = 0 \<and> scope = 0)"

definition wire_record :: "EndpointRecord \<Rightarrow> bool" where
  "wire_record r \<longleftrightarrow>
     is_ok (record_fields r) \<and>
     (\<forall>n. er_display_name r = Some n \<longrightarrow> peer_name_new (peer_name_str n) = Ok n) \<and>
     length (er_candidates r) \<le> MAX_CANDIDATES \<and>
     (\<forall>c \<in> set (er_candidates r). candidate_ok c \<and> wire_address (ec_address c)) \<and>
     capabilities_from_bits (capability_bits (er_capabilities r)) = Ok (er_capabilities r) \<and>
     length (er_services r) \<le> MAX_SERVICE_ADVERTS \<and>
     (\<forall>s \<in> set (er_services r). service_name_new (service_name_str (sa_name s)) = Ok (sa_name s) \<and>
        service_validate s = Ok ()) \<and>
     (er_protocol_version r \<noteq> ENDPOINT_RECORD_VERSION \<longrightarrow> er_services r = [])"

definition wire_signed :: "SignedEndpointRecord \<Rightarrow> bool" where
  "wire_signed s \<longleftrightarrow> wire_record (se_record s) \<and> length (se_signature s) = 64"

lemma endpoint_eta [simp]:
  "\<lparr>er_protocol_version = er_protocol_version r, er_hive_id = er_hive_id r, er_node_id = er_node_id r,
    er_display_name = er_display_name r, er_transport_key_id = er_transport_key_id r,
    er_generation = er_generation r, er_sequence = er_sequence r, er_issued_at = er_issued_at r,
    er_expires_at = er_expires_at r, er_candidates = er_candidates r, er_capabilities = er_capabilities r,
    er_services = er_services r\<rparr> = r"
  "\<lparr>se_record = se_record s, se_signature = se_signature s\<rparr> = s"
  by simp_all

lemma socket_new_wire: "wire_address a \<Longrightarrow> socket_new (socket_ip a) (socket_port a) = a"
  by (cases a) simp_all

lemma canonical_wire: "wire_address a \<Longrightarrow> wire_address (canonical_socket_address a)"
  by (cases a) (simp_all split: option.splits)

lemma wire_address_new [simp]: "wire_address (socket_new ip port)"
  by (cases ip) simp_all

context minicbor
begin

lemma wire_read_fixed_enc [simp]: "wire_read_fixed P (enc_bytes P (be_bytes (w :: bytes32)) @ r) = Ok (w, r)"
  by (simp add: wire_read_fixed_def)

lemma read_array_len_enc [simp]: "n < 2 ^ 64 \<Longrightarrow> read_array_len P (enc_array P (of_nat n) @ r) = Ok (n, r)"
  by (simp add: read_array_len_def dec_array_enc unat_of_nat)

lemma decode_encode_candidate:
  assumes "candidate_ok c" and "wire_address (ec_address c)"
  shows "decode_candidate P (encode_candidate P c @ r) = Ok (c, r)"
proof -
  have new: "candidate_new (ec_kind c) (ec_transport c) (socket_new (socket_ip (ec_address c)) (socket_port (ec_address c))) = Ok c"
    using assms by (simp add: socket_new_wire candidate_ok_def)
  show ?thesis
  proof (cases "socket_ip (ec_address c)")
    case (V4 ip)
    then show ?thesis using new
      by (simp add: decode_candidate_def encode_candidate_def wire_require_array_def cbor_simps)
  next
    case (V6 ip)
    then show ?thesis using new
      by (simp add: decode_candidate_def encode_candidate_def wire_require_array_def cbor_simps)
  qed
qed

lemma length_encode_candidate: "length (encode_candidate P c) \<le> 26"
proof -
  have "length (enc_bytes P (be_bytes (ip :: bytes4))) \<le> 6" "length (enc_bytes P (be_bytes (jp :: bytes16))) \<le> 18" for ip jp
    using length_enc_bytes_u8 [of "be_bytes ip"] length_enc_bytes_u8 [of "be_bytes jp"] by simp_all
  then have "length (case socket_ip (ec_address c) of V4 ip \<Rightarrow> enc_bytes P (be_bytes ip) | V6 ip \<Rightarrow> enc_bytes P (be_bytes ip)) \<le> 18"
    by (auto split: IpAddr.splits intro: order_trans [where y = 6])
  then show ?thesis
    using length_enc_array(1) [of CANDIDATE_FIELDS] length_enc_u8 [of "kind_code (ec_kind c)"]
      length_enc_u8 [of "transport_code (ec_transport c)"] length_enc_u16 [of "socket_port (ec_address c)"]
    by (simp add: encode_candidate_def CANDIDATE_FIELDS_def)
qed

lemma decode_encode_service:
  assumes "service_name_new (service_name_str (sa_name s)) = Ok (sa_name s)" and "service_validate s = Ok ()"
  shows "decode_service P (encode_service P s @ r) = Ok (s, r)"
proof -
  have "is_ascii (service_name_str (sa_name s))" "length (service_name_str (sa_name s)) < 2 ^ 64"
    using is_ascii_service [OF assms(1)] by simp_all
  then show ?thesis
    using assms by (cases s) (simp add: decode_service_def encode_service_def wire_require_array_def cbor_simps Let_def)
qed

lemma length_encode_service:
  assumes "service_name_new (service_name_str (sa_name s)) = Ok (sa_name s)"
  shows "length (encode_service P s) \<le> 56"
  using is_ascii_service [OF assms] length_enc_str_u8 [of "service_name_str (sa_name s)"]
    length_enc_array(1) [of SERVICE_FIELDS] length_enc_u16 [of "sa_port s"] length_enc_bytes32 [of "sa_key_pin s"]
  by (simp add: encode_service_def SERVICE_FIELDS_def)

lemma decode_encode_candidates:
  assumes "wire_record r"
  shows "decode_candidates P (enc_array P (of_nat (length (er_candidates r))) @
    concat (map (encode_candidate P) (er_candidates r)) @ d) = Ok (er_candidates r, d)"
proof -
  have "repeat_dec (decode_candidate P) (length (er_candidates r)) (concat (map (encode_candidate P) (er_candidates r)) @ d) =
      Ok (er_candidates r, d)"
    by (rule repeat_dec_enc) (use assms in \<open>auto simp: wire_record_def decode_encode_candidate\<close>)
  then show ?thesis using assms
    by (simp add: decode_candidates_def wire_record_def MAX_CANDIDATES_def)
qed

lemma decode_encode_services:
  assumes "wire_record r"
  shows "decode_services P RECORD_FIELDS_V3 (enc_array P (of_nat (length (er_services r))) @
    concat (map (encode_service P) (er_services r))) = Ok (er_services r, [])"
proof -
  have "repeat_dec (decode_service P) (length (er_services r)) (concat (map (encode_service P) (er_services r)) @ []) =
      Ok (er_services r, [])"
    by (rule repeat_dec_enc) (use assms in \<open>auto simp: wire_record_def decode_encode_service\<close>)
  then show ?thesis using assms
    by (simp add: decode_services_def wire_record_def MAX_SERVICE_ADVERTS_def)
qed

lemma decode_encode_endpoint_record:
  assumes "wire_record r" and "encode_endpoint_record P r = Ok bs"
  shows "decode_endpoint_record P bs = Ok r"
proof -
  have name: "is_ascii (peer_name_str n)" "length (peer_name_str n) < 2 ^ 64" "peer_name_new (peer_name_str n) = Ok n"
    if "er_display_name r = Some n" for n
    using assms(1) that is_ascii_name [of "peer_name_str n" n] by (auto simp: wire_record_def)
  have caps: "capabilities_from_bits (capability_bits (er_capabilities r)) = Ok (er_capabilities r)"
    using assms(1) by (simp add: wire_record_def)
  note versions = ENDPOINT_RECORD_VERSION_V1_def ENDPOINT_RECORD_VERSION_V2_def ENDPOINT_RECORD_VERSION_def
    RECORD_FIELDS_V1_def RECORD_FIELDS_V2_def RECORD_FIELDS_V3_def
  obtain n where fields: "record_fields r = Ok n" using assms(1) by (auto simp: wire_record_def is_ok_iff)
  then have present: "display_name_present (er_protocol_version r) n = Ok (er_display_name r \<noteq> None)"
    by (auto simp: record_fields_def display_name_present_def versions split: if_splits)
  have none: "n \<noteq> RECORD_FIELDS_V3 \<Longrightarrow> er_services r = []"
    using fields assms(1) by (auto simp: record_fields_def wire_record_def versions split: if_splits)
  have dn: "decode_display_name P (er_display_name r \<noteq> None)
      ((case er_display_name r of Some n \<Rightarrow> enc_str P (peer_name_str n) | None \<Rightarrow> []) @ d) = Ok (er_display_name r, d)" for d
    using name by (auto simp: decode_display_name_def cbor_simps split: option.splits)
  let ?sv = "if n = RECORD_FIELDS_V3
    then enc_array P (of_nat (length (er_services r))) @ concat (map (encode_service P) (er_services r)) else []"
  have services: "decode_services P n ?sv = Ok (er_services r, [])"
    using none decode_encode_services [OF assms(1)] by (auto simp: decode_services_def)
  obtain m where bs: "bs = enc_array P n @ enc_u16 P (er_protocol_version r) @
      enc_bytes P (be_bytes (hive_bytes (er_hive_id r))) @ enc_bytes P (be_bytes (node_bytes (er_node_id r))) @
      (case er_display_name r of Some n \<Rightarrow> enc_str P (peer_name_str n) | None \<Rightarrow> []) @
      enc_bytes P (be_bytes (transport_key_bytes (er_transport_key_id r))) @
      enc_u64 P (er_generation r) @ enc_u64 P (er_sequence r) @ enc_u64 P (er_issued_at r) @ enc_u64 P (er_expires_at r) @
      enc_array P (of_nat (length (er_candidates r))) @ concat (map (encode_candidate P) (er_candidates r)) @
      enc_u64 P (capability_bits (er_capabilities r)) @ m" and m: "m = ?sv" "length bs \<le> MAX_ENDPOINT_RECORD_BYTES"
    using assms(2) fields by (auto simp: encode_endpoint_record_def Let_def result_simps split: if_splits)
  show ?thesis
    using m(2) assms(2) caps present dn services [folded m(1)] decode_encode_candidates [OF assms(1)]
    unfolding bs by (simp add: decode_endpoint_record_def cbor_simps Let_def)
qed

lemma length_candidates_enc:
  "length cs \<le> MAX_CANDIDATES \<Longrightarrow> length (concat (map (encode_candidate P) cs)) \<le> 208"
  using length_concat_le [of cs "encode_candidate P" 26] length_encode_candidate
  by (simp add: MAX_CANDIDATES_def)

lemma length_services_enc:
  assumes "wire_record r"
  shows "length (concat (map (encode_service P) (er_services r))) \<le> 224"
proof -
  have "length (concat (map (encode_service P) (er_services r))) \<le> 56 * length (er_services r)"
    by (rule length_concat_le) (use assms length_encode_service in \<open>auto simp: wire_record_def\<close>)
  then show ?thesis using assms by (simp add: wire_record_def MAX_SERVICE_ADVERTS_def)
qed

lemma encode_endpoint_record_ok:
  assumes "wire_record r"
  shows "\<exists>bs. encode_endpoint_record P r = Ok bs \<and> length bs \<le> 660"
proof -
  obtain n where n: "record_fields r = Ok n" "n < 24" using assms
    by (auto simp: wire_record_def is_ok_iff record_fields_def RECORD_FIELDS_V1_def RECORD_FIELDS_V2_def
        RECORD_FIELDS_V3_def split: if_splits)
  have name: "length (case er_display_name r of Some n \<Rightarrow> enc_str P (peer_name_str n) | None \<Rightarrow> []) \<le> 65"
  proof (cases "er_display_name r")
    case (Some n)
    then have "length (peer_name_str n) \<le> 63"
      using assms is_ascii_name [of "peer_name_str n" n] by (simp add: wire_record_def)
    then show ?thesis using Some length_enc_str_u8 [of "peer_name_str n"] by simp
  qed simp
  have small: "(of_nat k :: u64) < 24" if "k \<le> 8" for k
    using that by (simp add: word_less_nat_alt unat_of_nat)
  have counts: "length (er_candidates r) \<le> 8" "length (er_services r) \<le> 8"
    using assms by (simp_all add: wire_record_def MAX_CANDIDATES_def MAX_SERVICE_ADVERTS_def)
  have "length (concat (map (encode_candidate P) (er_candidates r))) \<le> 208"
    by (rule length_candidates_enc) (use assms in \<open>simp add: wire_record_def\<close>)
  then show ?thesis
    using n name length_services_enc [OF assms] length_enc_array(1) [OF n(2)]
      length_enc_array(1) [OF small [OF counts(1)]] length_enc_array(1) [OF small [OF counts(2)]]
      length_enc_u16 [of "er_protocol_version r"] length_enc_bytes32 [of "hive_bytes (er_hive_id r)"]
      length_enc_bytes32 [of "node_bytes (er_node_id r)"] length_enc_bytes32 [of "transport_key_bytes (er_transport_key_id r)"]
      length_enc_u64 [of "er_generation r"] length_enc_u64 [of "er_sequence r"] length_enc_u64 [of "er_issued_at r"]
      length_enc_u64 [of "er_expires_at r"] length_enc_u64 [of "capability_bits (er_capabilities r)"]
    by (simp add: encode_endpoint_record_def Let_def MAX_ENDPOINT_RECORD_BYTES_def)
qed

lemma decode_encode_signed_endpoint:
  assumes "wire_signed s" and "encode_signed_endpoint_record P s = Ok bs"
  shows "decode_signed_endpoint_record P bs = Ok s"
proof -
  obtain payload where payload: "encode_endpoint_record P (se_record s) = Ok payload" "length payload \<le> 660"
    using encode_endpoint_record_ok assms(1) by (auto simp: wire_signed_def)
  have bs: "bs = enc_array P 3 @ enc_u16 P WIRE_ENVELOPE_VERSION @ enc_bytes P payload @ enc_bytes P (se_signature s)"
    "length bs \<le> MAX_SIGNED_ENDPOINT_RECORD_BYTES"
    using assms payload by (auto simp: encode_signed_endpoint_record_def wire_signed_def Let_def split: if_splits)
  have "decode_endpoint_record P payload = Ok (se_record s)"
    using decode_encode_endpoint_record [OF _ payload(1)] assms(1) by (simp add: wire_signed_def)
  then show ?thesis
    using assms bs payload
    by (simp add: decode_signed_endpoint_record_def wire_require_array_def wire_signed_def cbor_simps
        MAX_ENDPOINT_RECORD_BYTES_def Let_def)
qed

end

text \<open>What the decoder yields.\<close>

lemma candidate_new_wire:
  assumes "candidate_new k t (socket_new ip port) = Ok c"
  shows "candidate_ok c \<and> wire_address (ec_address c)"
proof -
  have "ec_address c = canonical_socket_address (socket_new ip port)"
    using assms by (auto simp: candidate_new_def result_simps Let_def)
  then show ?thesis using candidate_new_ok [OF assms] canonical_wire [OF wire_address_new] by simp
qed

lemma name_again:
  "service_name_new s = Ok n \<Longrightarrow> service_name_new (service_name_str n) = Ok n"
  "peer_name_new s = Ok m \<Longrightarrow> peer_name_new (peer_name_str m) = Ok m"
  by (frule is_ascii_service, simp) (frule is_ascii_name, simp)

lemma decode_candidate_wire:
  "decode_candidate P d = Ok (c, r) \<Longrightarrow> candidate_ok c \<and> wire_address (ec_address c)"
  by (auto simp: decode_candidate_def result_simps split: prod.splits dest: candidate_new_wire)

lemma decode_service_wire:
  "decode_service P d = Ok (s, r) \<Longrightarrow>
     service_name_new (service_name_str (sa_name s)) = Ok (sa_name s) \<and> service_validate s = Ok ()"
  by (auto simp: decode_service_def result_simps Let_def split: prod.splits dest: name_again)

lemma decode_candidates_wire:
  assumes "decode_candidates P d = Ok (cs, r)"
  shows "length cs \<le> MAX_CANDIDATES \<and> (\<forall>c \<in> set cs. candidate_ok c \<and> wire_address (ec_address c))"
proof -
  obtain k d' where "k \<le> MAX_CANDIDATES" "repeat_dec (decode_candidate P) k d' = Ok (cs, r)"
    using assms by (auto simp: decode_candidates_def result_simps not_less split: prod.splits)
  then show ?thesis
    using repeat_dec_all [where Q = "\<lambda>c. candidate_ok c \<and> wire_address (ec_address c)"] decode_candidate_wire by blast
qed

lemma decode_services_wire:
  assumes "decode_services P n d = Ok (ss, r)"
  shows "length ss \<le> MAX_SERVICE_ADVERTS \<and> (n \<noteq> RECORD_FIELDS_V3 \<longrightarrow> ss = []) \<and>
    (\<forall>s \<in> set ss. service_name_new (service_name_str (sa_name s)) = Ok (sa_name s) \<and> service_validate s = Ok ())"
proof (cases "n = RECORD_FIELDS_V3")
  case False
  then show ?thesis using assms by (simp add: decode_services_def)
next
  case True
  obtain k d' where "k \<le> MAX_SERVICE_ADVERTS" "repeat_dec (decode_service P) k d' = Ok (ss, r)"
    using assms True by (auto simp: decode_services_def result_simps not_less split: prod.splits)
  then show ?thesis
    using True repeat_dec_all [where Q = "\<lambda>s. service_name_new (service_name_str (sa_name s)) = Ok (sa_name s) \<and>
      service_validate s = Ok ()"] decode_service_wire by blast
qed

lemma decode_display_name_wire:
  "decode_display_name P present d = Ok (m, r) \<Longrightarrow>
     (m \<noteq> None) = present \<and> (\<forall>n. m = Some n \<longrightarrow> peer_name_new (peer_name_str n) = Ok n)"
  by (auto simp: decode_display_name_def result_simps split: prod.splits if_splits dest: name_again)

lemma decode_endpoint_record_canonical:
  assumes "decode_endpoint_record P bs = Ok r"
  shows "encode_endpoint_record P r = Ok bs \<and> wire_record r"
proof -
  obtain n present d1 d2 d3 d4 d5 d6 bits where enc: "encode_endpoint_record P r = Ok bs"
    and present: "display_name_present (er_protocol_version r) n = Ok present"
    and name: "decode_display_name P present d1 = Ok (er_display_name r, d2)"
    and cands: "decode_candidates P d3 = Ok (er_candidates r, d4)"
    and caps: "capabilities_from_bits bits = Ok (er_capabilities r)"
    and services: "decode_services P n d5 = Ok (er_services r, d6)"
    using assms
    by (auto simp: decode_endpoint_record_def result_simps Let_def split: prod.splits if_splits)
  have fields: "is_ok (record_fields r)"
    using enc by (auto simp: encode_endpoint_record_def result_simps is_ok_iff)
  have v3: "er_protocol_version r \<noteq> ENDPOINT_RECORD_VERSION \<Longrightarrow> n \<noteq> RECORD_FIELDS_V3"
    using present by (auto simp: display_name_present_def RECORD_FIELDS_V1_def RECORD_FIELDS_V2_def RECORD_FIELDS_V3_def
        split: if_splits)
  have "capabilities_from_bits (capability_bits (er_capabilities r)) = Ok (er_capabilities r)"
    using caps by (cases "er_capabilities r") (auto simp: capabilities_from_bits_def split: if_splits)
  then show ?thesis
    using enc fields v3 decode_display_name_wire [OF name] decode_candidates_wire [OF cands] decode_services_wire [OF services]
    by (auto simp: wire_record_def)
qed

lemma decode_signed_endpoint_canonical:
  "decode_signed_endpoint_record P bs = Ok s \<Longrightarrow> encode_signed_endpoint_record P s = Ok bs \<and> wire_signed s"
  by (auto simp: decode_signed_endpoint_record_def wire_signed_def result_simps Let_def
      dest: decode_endpoint_record_canonical split: prod.splits if_splits)

sublocale minicbor \<subseteq> endpoint_codec: canonical_codec
  "encode_signed_endpoint_record P" "decode_signed_endpoint_record P" wire_signed
  by unfold_locales (blast dest: decode_encode_signed_endpoint decode_signed_endpoint_canonical)+

end
