(* ===== verification/Endpoint_Signing.thy ===== *)
theory Endpoint_Signing
  imports Wire
begin

text \<open>
  Signing, verifying and authorizing endpoint records (\<^verbatim>\<open>record.rs\<close>), and the decision between two
  records of one device (\<^verbatim>\<open>merge.rs\<close>).
\<close>

section \<open>Signatures\<close>

definition ENDPOINT_RECORD_SIGNATURE_DOMAIN_V1 :: bytes where
  "ENDPOINT_RECORD_SIGNATURE_DOMAIN_V1 = ascii ''supgang/endpoint-record/v1'' @ [0]"
definition ENDPOINT_RECORD_SIGNATURE_DOMAIN_V2 :: bytes where
  "ENDPOINT_RECORD_SIGNATURE_DOMAIN_V2 = ascii ''supgang/endpoint-record/v2'' @ [0]"
definition ENDPOINT_RECORD_SIGNATURE_DOMAIN_V3 :: bytes where
  "ENDPOINT_RECORD_SIGNATURE_DOMAIN_V3 = ascii ''supgang/endpoint-record/v3'' @ [0]"

definition signature_domain :: "u16 \<Rightarrow> RecordError + bytes" where
  "signature_domain protocol_version =
     (if protocol_version = ENDPOINT_RECORD_VERSION_V1 then Ok ENDPOINT_RECORD_SIGNATURE_DOMAIN_V1
      else if protocol_version = ENDPOINT_RECORD_VERSION_V2 then Ok ENDPOINT_RECORD_SIGNATURE_DOMAIN_V2
      else if protocol_version = ENDPOINT_RECORD_VERSION then Ok ENDPOINT_RECORD_SIGNATURE_DOMAIN_V3
      else Err RecordError.UnsupportedVersion)"

definition sign_endpoint :: "prims \<Rightarrow> EndpointRecord \<Rightarrow> DeviceIdentity \<Rightarrow> RecordError + SignedEndpointRecord" where
  "sign_endpoint P r identity =
     (let r = canonicalize_candidates r in
      rbind (endpoint_validate_shape r) (\<lambda>_.
        if er_node_id r \<noteq> device_node_id P identity then Err SignerMismatch
        else rbind (map_err (\<lambda>_. Encoding) (encode_endpoint_record P r)) (\<lambda>payload.
          rbind (signature_domain (er_protocol_version r)) (\<lambda>domain.
            Ok \<lparr>se_record = r, se_signature = be_bytes (device_sign_domain P identity domain payload)\<rparr>))))"

definition verify_endpoint :: "prims \<Rightarrow> SignedEndpointRecord \<Rightarrow> bytes32 \<Rightarrow> RecordError + unit" where
  "verify_endpoint P s key =
     rbind (endpoint_validate_shape (se_record s)) (\<lambda>_.
       if er_node_id (se_record s) \<noteq> node_from_verifying_key P key then Err SignerMismatch
       else rbind (ok_or RecordError.InvalidSignature (try_array (se_signature s))) (\<lambda>signature.
         rbind (map_err (\<lambda>_. Encoding) (encode_endpoint_record P (se_record s))) (\<lambda>payload.
         rbind (signature_domain (er_protocol_version (se_record s))) (\<lambda>domain.
           if \<not> verify_domain P key domain payload signature then Err RecordError.InvalidSignature
           else Ok ()))))"

definition verify_authorized ::
  "prims \<Rightarrow> SignedEndpointRecord \<Rightarrow> SignedMembership \<Rightarrow> bytes32 \<Rightarrow> u64 \<Rightarrow> RecordError + unit" where
  "verify_authorized P s membership root_key now =
     (let c = sm_certificate membership; r = se_record s in
      rbind (map_err (\<lambda>_. RecordError.Membership) (verify_membership P membership root_key)) (\<lambda>_.
      rbind (map_err (\<lambda>_. RecordError.Membership) (membership_validate_time c now)) (\<lambda>_.
      rbind (endpoint_validate_time r now) (\<lambda>_.
        if er_hive_id r \<noteq> mc_hive_id c \<or> er_node_id r \<noteq> mc_node_id c then Err MembershipMismatch
        else if er_expires_at r > mc_expires_at c then Err OutlivesMembership
        else rbind (if ed_valid_key P (mc_device_verifying_key c) then Ok (mc_device_verifying_key c)
                    else Err MembershipMismatch) (\<lambda>device_key.
        rbind (verify_endpoint P s device_key) (\<lambda>_.
          if capabilities_contains (er_capabilities r) CAPABILITY_INTRODUCER \<and> \<not> roles_contains (mc_roles c) ROLE_INTRODUCER
          then Err UnauthorizedCapability
          else if capabilities_contains (er_capabilities r) CAPABILITY_CONTROL_RELAY \<and>
            \<not> roles_contains (mc_roles c) ROLE_CONTROL_RELAY
          then Err UnauthorizedCapability
          else Ok ()))))))"

section \<open>Choosing between records\<close>

datatype MergeDecision =
    AcceptFirst
  | AcceptNewer
  | Duplicate
  | RejectStale
  | Equivocation
  | GenerationTransitionRequired

definition decide :: "SignedEndpointRecord option \<Rightarrow> SignedEndpointRecord \<Rightarrow> MergeDecision" where
  "decide current incoming =
     (case current of
        None \<Rightarrow> AcceptFirst
      | Some current \<Rightarrow>
          if er_generation (se_record current) \<noteq> er_generation (se_record incoming) then GenerationTransitionRequired
          else if er_sequence (se_record incoming) > er_sequence (se_record current) then AcceptNewer
          else if er_sequence (se_record incoming) < er_sequence (se_record current) then RejectStale
          else if current = incoming then Duplicate
          else Equivocation)"

section \<open>Lemmas\<close>

definition endpoint_wf :: "SignedEndpointRecord \<Rightarrow> bool" where
  "endpoint_wf s \<longleftrightarrow> endpoint_validate_shape (se_record s) = Ok () \<and> length (se_signature s) = 64"

lemma verify_endpoint_Ok:
  "verify_endpoint P s key = Ok () \<longleftrightarrow>
     endpoint_wf s \<and> er_node_id (se_record s) = node_from_verifying_key P key \<and>
     (\<exists>payload domain. encode_endpoint_record P (se_record s) = Ok payload \<and>
        signature_domain (er_protocol_version (se_record s)) = Ok domain \<and>
        verify_domain P key domain payload (be_word (se_signature s)))"
  by (auto simp: verify_endpoint_def endpoint_wf_def result_simps try_array_def split: if_splits)

lemma verify_authorized_Ok:
  "verify_authorized P s m root now = Ok () \<longleftrightarrow>
     verify_membership P m root = Ok () \<and> membership_validate_time (sm_certificate m) now = Ok () \<and>
     endpoint_validate_time (se_record s) now = Ok () \<and>
     er_hive_id (se_record s) = mc_hive_id (sm_certificate m) \<and> er_node_id (se_record s) = mc_node_id (sm_certificate m) \<and>
     er_expires_at (se_record s) \<le> mc_expires_at (sm_certificate m) \<and>
     ed_valid_key P (mc_device_verifying_key (sm_certificate m)) \<and>
     verify_endpoint P s (mc_device_verifying_key (sm_certificate m)) = Ok () \<and>
     (capabilities_contains (er_capabilities (se_record s)) CAPABILITY_INTRODUCER \<longrightarrow>
        roles_contains (mc_roles (sm_certificate m)) ROLE_INTRODUCER) \<and>
     (capabilities_contains (er_capabilities (se_record s)) CAPABILITY_CONTROL_RELAY \<longrightarrow>
        roles_contains (mc_roles (sm_certificate m)) ROLE_CONTROL_RELAY)"
  by (auto simp: verify_authorized_def result_simps Let_def not_less)

text \<open>The names and addresses of a record are those its types admit: built by their checked constructors.\<close>

definition claims_typed :: "EndpointRecord \<Rightarrow> bool" where
  "claims_typed r \<longleftrightarrow>
     (\<forall>n. er_display_name r = Some n \<longrightarrow> peer_name_new (peer_name_str n) = Ok n) \<and>
     (\<forall>c \<in> set (er_candidates r). candidate_ok c) \<and>
     (\<forall>s \<in> set (er_services r). service_name_new (service_name_str (sa_name s)) = Ok (sa_name s))"

lemma capabilities_known:
  "capabilities_from_bits (capability_bits c) = Ok x \<Longrightarrow> capabilities_from_bits (capability_bits c) = Ok c"
  by (cases c) (auto simp: capabilities_from_bits_def split: if_splits)

lemma endpoint_shape_Ok:
  assumes "endpoint_validate_shape r = Ok ()"
  shows "is_ok (record_fields r)" "length (er_candidates r) \<le> MAX_CANDIDATES" "strictly_sorted (er_candidates r)"
    "validate_services (er_services r) = Ok ()" "er_protocol_version r \<noteq> ENDPOINT_RECORD_VERSION \<longrightarrow> er_services r = []"
    "capabilities_from_bits (capability_bits (er_capabilities r)) = Ok (er_capabilities r)" "er_sequence r \<noteq> 0"
    "er_issued_at r < er_expires_at r"
proof -
  obtain x where caps: "capabilities_from_bits (capability_bits (er_capabilities r)) = Ok x"
    using assms by (auto simp: endpoint_validate_shape_def result_simps split: if_splits)
  show "capabilities_from_bits (capability_bits (er_capabilities r)) = Ok (er_capabilities r)"
    by (rule capabilities_known [OF caps])
  show "is_ok (record_fields r)" "er_protocol_version r \<noteq> ENDPOINT_RECORD_VERSION \<longrightarrow> er_services r = []"
    using assms by (auto simp: endpoint_validate_shape_def record_fields_def ENDPOINT_RECORD_VERSION_V1_def
      ENDPOINT_RECORD_VERSION_V2_def ENDPOINT_RECORD_VERSION_def split: if_splits)
  show "length (er_candidates r) \<le> MAX_CANDIDATES" "strictly_sorted (er_candidates r)"
    "validate_services (er_services r) = Ok ()" "er_sequence r \<noteq> 0" "er_issued_at r < er_expires_at r"
    using assms by (auto simp: endpoint_validate_shape_def result_simps split: if_splits)
qed

lemma validate_services_Ok:
  "validate_services ss = Ok () \<Longrightarrow> length ss \<le> MAX_SERVICE_ADVERTS \<and> (\<forall>s \<in> set ss. service_validate s = Ok ())"
  by (auto simp: validate_services_def result_simps try_for_each_Ok split: if_splits)

lemma validated_wire_record:
  assumes "endpoint_validate_shape r = Ok ()" and "claims_typed r"
    and "\<forall>c \<in> set (er_candidates r). wire_address (ec_address c)"
  shows "wire_record r"
  using assms(2,3) endpoint_shape_Ok [OF assms(1)] validate_services_Ok
  unfolding claims_typed_def wire_record_def by blast

context ed25519
begin

lemma sign_endpoint_verifies:
  assumes "sign_endpoint P r identity = Ok s"
  shows "verify_endpoint P s (device_verifying_key P identity) = Ok () \<and> se_record s = canonicalize_candidates r"
  using assms
  by (auto simp: verify_endpoint_Ok sign_endpoint_def endpoint_wf_def result_simps Let_def
      device_node_id_def device_signature_verifies split: if_splits)

end

end
