(* ===== verification/Journal.thy ===== *)
theory Journal
  imports Journal_Format
begin

text \<open>
  The operations of the journal (\<^verbatim>\<open>journal.rs\<close>) over the model of the file system: opening with
  recovery, reading, appending one frame or a batch, and compaction. The handle keeps the bytes its
  hasher has absorbed and the number of committed frames; its file is the entry at the journal's
  path, which holds until an operation fails, after which every caller discards the handle.
\<close>

section \<open>Operations\<close>

record Journal =
  jn_hasher :: bytes
  jn_frame_count :: u64

definition sys :: "(IoErrorKind, 'a) io \<Rightarrow> (JournalError, 'a) io" where
  "sys m = io_map_err Io m"

definition check_metadata :: "u32 \<Rightarrow> FileMeta \<Rightarrow> JournalError + unit" where
  "check_metadata uid m =
     (if \<not> fm_is_file m then Err NotRegularFile
      else if fm_uid m \<noteq> uid then Err WrongOwner
      else if and (fm_mode m) 0x1FF \<noteq> 0x180 then Err InsecurePermissions
      else case fm_acl m of
        None \<Rightarrow> Ok ()
      | Some kind \<Rightarrow> if kind = PermissionDenied then Err InsecureAcl else Err (Io kind))"

definition file_meta :: "path \<Rightarrow> disk \<Rightarrow> FileMeta" where
  "file_meta p d = (case cl_now (dk_cells d p) of Some (File m _) \<Rightarrow> m | _ \<Rightarrow> private_meta (dk_uid d))"

definition validate_metadata :: "path \<Rightarrow> (JournalError, unit) io" where
  "validate_metadata p =
     io_bind (sys (observe (\<lambda>d. (dk_uid d, file_meta p d)))) (\<lambda>(uid, m). io_lift (check_metadata uid m))"

definition validate_temp :: "temp_file \<Rightarrow> (JournalError, unit) io" where
  "validate_temp f =
     io_bind (sys (observe dk_uid)) (\<lambda>uid. io_lift (check_metadata uid (tf_meta f)))"

text \<open>\<^verbatim>\<open>read_frames\<close> yields the frames, the length they span and the bytes read.\<close>

definition read_frames :: "prims \<Rightarrow> path \<Rightarrow> (JournalError, bytes list \<times> nat \<times> bytes) io" where
  "read_frames P p =
     io_bind (sys (observe (\<lambda>d. length (file_bytes p d)))) (\<lambda>declared_length.
       if declared_length > unat MAX_JOURNAL_BYTES then io_err JournalFull
       else io_bind (sys (observe (\<lambda>_. ()))) (\<lambda>_.
         io_bind (sys (observe (\<lambda>d. take (unat MAX_JOURNAL_BYTES + 1) (file_bytes p d)))) (\<lambda>bs.
           if length bs > unat MAX_JOURNAL_BYTES then io_err JournalFull
           else if length bs < length JOURNAL_MAGIC \<or> slice bs 0 (length JOURNAL_MAGIC) \<noteq> Some JOURNAL_MAGIC
             then io_err InvalidHeader
           else io_bind (io_lift (parse_frames P bs)) (\<lambda>(frames, valid_length).
             io_ok (frames, valid_length, bs)))))"

definition temporary_sibling :: "(JournalError, unit) io" where
  "temporary_sibling = sys (observe (\<lambda>_. ()))"

definition clear_inherited_acl :: "(JournalError, unit) io" where
  "clear_inherited_acl = sys (observe (\<lambda>_. ()))"

definition sync_parent :: "(JournalError, unit) io" where
  "sync_parent = io_bind (sys (observe (\<lambda>_. ()))) (\<lambda>_. sys sync_directory)"

definition witness_read :: "prims \<Rightarrow> (JournalError, JournalWitness option) io" where
  "witness_read P d =
     (case sys (open_existing HeadPath) d of
        (Inl e, d) \<Rightarrow> if e = Io NotFound then (Ok None, d) else (Err e, d)
      | (Inr _, d) \<Rightarrow>
          io_bind (validate_metadata HeadPath) (\<lambda>_.
          io_bind (sys (observe (\<lambda>d. take (FILE_BYTES + 1) (file_bytes HeadPath d)))) (\<lambda>bs.
          io_bind (io_lift (decode_witness P bs)) (\<lambda>w. io_ok (Some w)))) d)"

definition witness_write :: "prims \<Rightarrow> JournalWitness \<Rightarrow> (JournalError, unit) io" where
  "witness_write P w =
     io_bind temporary_sibling (\<lambda>_.
     io_bind (sys create_temp) (\<lambda>f.
     io_bind clear_inherited_acl (\<lambda>_.
     io_bind (sys (observe (\<lambda>_. f\<lparr>tf_meta := (tf_meta f)\<lparr>fm_mode := 0x180\<rparr>\<rparr>))) (\<lambda>f.
     io_bind (sys (temp_write f (encode_witness P w))) (\<lambda>f.
     io_bind (sys (temp_sync f)) (\<lambda>f.
     io_bind (sys (rename_temp f HeadPath)) (\<lambda>_. sync_parent)))))))"

text \<open>How \<^verbatim>\<open>open\<close> settles the witness against the bytes read: the frames to keep and their length.\<close>

definition reconcile ::
  "prims \<Rightarrow> bytes list \<Rightarrow> nat \<Rightarrow> bytes \<Rightarrow> JournalWitness \<Rightarrow> JournalWitness option \<Rightarrow>
    (JournalError, bytes list \<times> nat) io" where
  "reconcile P frames valid_length bs current w =
     (case w of
        None \<Rightarrow>
          if valid_length \<noteq> length bs then io_err Rollback
          else io_bind (witness_write P current) (\<lambda>_. io_ok (frames, valid_length))
      | Some expected \<Rightarrow>
          if expected = current then io_ok (frames, valid_length)
          else if unat (wt_length expected) \<le> valid_length then
            io_bind (io_lift (ok_or Rollback (slice bs 0 (unat (wt_length expected))))) (\<lambda>prefix.
            io_bind (io_lift (parse_frames P prefix)) (\<lambda>(prefix_frames, prefix_length).
              if prefix_length \<noteq> unat (wt_length expected) \<or>
                 journal_witness P prefix (length prefix_frames) \<noteq> expected
              then io_err Rollback
              else io_ok (prefix_frames, unat (wt_length expected))))
          else io_err Rollback)"

text \<open>The end of \<^verbatim>\<open>open\<close>: cutting the file to what is kept and building the handle.\<close>

definition finish_open :: "bytes \<Rightarrow> bytes list \<Rightarrow> nat \<Rightarrow> (JournalError, Journal \<times> bytes list) io" where
  "finish_open bs frames valid_length =
     io_bind (if valid_length < length bs
              then io_bind (sys (set_len JournalPath valid_length)) (\<lambda>_. sys (sync_file JournalPath))
              else io_ok ()) (\<lambda>_.
     io_bind (sys (observe (\<lambda>_. ()))) (\<lambda>_.
     io_bind (io_lift (ok_or Rollback (slice bs 0 valid_length))) (\<lambda>committed.
     io_ok (\<lparr>jn_hasher = committed, jn_frame_count = of_nat (length frames)\<rparr>, frames))))"

text \<open>\<^verbatim>\<open>open\<close> from reading the frames on.\<close>

definition recover_journal :: "prims \<Rightarrow> (JournalError, Journal \<times> bytes list) io" where
  "recover_journal P =
     io_bind (read_frames P JournalPath) (\<lambda>(frames, valid_length, bs).
     io_bind (io_lift (ok_or Rollback (slice bs 0 valid_length))) (\<lambda>valid.
     io_bind (witness_read P) (\<lambda>w.
     io_bind (reconcile P frames valid_length bs (journal_witness P valid (length frames)) w)
       (\<lambda>(frames, valid_length). finish_open bs frames valid_length))))"

definition journal_open :: "prims \<Rightarrow> (JournalError, Journal \<times> bytes list) io" where
  "journal_open P =
     io_bind (sys (open_or_create JournalPath)) (\<lambda>created.
     io_bind (if created then clear_inherited_acl else io_ok ()) (\<lambda>_.
     io_bind (validate_metadata JournalPath) (\<lambda>_.
     io_bind (sys (observe (\<lambda>d. length (file_bytes JournalPath d)))) (\<lambda>len.
     io_bind (if len = 0
              then io_bind (sys (write_all JournalPath JOURNAL_MAGIC)) (\<lambda>_. sys (sync_file JournalPath))
              else io_ok ()) (\<lambda>_.
     recover_journal P)))))"

definition journal_read :: "prims \<Rightarrow> (JournalError, bytes list) io" where
  "journal_read P =
     io_bind (sys (open_existing JournalPath)) (\<lambda>_.
     io_bind (validate_metadata JournalPath) (\<lambda>_.
     io_bind (read_frames P JournalPath) (\<lambda>(frames, valid_length, bs).
     io_bind (witness_read P) (\<lambda>w.
     io_bind (io_lift (ok_or Rollback w)) (\<lambda>expected.
     io_bind (io_lift (ok_or Rollback (slice bs 0 valid_length))) (\<lambda>valid.
       if expected = journal_witness P valid (length frames) then io_ok frames
       else
         io_bind (io_lift (ok_or Rollback (slice bs 0 (unat (wt_length expected))))) (\<lambda>prefix.
         io_bind (io_lift (parse_frames P prefix)) (\<lambda>(prefix_frames, prefix_length).
           if prefix_length = unat (wt_length expected) \<and>
              journal_witness P prefix (length prefix_frames) = expected
           then io_ok prefix_frames else io_err Rollback))))))))"

definition frame_size :: "bytes \<Rightarrow> u64" where
  "frame_size payload = of_nat (LENGTH_BYTES + length payload + CHECKSUM_BYTES)"

definition journal_append :: "prims \<Rightarrow> bytes \<Rightarrow> Journal \<Rightarrow> (JournalError, Journal) io" where
  "journal_append P payload j =
     (if \<not> payload_ok payload then io_err InvalidPayload
      else
        io_bind (sys (observe (\<lambda>d. of_nat (length (file_bytes JournalPath d))))) (\<lambda>current_length.
          if saturating_add current_length (frame_size payload) > MAX_JOURNAL_BYTES then io_err JournalFull
          else
            io_bind (sys (write_all JournalPath (frame_length_bytes payload))) (\<lambda>_.
            io_bind (sys (write_all JournalPath payload)) (\<lambda>_.
            io_bind (sys (write_all JournalPath (checksum P (frame_length_bytes payload) payload))) (\<lambda>_.
            io_bind (sys (sync_file JournalPath)) (\<lambda>_.
            let next_hasher = jn_hasher j @ frame P payload in
            io_bind (io_lift (ok_or JournalFull (checked_add (jn_frame_count j) 1))) (\<lambda>next_count.
            io_bind (witness_write P \<lparr>wt_length = saturating_add current_length (frame_size payload),
              wt_frame_count = next_count, wt_journal_digest = sha256 P next_hasher\<rparr>) (\<lambda>_.
            io_ok (j\<lparr>jn_hasher := next_hasher, jn_frame_count := next_count\<rparr>)))))))))"

text \<open>The folds that size a batch and a replacement, and that feed the hasher.\<close>

fun frames_size :: "u64 \<Rightarrow> bytes list \<Rightarrow> JournalError + u64" where
  "frames_size acc [] = Ok acc"
| "frames_size acc (payload # rest) =
     (if \<not> payload_ok payload then Err InvalidPayload
      else rbind (ok_or JournalFull (checked_add acc (frame_size payload))) (\<lambda>acc. frames_size acc rest))"

fun hash_frames :: "prims \<Rightarrow> bytes \<Rightarrow> bytes list \<Rightarrow> JournalError + bytes" where
  "hash_frames P hasher [] = Ok hasher"
| "hash_frames P hasher (payload # rest) =
     rbind (update_frame_hash P hasher payload) (\<lambda>hasher. hash_frames P hasher rest)"

definition write_frame :: "prims \<Rightarrow> bytes \<Rightarrow> (JournalError, unit) io" where
  "write_frame P payload =
     (if \<not> payload_ok payload then io_err InvalidPayload
      else
        io_bind (sys (write_all JournalPath (frame_length_bytes payload))) (\<lambda>_.
        io_bind (sys (write_all JournalPath payload)) (\<lambda>_.
        sys (write_all JournalPath (checksum P (frame_length_bytes payload) payload)))))"

definition journal_append_batch :: "prims \<Rightarrow> bytes list \<Rightarrow> Journal \<Rightarrow> (JournalError, Journal) io" where
  "journal_append_batch P payloads j =
     io_bind (io_lift (frames_size 0 payloads)) (\<lambda>additional_length.
     io_bind (sys (observe (\<lambda>d. of_nat (length (file_bytes JournalPath d))))) (\<lambda>current_length.
       if saturating_add current_length additional_length > MAX_JOURNAL_BYTES then io_err JournalFull
       else
         io_bind (io_each (write_frame P) payloads) (\<lambda>_.
         io_bind (sys (sync_file JournalPath)) (\<lambda>_.
         io_bind (io_lift (ok_or JournalFull (checked_add (jn_frame_count j) (of_nat (length payloads)))))
           (\<lambda>next_count.
         io_bind (io_lift (hash_frames P (jn_hasher j) payloads)) (\<lambda>next_hasher.
         io_bind (witness_write P \<lparr>wt_length = saturating_add current_length additional_length,
           wt_frame_count = next_count, wt_journal_digest = sha256 P next_hasher\<rparr>) (\<lambda>_.
         io_ok (j\<lparr>jn_hasher := next_hasher, jn_frame_count := next_count\<rparr>))))))))"

text \<open>\<^verbatim>\<open>write_frame\<close> and \<^verbatim>\<open>update_frame_hash\<close> for each payload of the replacement.\<close>

fun write_replacement ::
  "prims \<Rightarrow> temp_file \<Rightarrow> bytes \<Rightarrow> bytes list \<Rightarrow> (JournalError, temp_file \<times> bytes) io" where
  "write_replacement P f hasher [] = io_ok (f, hasher)"
| "write_replacement P f hasher (payload # rest) =
     (if \<not> payload_ok payload then io_err InvalidPayload
      else
        io_bind (sys (temp_write f (frame_length_bytes payload))) (\<lambda>f.
        io_bind (sys (temp_write f payload)) (\<lambda>f.
        io_bind (sys (temp_write f (checksum P (frame_length_bytes payload) payload))) (\<lambda>f.
        io_bind (io_lift (update_frame_hash P hasher payload)) (\<lambda>hasher.
        write_replacement P f hasher rest)))))"

definition journal_compact :: "prims \<Rightarrow> bytes list \<Rightarrow> Journal \<Rightarrow> (JournalError, Journal) io" where
  "journal_compact P payloads j =
     io_bind (io_lift (frames_size (of_nat (length JOURNAL_MAGIC)) payloads)) (\<lambda>replacement_size.
       if replacement_size > MAX_JOURNAL_BYTES then io_err JournalFull
       else
         io_bind temporary_sibling (\<lambda>_.
         io_bind (sys create_temp) (\<lambda>f.
         io_bind clear_inherited_acl (\<lambda>_.
         io_bind (validate_temp f) (\<lambda>_.
         io_bind (sys (temp_write f JOURNAL_MAGIC)) (\<lambda>f.
         io_bind (write_replacement P f JOURNAL_MAGIC payloads) (\<lambda>(f, hasher).
         io_bind (sys (temp_sync f)) (\<lambda>f.
         io_bind (sys (rename_temp f JournalPath)) (\<lambda>_.
         io_bind sync_parent (\<lambda>_.
         io_bind (witness_write P \<lparr>wt_length = replacement_size, wt_frame_count = of_nat (length payloads),
           wt_journal_digest = sha256 P hasher\<rparr>) (\<lambda>_.
         io_bind (sys (observe (\<lambda>_. ()))) (\<lambda>_.
         io_ok \<lparr>jn_hasher = hasher, jn_frame_count = of_nat (length payloads)\<rparr>))))))))))))"

definition journal_byte_len :: "Journal \<Rightarrow> (JournalError, nat) io" where
  "journal_byte_len j = sys (observe (\<lambda>d. length (file_bytes JournalPath d)))"

end
