(* ===== verification/Ordered_Map.thy ===== *)
theory Ordered_Map
  imports Prelude
begin

text \<open>
  \<^verbatim>\<open>BTreeMap\<close> as the sorted association list its iterator yields: lookup, insertion, the number
  of entries and the values in key order. The locale states what the clients (the authoritative
  state and the peer directory) rely on.
\<close>

type_synonym ('k, 'v) btree_map = "('k \<times> 'v) list"

definition bt_get :: "('k, 'v) btree_map \<Rightarrow> 'k \<Rightarrow> 'v option" where
  "bt_get m k = map_of m k"

fun bt_insert :: "'k::linorder \<Rightarrow> 'v \<Rightarrow> ('k, 'v) btree_map \<Rightarrow> ('k, 'v) btree_map" where
  "bt_insert k v [] = [(k, v)]"
| "bt_insert k v ((a, b) # m) =
     (if k < a then (k, v) # (a, b) # m
      else if k = a then (k, v) # m
      else (a, b) # bt_insert k v m)"

definition bt_values :: "('k, 'v) btree_map \<Rightarrow> 'v list" where
  "bt_values m = map snd m"

definition bt_ok :: "('k::linorder, 'v) btree_map \<Rightarrow> bool" where
  "bt_ok m = strictly_sorted (map fst m)"

section \<open>The interface\<close>

locale ordered_map =
  fixes get :: "'m \<Rightarrow> 'k::linorder \<Rightarrow> 'v option"
    and insert_entry :: "'k \<Rightarrow> 'v \<Rightarrow> 'm \<Rightarrow> 'm"
    and entries :: "'m \<Rightarrow> ('k \<times> 'v) list"
    and ok :: "'m \<Rightarrow> bool"
  assumes get_insert: "ok m \<Longrightarrow> get (insert_entry k v m) k' = (if k' = k then Some v else get m k')"
    and ok_insert: "ok m \<Longrightarrow> ok (insert_entry k v m)"
    and entries_sorted: "ok m \<Longrightarrow> sorted_wrt (<) (map fst (entries m))"
    and get_entries: "ok m \<Longrightarrow> get m k = Some v \<longleftrightarrow> (k, v) \<in> set (entries m)"
begin

lemma keys_distinct: "ok m \<Longrightarrow> distinct (map fst (entries m))"
  using entries_sorted strict_sorted_iff by blast

lemma entries_inj_on:
  assumes "ok m" and "A = set (entries m)"
  shows "inj_on fst A"
  using keys_distinct [OF assms(1)] assms(2) by (simp add: distinct_map)

text \<open>A map is determined by its lookups.\<close>

lemma map_eqI:
  assumes "ok m" and "ok m'" and "\<And>k. get m k = get m' k"
  shows "entries m = entries m'"
proof -
  have same: "set (entries m) = set (entries m')"
    using get_entries [OF assms(1)] get_entries [OF assms(2)] assms(3) by auto
  have "inj_on fst (set (entries m) \<union> set (entries m'))"
    using entries_inj_on [OF assms(1)] same by simp
  moreover have "sorted (map fst (entries m))" "sorted (map fst (entries m'))"
    using entries_sorted [OF assms(1)] entries_sorted [OF assms(2)] strict_sorted_iff by auto
  ultimately show ?thesis
    using map_sorted_distinct_set_unique keys_distinct [OF assms(1)] keys_distinct [OF assms(2)] same
    by blast
qed

lemma set_entries_insert:
  assumes "ok m"
  shows "set (entries (insert_entry k v m)) = insert (k, v) {e \<in> set (entries m). fst e \<noteq> k}"
proof -
  have ok': "ok (insert_entry k v m)" using assms by (rule ok_insert)
  have "(a, b) \<in> set (entries (insert_entry k v m)) \<longleftrightarrow>
      (a, b) \<in> insert (k, v) {e \<in> set (entries m). fst e \<noteq> k}" for a b
  proof -
    have "(a, b) \<in> set (entries (insert_entry k v m)) \<longleftrightarrow> get (insert_entry k v m) a = Some b"
      using get_entries [OF ok'] by simp
    also have "\<dots> \<longleftrightarrow> (if a = k then b = v else get m a = Some b)"
      using get_insert [OF assms] by auto
    also have "\<dots> \<longleftrightarrow> (a, b) \<in> insert (k, v) {e \<in> set (entries m). fst e \<noteq> k}"
      using get_entries [OF assms] by auto
    finally show ?thesis .
  qed
  then show ?thesis by auto
qed

lemma length_insert_new:
  assumes "ok m" and "get m k = None"
  shows "length (entries (insert_entry k v m)) = Suc (length (entries m))"
proof -
  have fresh: "(k, b) \<notin> set (entries m)" for b
    using get_entries [OF assms(1), of k b] assms(2) by simp
  then have same: "{e \<in> set (entries m). fst e \<noteq> k} = set (entries m)" by auto
  have card: "length (entries m') = card (set (entries m'))" if "ok m'" for m'
    using keys_distinct [OF that] by (simp add: distinct_map distinct_card)
  show ?thesis
    using card [OF assms(1)] card [OF ok_insert [OF assms(1)]] fresh
    by (simp add: set_entries_insert [OF assms(1)] same)
qed

end

section \<open>The implementation\<close>

lemma bt_ok_iff: "bt_ok m \<longleftrightarrow> sorted_wrt (<) (map fst m)"
  by (simp add: bt_ok_def strictly_sorted_iff)

lemma bt_get_insert [simp]: "bt_get (bt_insert k v m) k' = (if k' = k then Some v else bt_get m k')"
  by (induction k v m rule: bt_insert.induct) (auto simp: bt_get_def)

lemma keys_bt_insert: "set (map fst (bt_insert k v m)) = insert k (set (map fst m))"
  by (induction k v m rule: bt_insert.induct) auto

lemma bt_ok_insert: "bt_ok m \<Longrightarrow> bt_ok (bt_insert k v m)"
proof (induction k v m rule: bt_insert.induct)
  case (2 k v a b m)
  have "a < x" if "x \<in> set (map fst (bt_insert k v m))" "a < k" for x
    using that "2.prems" keys_bt_insert [of k v m] by (auto simp: bt_ok_iff)
  then show ?case using 2 by (auto simp: bt_ok_iff dest: less_trans)
qed (simp add: bt_ok_iff)

lemma bt_get_mem: "bt_ok m \<Longrightarrow> bt_get m k = Some v \<longleftrightarrow> (k, v) \<in> set m"
  by (auto simp: bt_get_def bt_ok_iff strict_sorted_iff dest: map_of_SomeD)

interpretation bt: ordered_map bt_get bt_insert "\<lambda>m. m" bt_ok
  by unfold_locales (simp_all add: bt_ok_insert bt_get_mem, simp add: bt_ok_iff)

lemma bt_ok_Nil [simp]: "bt_ok []" and bt_ok_single [simp]: "bt_ok [(k, v)]"
  by (simp_all add: bt_ok_iff)

lemma bt_get_Nil [simp]: "bt_get [] k = None"
  and bt_get_single [simp]: "bt_get [(a, b)] k = (if k = a then Some b else None)"
  by (auto simp: bt_get_def)

lemma in_bt_values: "bt_ok m \<Longrightarrow> v \<in> set (bt_values m) \<longleftrightarrow> (\<exists>k. bt_get m k = Some v)"
  by (force simp: bt_values_def bt_get_mem)

lemma length_bt_insert:
  assumes "bt_ok m"
  shows "length (bt_insert k v m) = (if bt_get m k = None then Suc (length m) else length m)"
proof -
  have card: "length m' = card (set (map fst m'))" if "bt_ok m'" for m' :: "('a, 'b) btree_map"
    using bt.keys_distinct [OF that] by (metis distinct_card length_map)
  have "k \<in> set (map fst m) \<longleftrightarrow> bt_get m k \<noteq> None"
    unfolding bt_get_def by (metis map_of_eq_None_iff set_map)
  then show ?thesis
    unfolding card [OF bt_ok_insert [OF assms]] card [OF assms] keys_bt_insert by (auto simp: insert_absorb)
qed

text \<open>Entries of a kind, counted after an insertion and after a removal.\<close>

lemma length_filter_bt_insert:
  "bt_ok m \<Longrightarrow> length (filter Q (bt_insert k v m)) =
     length (filter Q (filter (\<lambda>p. fst p \<noteq> k) m)) + (if Q (k, v) then 1 else 0)"
proof (induction k v m rule: bt_insert.induct)
  case (2 k v a b m)
  have "filter (\<lambda>p. fst p \<noteq> k) m = m" if "k \<le> a"
    using that "2.prems" by (fastforce simp: bt_ok_iff intro!: filter_True)
  moreover have "bt_ok m" using "2.prems" by (simp add: bt_ok_iff)
  ultimately show ?case using 2 by (cases k a rule: linorder_cases) (auto simp del: filter_filter)
qed simp

lemma length_filter_remove:
  "distinct (map fst m) \<Longrightarrow> (k, v) \<in> set m \<Longrightarrow>
     length (filter Q m) = length (filter Q (filter (\<lambda>p. fst p \<noteq> k) m)) + (if Q (k, v) then 1 else 0)"
proof (induction m)
  case (Cons p m)
  have "filter (\<lambda>p. fst p \<noteq> fst p') m = m" if "fst p' \<notin> fst ` set m" for p' :: "'a \<times> 'b"
    using that by (intro filter_True ballI notI) (metis image_eqI)
  then show ?case using Cons by (cases "p = (k, v)") (auto simp del: filter_filter simp: image_iff)
qed simp

lemma bt_ok_filter: "bt_ok m \<Longrightarrow> bt_ok (filter Q m)"
  by (simp add: bt_ok_iff sorted_wrt_map sorted_wrt_filter)

end
