(* ===== verification/State_Event.thy ===== *)
theory State_Event
  imports Invitation Endpoint_Signing Journal Ordered_Map
begin

text \<open>
  The authoritative state (\<^verbatim>\<open>state.rs\<close>) and its events (\<^verbatim>\<open>state/event.rs\<close>): their canonical encoding,
  the device-signed checkpoint, and the replay of a journal into a state.
\<close>

section \<open>State and errors\<close>

definition MAX_HIVE_MEMBERS :: nat where "MAX_HIVE_MEMBERS = 256"
definition AUTHORITATIVE_COMPACTION_THRESHOLD_BYTES :: u64 where
  "AUTHORITATIVE_COMPACTION_THRESHOLD_BYTES = 1024 * 1024"

text \<open>The ownership lock held beside the state is not part of the record: no operation reads it.\<close>

record LocalState =
  ls_identity :: LocalIdentity
  ls_memberships :: "(NodeId, SignedMembership) btree_map"
  ls_revocations :: SignedRevocationList
  ls_generation :: u64
  ls_sequence :: u64
  ls_last_membership_serial :: u64
  ls_event_count :: u64
  ls_journal :: "Journal option"

datatype StateLockError = Storage StorageError | Busy | Io IoErrorKind

datatype StateError =
    Storage StorageError
  | Lock StateLockError
  | Journal JournalError
  | ReadOnlySnapshot
  | Membership MembershipError
  | Revocation RevocationError
  | Invitation InvitationError
  | Record RecordError
  | Encode
  | Decode
  | MissingGenesis
  | InvalidGenesis
  | IdentityMismatch
  | NonCanonical
  | InvalidEvent
  | InvalidSequence
  | InvalidCheckpoint
  | InvalidMembershipSerial
  | RevocationEquivocation
  | RevocationRollback
  | DuplicateMember
  | RevokedMember
  | UnknownMember
  | CannotRevokeSelf
  | HiveFull
  | CounterExhausted
  | AdmissionUnavailable
  | JoinMismatch
  | UnexpectedJoinNode
  | UnexpectedJoinHive
  | UnauthorizedCapability
  | InvalidSystemTime

definition local_membership :: "prims \<Rightarrow> LocalState \<Rightarrow> SignedMembership option" where
  "local_membership P st = bt_get (ls_memberships st) (device_node_id P (li_device (ls_identity st)))"

section \<open>Events\<close>

datatype StateEvent =
    Genesis SignedMembership SignedRevocationList
  | Sequence u64 u64
  | MembershipEvent SignedMembership
  | RevocationEvent SignedRevocationList
  | Checkpoint HiveId NodeId u64 u64 bytes32 bytes64

definition STATE_EVENT_VERSION :: u16 where "STATE_EVENT_VERSION = 1"
definition EVENT_GENESIS :: u8 where "EVENT_GENESIS = 1"
definition EVENT_SEQUENCE :: u8 where "EVENT_SEQUENCE = 2"
definition EVENT_MEMBERSHIP :: u8 where "EVENT_MEMBERSHIP = 3"
definition EVENT_REVOCATION :: u8 where "EVENT_REVOCATION = 4"
definition EVENT_CHECKPOINT :: u8 where "EVENT_CHECKPOINT = 5"
definition CHECKPOINT_VERSION :: u16 where "CHECKPOINT_VERSION = 1"
definition CHECKPOINT_DOMAIN :: bytes where "CHECKPOINT_DOMAIN = ascii ''supgang/state-checkpoint/v1'' @ [0]"
definition CHECKPOINT_SNAPSHOT_DOMAIN :: bytes where
  "CHECKPOINT_SNAPSHOT_DOMAIN = ascii ''supgang/state-checkpoint-snapshot/v1'' @ [0]"
definition CHECKPOINT_SIGNATURE_FIELDS :: u64 where "CHECKPOINT_SIGNATURE_FIELDS = 7"
definition GENESIS_FIELDS :: u64 where "GENESIS_FIELDS = 4"
definition SEQUENCE_FIELDS :: u64 where "SEQUENCE_FIELDS = 4"
definition MEMBERSHIP_FIELDS :: u64 where "MEMBERSHIP_FIELDS = 3"
definition REVOCATION_FIELDS :: u64 where "REVOCATION_FIELDS = 3"
definition CHECKPOINT_FIELDS :: u64 where "CHECKPOINT_FIELDS = 9"

fun encode_event :: "prims \<Rightarrow> StateEvent \<Rightarrow> StateError + bytes" where
  "encode_event P (Genesis membership revocations) =
     rbind (map_err StateError.Membership (encode_signed_membership P membership)) (\<lambda>m.
     rbind (map_err StateError.Revocation (encode_signed_revocations P revocations)) (\<lambda>r.
       Ok (enc_array P GENESIS_FIELDS @ enc_u16 P STATE_EVENT_VERSION @ enc_u8 P EVENT_GENESIS @
         enc_bytes P m @ enc_bytes P r)))"
| "encode_event P (Sequence generation sequence) =
     Ok (enc_array P SEQUENCE_FIELDS @ enc_u16 P STATE_EVENT_VERSION @ enc_u8 P EVENT_SEQUENCE @
       enc_u64 P generation @ enc_u64 P sequence)"
| "encode_event P (MembershipEvent membership) =
     rbind (map_err StateError.Membership (encode_signed_membership P membership)) (\<lambda>m.
       Ok (enc_array P MEMBERSHIP_FIELDS @ enc_u16 P STATE_EVENT_VERSION @ enc_u8 P EVENT_MEMBERSHIP @ enc_bytes P m))"
| "encode_event P (RevocationEvent revocations) =
     rbind (map_err StateError.Revocation (encode_signed_revocations P revocations)) (\<lambda>r.
       Ok (enc_array P REVOCATION_FIELDS @ enc_u16 P STATE_EVENT_VERSION @ enc_u8 P EVENT_REVOCATION @ enc_bytes P r))"
| "encode_event P (Checkpoint hive_id node_id generation sequence snapshot_digest signature) =
     Ok (enc_array P CHECKPOINT_FIELDS @ enc_u16 P STATE_EVENT_VERSION @ enc_u8 P EVENT_CHECKPOINT @
       enc_u16 P CHECKPOINT_VERSION @
       enc_bytes P (be_bytes (hive_bytes hive_id)) @
       enc_bytes P (be_bytes (node_bytes node_id)) @
       enc_u64 P generation @
       enc_u64 P sequence @
       enc_bytes P (be_bytes snapshot_digest) @
       enc_bytes P (be_bytes signature))"

definition state_read_fixed :: "prims \<Rightarrow> bytes \<Rightarrow> StateError + ('a::len word \<times> bytes)" where
  "state_read_fixed P d =
     rbind (ok_or StateError.Decode (dec_bytes P d)) (\<lambda>(bs, d).
     rbind (ok_or InvalidCheckpoint (try_array bs)) (\<lambda>w. Ok (w, d)))"

text \<open>The arm of \<^verbatim>\<open>decode_event\<close> for each tag.\<close>

definition decode_event_body :: "prims \<Rightarrow> u64 \<Rightarrow> u8 \<Rightarrow> bytes \<Rightarrow> StateError + (StateEvent \<times> bytes)" where
  "decode_event_body P fields_count tag d =
     (if tag = EVENT_GENESIS \<and> fields_count = GENESIS_FIELDS then
        rbind (ok_or StateError.Decode (dec_bytes P d)) (\<lambda>(bs, d).
        rbind (map_err StateError.Membership (decode_signed_membership P bs)) (\<lambda>membership.
        rbind (ok_or StateError.Decode (dec_bytes P d)) (\<lambda>(bs, d).
        rbind (map_err StateError.Revocation (decode_signed_revocations P bs)) (\<lambda>revocations.
          Ok (Genesis membership revocations, d)))))
      else if tag = EVENT_SEQUENCE \<and> fields_count = SEQUENCE_FIELDS then
        rbind (ok_or StateError.Decode (dec_u64 P d)) (\<lambda>(generation, d).
        rbind (ok_or StateError.Decode (dec_u64 P d)) (\<lambda>(sequence, d).
          Ok (Sequence generation sequence, d)))
      else if tag = EVENT_MEMBERSHIP \<and> fields_count = MEMBERSHIP_FIELDS then
        rbind (ok_or StateError.Decode (dec_bytes P d)) (\<lambda>(bs, d).
        rbind (map_err StateError.Membership (decode_signed_membership P bs)) (\<lambda>membership.
          Ok (MembershipEvent membership, d)))
      else if tag = EVENT_REVOCATION \<and> fields_count = REVOCATION_FIELDS then
        rbind (ok_or StateError.Decode (dec_bytes P d)) (\<lambda>(bs, d).
        rbind (map_err StateError.Revocation (decode_signed_revocations P bs)) (\<lambda>revocations.
          Ok (RevocationEvent revocations, d)))
      else if tag = EVENT_CHECKPOINT \<and> fields_count = CHECKPOINT_FIELDS then
        rbind (ok_or StateError.Decode (dec_u16 P d)) (\<lambda>(version, d).
        if version \<noteq> CHECKPOINT_VERSION then Err InvalidCheckpoint
        else
          rbind (state_read_fixed P d) (\<lambda>(hive_id, d).
          rbind (state_read_fixed P d) (\<lambda>(node_id, d).
          rbind (ok_or StateError.Decode (dec_u64 P d)) (\<lambda>(generation, d).
          rbind (ok_or StateError.Decode (dec_u64 P d)) (\<lambda>(sequence, d).
          rbind (state_read_fixed P d) (\<lambda>(snapshot_digest, d).
          rbind (state_read_fixed P d) (\<lambda>(signature, d).
            Ok (Checkpoint (HiveId hive_id) (NodeId node_id) generation sequence snapshot_digest signature, d))))))))
      else Err InvalidEvent)"

definition decode_event :: "prims \<Rightarrow> bytes \<Rightarrow> StateError + StateEvent" where
  "decode_event P input =
     rbind (ok_or StateError.Decode (dec_array P input)) (\<lambda>(n, d).
     rbind (ok_or InvalidEvent n) (\<lambda>fields_count.
     rbind (ok_or StateError.Decode (dec_u16 P d)) (\<lambda>(version, d).
       if version \<noteq> STATE_EVENT_VERSION then Err InvalidEvent
       else
         rbind (ok_or StateError.Decode (dec_u8 P d)) (\<lambda>(tag, d).
         rbind (decode_event_body P fields_count tag d) (\<lambda>(event, d).
           if d \<noteq> [] then Err InvalidEvent
           else rbind (encode_event P event) (\<lambda>again.
             if again \<noteq> input then Err StateError.NonCanonical else Ok event))))))"

section \<open>Checkpoints\<close>

definition snapshot_digest :: "prims \<Rightarrow> bytes list \<Rightarrow> bytes32" where
  "snapshot_digest P snapshot =
     sha256 P (CHECKPOINT_SNAPSHOT_DOMAIN @ be_bytes (of_nat (length snapshot) :: u64) @
       concat (map (\<lambda>f. be_bytes (of_nat (length f) :: u64) @ f) snapshot))"

definition checkpoint_signature_payload :: "prims \<Rightarrow> HiveId \<Rightarrow> NodeId \<Rightarrow> u64 \<Rightarrow> u64 \<Rightarrow> bytes32 \<Rightarrow> bytes" where
  "checkpoint_signature_payload P hive_id node_id generation sequence digest =
     enc_array P CHECKPOINT_SIGNATURE_FIELDS @
     enc_u16 P CHECKPOINT_VERSION @
     enc_bytes P (be_bytes (hive_bytes hive_id)) @
     enc_bytes P (be_bytes (node_bytes node_id)) @
     enc_u64 P generation @
     enc_u64 P sequence @
     enc_bytes P (be_bytes digest) @
     enc_str P ''authoritative-state''"

definition signed_checkpoint :: "prims \<Rightarrow> LocalIdentity \<Rightarrow> u64 \<Rightarrow> u64 \<Rightarrow> bytes list \<Rightarrow> StateEvent" where
  "signed_checkpoint P identity generation sequence snapshot =
     (let hive_id = li_hive_id identity;
          node_id = device_node_id P (li_device identity);
          digest = snapshot_digest P snapshot;
          payload = checkpoint_signature_payload P hive_id node_id generation sequence digest;
          signature = device_sign_domain P (li_device identity) CHECKPOINT_DOMAIN payload in
      Checkpoint hive_id node_id generation sequence digest signature)"

section \<open>Replay\<close>

fun apply_replayed :: "prims \<Rightarrow> LocalState \<Rightarrow> StateEvent \<Rightarrow> StateError + LocalState" where
  "apply_replayed P st (Genesis _ _) = Err InvalidGenesis"
| "apply_replayed P st (Checkpoint _ _ _ _ _ _) = Err InvalidCheckpoint"
| "apply_replayed P st (Sequence generation sequence) =
     (if generation \<noteq> ls_generation st then Err InvalidSequence
      else rbind (ok_or CounterExhausted (checked_add (ls_sequence st) 1)) (\<lambda>next.
        if sequence \<noteq> next then Err InvalidSequence
        else Ok (st\<lparr>ls_sequence := sequence, ls_event_count := saturating_add (ls_event_count st) 1\<rparr>)))"
| "apply_replayed P st (MembershipEvent membership) =
     rbind (map_err StateError.Membership
       (verify_membership P membership (li_root_verifying_key (ls_identity st)))) (\<lambda>_.
     rbind (ok_or CounterExhausted (checked_add (ls_last_membership_serial st) 1)) (\<lambda>next.
       if mc_serial (sm_certificate membership) \<noteq> next then Err InvalidMembershipSerial
       else if length (ls_memberships st) \<ge> MAX_HIVE_MEMBERS then Err HiveFull
       else if bt_get (ls_memberships st) (mc_node_id (sm_certificate membership)) \<noteq> None then Err DuplicateMember
       else Ok (st\<lparr>ls_memberships := bt_insert (mc_node_id (sm_certificate membership)) membership (ls_memberships st),
         ls_last_membership_serial := mc_serial (sm_certificate membership),
         ls_event_count := saturating_add (ls_event_count st) 1\<rparr>)))"
| "apply_replayed P st (RevocationEvent revocations) =
     rbind (map_err StateError.Revocation
       (verify_revocations P revocations (li_root_verifying_key (ls_identity st)))) (\<lambda>_.
       if rl_serial (sr_list revocations) \<le> rl_serial (sr_list (ls_revocations st))
         \<or> rl_issued_at (sr_list revocations) < rl_issued_at (sr_list (ls_revocations st))
         \<or> list_ex (\<lambda>node_id. \<not> revocation_contains revocations node_id) (rl_revoked_nodes (sr_list (ls_revocations st)))
       then Err RevocationRollback
       else Ok (st\<lparr>ls_revocations := revocations, ls_event_count := saturating_add (ls_event_count st) 1\<rparr>))"

text \<open>One round of the loop: the frames before it, the state so far and whether a checkpoint was seen.\<close>

definition replay_frame ::
  "prims \<Rightarrow> bytes list \<Rightarrow> bytes \<Rightarrow> LocalState \<times> bool \<Rightarrow> StateError + (LocalState \<times> bool)" where
  "replay_frame P earlier current = (\<lambda>(st, checkpoint_seen).
     rbind (decode_event P current) (\<lambda>event.
       case event of
         Checkpoint hive_id node_id generation sequence expected_digest signature \<Rightarrow>
           if checkpoint_seen \<or> ls_sequence st \<noteq> 0 \<or> generation \<noteq> ls_generation st then Err InvalidCheckpoint
           else if hive_id \<noteq> li_hive_id (ls_identity st) \<or> node_id \<noteq> device_node_id P (li_device (ls_identity st))
           then Err IdentityMismatch
           else
             let actual_digest = snapshot_digest P earlier;
                 payload = checkpoint_signature_payload P hive_id node_id generation sequence expected_digest in
             if actual_digest \<noteq> expected_digest
               \<or> \<not> verify_domain P (device_verifying_key P (li_device (ls_identity st))) CHECKPOINT_DOMAIN payload signature
             then Err InvalidCheckpoint
             else Ok (st\<lparr>ls_sequence := sequence, ls_event_count := saturating_add (ls_event_count st) 1\<rparr>, True)
       | other \<Rightarrow> rbind (apply_replayed P st other) (\<lambda>st. Ok (st, checkpoint_seen))))"

fun replay_loop ::
  "prims \<Rightarrow> bytes list \<Rightarrow> bytes list \<Rightarrow> LocalState \<times> bool \<Rightarrow> StateError + (LocalState \<times> bool)" where
  "replay_loop P earlier [] s = Ok s"
| "replay_loop P earlier (current # rest) s =
     rbind (replay_frame P earlier current s) (replay_loop P (earlier @ [current]) rest)"

definition replay :: "prims \<Rightarrow> LocalIdentity \<Rightarrow> Journal option \<Rightarrow> bytes list \<Rightarrow> StateError + LocalState" where
  "replay P identity journal all_frames =
     (case all_frames of
        [] \<Rightarrow> Err MissingGenesis
      | first # rest \<Rightarrow>
          rbind (decode_event P first) (\<lambda>event.
            case event of
              Genesis founder revocations \<Rightarrow>
                rbind (map_err StateError.Membership (verify_membership P founder (li_root_verifying_key identity))) (\<lambda>_.
                rbind (map_err StateError.Revocation
                  (verify_revocations P revocations (li_root_verifying_key identity))) (\<lambda>_.
                  if mc_hive_id (sm_certificate founder) \<noteq> li_hive_id identity
                    \<or> mc_node_id (sm_certificate founder) \<noteq> device_node_id P (li_device identity)
                    \<or> mc_device_verifying_key (sm_certificate founder) \<noteq> device_verifying_key P (li_device identity)
                  then Err IdentityMismatch
                  else
                    let st = \<lparr>ls_identity = identity,
                      ls_memberships = [(mc_node_id (sm_certificate founder), founder)],
                      ls_revocations = revocations, ls_generation = 0, ls_sequence = 0,
                      ls_last_membership_serial = mc_serial (sm_certificate founder), ls_event_count = 1,
                      ls_journal = journal\<rparr> in
                    rbind (replay_loop P [first] rest (st, False)) (\<lambda>(st, _). Ok st)))
            | _ \<Rightarrow> Err InvalidGenesis))"

end
