(* ===== verification/Stateful.thy ===== *)
theory Stateful
  imports Disk
begin

text \<open>
  Operations of an object that owns a journal: they read and update the object (\<^verbatim>\<open>&mut self\<close>) and the
  disk, and return a \<^verbatim>\<open>Result\<close>. An error keeps the updates made before it, as in the program.
\<close>

type_synonym ('s, 'e, 'a) sio = "'s \<Rightarrow> disk \<Rightarrow> ('e + 'a) \<times> 's \<times> disk"

definition so_ok :: "'a \<Rightarrow> ('s, 'e, 'a) sio" where
  "so_ok x s d = (Ok x, s, d)"

definition so_err :: "'e \<Rightarrow> ('s, 'e, 'a) sio" where
  "so_err e s d = (Err e, s, d)"

definition so_lift :: "'e + 'a \<Rightarrow> ('s, 'e, 'a) sio" where
  "so_lift r s d = (r, s, d)"

definition so_bind :: "('s, 'e, 'a) sio \<Rightarrow> ('a \<Rightarrow> ('s, 'e, 'b) sio) \<Rightarrow> ('s, 'e, 'b) sio" where
  "so_bind m f s d = (case m s d of (r, s, d) \<Rightarrow> case r of Inl e \<Rightarrow> (Err e, s, d) | Inr x \<Rightarrow> f x s d)"

definition so_get :: "('s, 'e, 's) sio" where
  "so_get s d = (Ok s, s, d)"

definition so_modify :: "('s \<Rightarrow> 's) \<Rightarrow> ('s, 'e, unit) sio" where
  "so_modify f s d = (Ok (), f s, d)"

text \<open>The outcome of a journal operation, for the caller to match on.\<close>

definition so_attempt :: "('j, 'a) io \<Rightarrow> ('s, 'e, 'j + 'a) sio" where
  "so_attempt m s d = (case m d of (r, d) \<Rightarrow> (Ok r, s, d))"

text \<open>The outcome of an operation of the object itself, for the caller to match on.\<close>

definition so_catch :: "('s, 'e, 'a) sio \<Rightarrow> ('s, 'e, 'e + 'a) sio" where
  "so_catch m s d = (case m s d of (r, s, d) \<Rightarrow> (Ok r, s, d))"

lemma so_simps [simp]:
  "so_bind (so_ok x) f = f x" "so_bind (so_err e) f = so_err e"
  "so_bind (so_lift (Inr x)) f = f x" "so_bind (so_lift (Inl e)) f = so_err e"
  by (auto simp: so_bind_def so_ok_def so_err_def so_lift_def fun_eq_iff)

lemma so_run:
  "so_ok x s d = (Ok x, s, d)" "so_err e s d = (Err e, s, d)" "so_lift r s d = (r, s, d)"
  "so_get s d = (Ok s, s, d)" "so_modify f s d = (Ok (), f s, d)"
  by (simp_all add: so_ok_def so_err_def so_lift_def so_get_def so_modify_def)

lemma so_bind_get [simp]: "so_bind so_get f s d = f s s d"
  by (simp add: so_bind_def so_get_def)

lemma so_bind_modify [simp]: "so_bind (so_modify g) f s d = f () (g s) d"
  by (simp add: so_bind_def so_modify_def)

lemma so_bind_lift: "so_bind (so_lift r) f s d = (case r of Inl e \<Rightarrow> (Err e, s, d) | Inr x \<Rightarrow> f x s d)"
  by (simp add: so_bind_def so_lift_def)

lemma so_bind_attempt: "so_bind (so_attempt m) f s d = (case m d of (r, d) \<Rightarrow> f r s d)"
  by (simp add: so_bind_def so_attempt_def split: prod.splits)

lemma so_bind_catch: "so_bind (so_catch m) f s d = (case m s d of (r, s, d) \<Rightarrow> f r s d)"
  by (simp add: so_bind_def so_catch_def split: prod.splits)

lemma so_bind_assoc: "so_bind (so_bind m f) g = so_bind m (\<lambda>x. so_bind (f x) g)"
  by (auto simp: so_bind_def fun_eq_iff split: prod.splits sum.splits)

section \<open>Reasoning under every fault schedule\<close>

text \<open>
  As \<open>spec\<close>, for an operation started on the object \<open>st\<close>: the assertions after it speak of the object and
  of the slots.
\<close>

definition sspec ::
  "bool \<Rightarrow> u32 \<Rightarrow> 's \<Rightarrow> (slots \<Rightarrow> bool) \<Rightarrow> ('s, 'e, 'a) sio \<Rightarrow> ('a \<Rightarrow> 's \<Rightarrow> slots \<Rightarrow> bool) \<Rightarrow>
    ('s \<Rightarrow> slots \<Rightarrow> bool) \<Rightarrow> bool" where
  "sspec s u st I m Q E \<longleftrightarrow> (\<forall>d. dk_uid d = u \<and> I (dk_cells d) \<longrightarrow>
     (case m st d of (r, st', d') \<Rightarrow> outcome_ok s u (\<lambda>x. Q x st') (E st') d (r, d')))"

lemma sspecD:
  "sspec s u st I m Q E \<Longrightarrow> dk_uid d = u \<Longrightarrow> I (dk_cells d) \<Longrightarrow> m st d = (r, st', d') \<Longrightarrow>
     outcome_ok s u (\<lambda>x. Q x st') (E st') d (r, d')"
  by (auto simp: sspec_def)

lemma sspecI:
  "(\<And>d r st' d'. dk_uid d = u \<Longrightarrow> I (dk_cells d) \<Longrightarrow> m st d = (r, st', d') \<Longrightarrow>
     outcome_ok s u (\<lambda>x. Q x st') (E st') d (r, d')) \<Longrightarrow> sspec s u st I m Q E"
  by (auto simp: sspec_def split: prod.splits)

lemma sspec_ok: "(\<And>c. I c \<Longrightarrow> Q x st c) \<Longrightarrow> sspec s u st I (so_ok x) Q E"
  by (simp add: sspec_def so_run)

lemma sspec_err: "(\<And>c. I c \<Longrightarrow> \<not> s \<and> E st c) \<Longrightarrow> sspec s u st I (so_err e) Q E"
  by (auto simp: sspec_def so_run)

lemma sspec_modify: "(\<And>c. I c \<Longrightarrow> Q () (f st) c) \<Longrightarrow> sspec s u st I (so_modify f) Q E"
  by (simp add: sspec_def so_run)

lemma sspec_get: "sspec s u st I (f st) Q E \<Longrightarrow> sspec s u st I (so_bind so_get f) Q E"
  by (simp add: sspec_def)

lemma sspec_bind_modify: "sspec s u (g st) I (f ()) Q E \<Longrightarrow> sspec s u st I (so_bind (so_modify g) f) Q E"
  by (simp add: sspec_def)

lemma sspec_bind_lift:
  assumes "\<And>x. r = Inr x \<Longrightarrow> sspec s u st I (f x) Q E" and "\<And>e c. r = Inl e \<Longrightarrow> I c \<Longrightarrow> \<not> s \<and> E st c"
  shows "sspec s u st I (so_bind (so_lift r) f) Q E"
  using assms by (cases r) (simp_all add: sspec_err)

lemma sspec_disj:
  "sspec s u st I m Q E \<Longrightarrow> sspec s u st J m Q E \<Longrightarrow> sspec s u st (\<lambda>c. I c \<or> J c) m Q E"
  by (auto simp: sspec_def)

lemma sspec_pure: "(A \<Longrightarrow> sspec s u st I m Q E) \<Longrightarrow> sspec s u st (\<lambda>c. A \<and> I c) m Q E"
  by (auto simp: sspec_def)

lemma sspec_weaken:
  assumes "sspec s u st I' m Q' E'" and "\<And>c. I c \<Longrightarrow> I' c" and "\<And>x st' c. Q' x st' c \<Longrightarrow> Q x st' c"
    and "\<And>st' c. E' st' c \<Longrightarrow> E st' c"
  shows "sspec s u st I m Q E"
proof (rule sspecI)
  fix d r st' d' assume "dk_uid d = u" "I (dk_cells d)" "m st d = (r, st', d')"
  then have "outcome_ok s u (\<lambda>x. Q' x st') (E' st') d (r, d')" using sspecD [OF assms(1)] assms(2) by blast
  then show "outcome_ok s u (\<lambda>x. Q x st') (E st') d (r, d')" using assms(3,4) by (cases r) auto
qed

lemma sspec_lax:
  assumes "sspec s u st I m Q E"
  shows "sspec False u st I m Q E"
proof (rule sspecI)
  fix d r st' d' assume "dk_uid d = u" "I (dk_cells d)" "m st d = (r, st', d')"
  then have "outcome_ok s u (\<lambda>x. Q x st') (E st') d (r, d')" by (rule sspecD [OF assms])
  then show "outcome_ok False u (\<lambda>x. Q x st') (E st') d (r, d')" by (cases r) auto
qed

lemma sspec_bind:
  assumes "sspec s u st I m R E" and "\<And>x st'. sspec s u st' (R x st') (f x) Q E"
  shows "sspec s u st I (so_bind m f) Q E"
proof (rule sspecI)
  fix d r st2 d2 assume d: "dk_uid d = u" "I (dk_cells d)" "so_bind m f st d = (r, st2, d2)"
  obtain r1 st1 d1 where m: "m st d = (r1, st1, d1)" by (cases "m st d")
  have D: "outcome_ok s u (\<lambda>x. R x st1) (E st1) d (r1, d1)" by (rule sspecD [OF assms(1) d(1,2) m])
  show "outcome_ok s u (\<lambda>x. Q x st2) (E st2) d (r, d2)"
  proof (cases r1)
    case (Inl e)
    then show ?thesis using D d(3) m by (auto simp: so_bind_def)
  next
    case (Inr x)
    then have run: "f x st1 d1 = (r, st2, d2)" using m d(3) by (simp add: so_bind_def)
    have "outcome_ok s u (\<lambda>x. Q x st2) (E st2) d1 (r, d2)" using sspecD [OF assms(2) _ _ run] D Inr by simp
    then show ?thesis using D Inr by (cases r) auto
  qed
qed

lemma sspec_attempt:
  assumes "spec s u I m R X" and "\<And>x. sspec s u st (R x) (f (Inr x)) Q E"
    and "\<And>e d d'. I (dk_cells d) \<Longrightarrow> dk_uid d = u \<Longrightarrow> m d = (Inl e, d') \<Longrightarrow> sspec False u st X (f (Inl e)) Q E"
  shows "sspec s u st I (so_bind (so_attempt m) f) Q E"
proof (rule sspecI)
  fix d r st2 d2 assume d: "dk_uid d = u" "I (dk_cells d)" "so_bind (so_attempt m) f st d = (r, st2, d2)"
  obtain r1 d1 where m: "m d = (r1, d1)" by (cases "m d")
  have run: "f r1 st d1 = (r, st2, d2)" using d(3) m by (simp add: so_bind_attempt)
  have D: "outcome_ok s u R X d (r1, d1)" using specD [OF assms(1) d(1,2)] m by simp
  show "outcome_ok s u (\<lambda>x. Q x st2) (E st2) d (r, d2)"
  proof (cases r1)
    case (Inl e)
    then have "outcome_ok False u (\<lambda>x. Q x st2) (E st2) d1 (r, d2)"
      using sspecD [OF assms(3) [OF d(2,1)]] m run D by auto
    then show ?thesis using D Inl by (cases r) auto
  next
    case (Inr x)
    then have "outcome_ok s u (\<lambda>x. Q x st2) (E st2) d1 (r, d2)" using sspecD [OF assms(2)] run D by auto
    then show ?thesis using D Inr by (cases r) auto
  qed
qed

lemma sspec_catch:
  assumes "sspec s u st I m R X" and "\<And>x st'. sspec s u st' (R x st') (f (Inr x)) Q E"
    and "\<And>e d st' d'. I (dk_cells d) \<Longrightarrow> dk_uid d = u \<Longrightarrow> m st d = (Inl e, st', d') \<Longrightarrow>
      sspec False u st' (X st') (f (Inl e)) Q E"
  shows "sspec s u st I (so_bind (so_catch m) f) Q E"
proof (rule sspecI)
  fix d r st2 d2 assume d: "dk_uid d = u" "I (dk_cells d)" "so_bind (so_catch m) f st d = (r, st2, d2)"
  obtain r1 st1 d1 where m: "m st d = (r1, st1, d1)" by (cases "m st d")
  have run: "f r1 st1 d1 = (r, st2, d2)" using d(3) m by (simp add: so_bind_catch)
  have D: "outcome_ok s u (\<lambda>x. R x st1) (X st1) d (r1, d1)" by (rule sspecD [OF assms(1) d(1,2) m])
  show "outcome_ok s u (\<lambda>x. Q x st2) (E st2) d (r, d2)"
  proof (cases r1)
    case (Inl e)
    then have "outcome_ok False u (\<lambda>x. Q x st2) (E st2) d1 (r, d2)"
      using sspecD [OF assms(3) [OF d(2,1)]] m run D by auto
    then show ?thesis using D Inl by (cases r) auto
  next
    case (Inr x)
    then have "outcome_ok s u (\<lambda>x. Q x st2) (E st2) d1 (r, d2)" using sspecD [OF assms(2)] run D by auto
    then show ?thesis using D Inr by (cases r) auto
  qed
qed

section \<open>Reasoning about the object alone\<close>

text \<open>Every run from the object \<open>st\<close>, whatever the disk does, ends in a result and an object that satisfy \<open>Q\<close>.\<close>

definition ends :: "('s, 'e, 'a) sio \<Rightarrow> 's \<Rightarrow> ('e + 'a \<Rightarrow> 's \<Rightarrow> bool) \<Rightarrow> bool" where
  "ends m st Q \<longleftrightarrow> (\<forall>d. case m st d of (r, st', _) \<Rightarrow> Q r st')"

lemma endsD: "ends m st Q \<Longrightarrow> m st d = (r, st', d') \<Longrightarrow> Q r st'"
  by (fastforce simp: ends_def dest: spec [of _ d])

lemma ends_result [simp]:
  "ends (so_ok x) st Q = Q (Ok x) st" "ends (so_err e) st Q = Q (Err e) st" "ends (so_lift r) st Q = Q r st"
  by (simp_all add: ends_def so_run)

lemma ends_get [simp]: "ends so_get st Q = Q (Ok st) st"
  by (simp add: ends_def so_run)

lemma ends_modify [simp]: "ends (so_modify g) st Q = Q (Ok ()) (g st)"
  by (simp add: ends_def so_run)

lemma ends_bind_get [simp]: "ends (so_bind so_get f) st Q = ends (f st) st Q"
  by (simp add: ends_def)

lemma ends_bind_modify [simp]: "ends (so_bind (so_modify g) f) st Q = ends (f ()) (g st) Q"
  by (simp add: ends_def)

lemma ends_bind_lift [simp]:
  "ends (so_bind (so_lift r) f) st Q = (case r of Inl e \<Rightarrow> Q (Err e) st | Inr x \<Rightarrow> ends (f x) st Q)"
  by (simp add: ends_def so_bind_lift split: sum.splits)

lemma ends_weaken: "ends m st Q \<Longrightarrow> (\<And>r st'. Q r st' \<Longrightarrow> R r st') \<Longrightarrow> ends m st R"
  by (fastforce simp: ends_def split: prod.splits)

lemma ends_bind:
  assumes "ends m st (\<lambda>r st'. case r of Inl e \<Rightarrow> Q (Err e) st' | Inr x \<Rightarrow> ends (f x) st' Q)"
  shows "ends (so_bind m f) st Q"
  unfolding ends_def
proof
  fix d
  obtain r st' d' where m: "m st d = (r, st', d')" by (cases "m st d")
  then show "case so_bind m f st d of (r, st', _) \<Rightarrow> Q r st'"
    using endsD [OF assms m] by (auto simp: so_bind_def ends_def split: sum.splits prod.splits)
qed

lemma ends_attempt: "(\<And>r. ends (f r) st Q) \<Longrightarrow> ends (so_bind (so_attempt m) f) st Q"
  by (simp add: ends_def so_bind_attempt case_prod_beta)

lemma ends_catch:
  assumes "ends m st (\<lambda>r st'. ends (f r) st' Q)"
  shows "ends (so_bind (so_catch m) f) st Q"
  unfolding ends_def
proof
  fix d
  obtain r st' d' where m: "m st d = (r, st', d')" by (cases "m st d")
  then show "case so_bind (so_catch m) f st d of (r, st', _) \<Rightarrow> Q r st'"
    using endsD [OF assms m] by (simp add: so_bind_catch ends_def)
qed

end
