(* ===== verification/State.thy ===== *)
theory State
  imports State_Event Stateful
begin

text \<open>
  The transitions of the authoritative state (\<^verbatim>\<open>state.rs\<close>) and its compaction (\<^verbatim>\<open>state/compaction.rs\<close>).
  Every transition is encoded and appended to the journal before the state in memory changes; after a
  failed append the journal handle is dropped. The clock is an argument.
\<close>

type_synonym 'a state_op = "(LocalState, StateError, 'a) sio"

definition journal_mut :: "Journal state_op" where
  "journal_mut = so_bind so_get (\<lambda>st. so_lift (ok_or ReadOnlySnapshot (ls_journal st)))"

definition take_journal :: "unit state_op" where
  "take_journal = so_modify (\<lambda>st. st\<lparr>ls_journal := None\<rparr>)"

section \<open>Compaction\<close>

fun membership_frames :: "prims \<Rightarrow> u64 \<Rightarrow> SignedMembership list \<Rightarrow> StateError + (u64 \<times> bytes list)" where
  "membership_frames P expected_serial [] = Ok (expected_serial, [])"
| "membership_frames P expected_serial (membership # rest) =
     rbind (ok_or CounterExhausted (checked_add expected_serial 1)) (\<lambda>expected_serial.
       if mc_serial (sm_certificate membership) \<noteq> expected_serial then Err InvalidMembershipSerial
       else
         rbind (encode_event P (MembershipEvent membership)) (\<lambda>encoded.
         rbind (membership_frames P expected_serial rest) (\<lambda>(expected_serial, more).
           Ok (expected_serial, encoded # more))))"

definition compaction_frames :: "prims \<Rightarrow> LocalState \<Rightarrow> StateError + bytes list" where
  "compaction_frames P st =
     rbind (ok_or IdentityMismatch (local_membership P st)) (\<lambda>own.
     rbind (encode_event P (Genesis own (ls_revocations st))) (\<lambda>genesis.
       let memberships = sort_key (\<lambda>m. mc_serial (sm_certificate m))
             (filter (\<lambda>m. mc_node_id (sm_certificate m) \<noteq> mc_node_id (sm_certificate own))
               (bt_values (ls_memberships st))) in
       rbind (membership_frames P (mc_serial (sm_certificate own)) memberships) (\<lambda>(expected_serial, more).
         if expected_serial \<noteq> ls_last_membership_serial st then Err InvalidMembershipSerial
         else
           let snapshot = genesis # more;
               checkpoint = signed_checkpoint P (ls_identity st) (ls_generation st) (ls_sequence st) snapshot in
           rbind (encode_event P checkpoint) (\<lambda>encoded. Ok (snapshot @ [encoded])))))"

definition compact :: "prims \<Rightarrow> unit state_op" where
  "compact P =
     so_bind so_get (\<lambda>st.
     so_bind (so_lift (compaction_frames P st)) (\<lambda>replacement.
     so_bind journal_mut (\<lambda>journal.
     so_bind (so_attempt (journal_compact P replacement journal)) (\<lambda>outcome.
       case outcome of
         Inl error \<Rightarrow> so_bind take_journal (\<lambda>_. so_err (StateError.Journal error))
       | Inr journal \<Rightarrow>
           so_modify (\<lambda>st. st\<lparr>ls_journal := Some journal, ls_event_count := of_nat (length replacement)\<rparr>)))))"

definition compact_if_needed :: "prims \<Rightarrow> unit state_op" where
  "compact_if_needed P =
     so_bind journal_mut (\<lambda>journal.
     so_bind (so_attempt (journal_byte_len journal)) (\<lambda>outcome.
       case outcome of
         Inl error \<Rightarrow> so_err (StateError.Journal error)
       | Inr len \<Rightarrow>
           if len \<ge> unat AUTHORITATIVE_COMPACTION_THRESHOLD_BYTES then compact P else so_ok ()))"

section \<open>Appending\<close>

definition is_journal_error :: "StateError \<Rightarrow> bool" where
  "is_journal_error e = (case e of StateError.Journal _ \<Rightarrow> True | _ \<Rightarrow> False)"

definition set_journal :: "Journal \<Rightarrow> unit state_op" where
  "set_journal journal = so_modify (\<lambda>st. st\<lparr>ls_journal := Some journal\<rparr>)"

text \<open>The append after the compaction check: a full journal is compacted once and tried again.\<close>

definition retry_append :: "prims \<Rightarrow> bytes \<Rightarrow> unit state_op" where
  "retry_append P encoded =
     so_bind (compact P) (\<lambda>_.
     so_bind journal_mut (\<lambda>journal.
     so_bind (so_attempt (journal_append P encoded journal)) (\<lambda>outcome.
       case outcome of
         Inr journal \<Rightarrow> set_journal journal
       | Inl error \<Rightarrow> so_bind take_journal (\<lambda>_. so_err (StateError.Journal error)))))"

definition append_or_compact :: "prims \<Rightarrow> bytes \<Rightarrow> unit state_op" where
  "append_or_compact P encoded =
     so_bind journal_mut (\<lambda>journal.
     so_bind (so_attempt (journal_append P encoded journal)) (\<lambda>outcome.
       case outcome of
         Inr journal \<Rightarrow> set_journal journal
       | Inl error \<Rightarrow>
           if error = JournalFull then retry_append P encoded
           else so_bind take_journal (\<lambda>_. so_err (StateError.Journal error))))"

definition append_authoritative :: "prims \<Rightarrow> bytes \<Rightarrow> unit state_op" where
  "append_authoritative P encoded =
     so_bind (so_catch (compact_if_needed P)) (\<lambda>outcome.
       case outcome of
         Inl error \<Rightarrow>
           so_bind (if is_journal_error error then take_journal else so_ok ()) (\<lambda>_. so_err error)
       | Inr _ \<Rightarrow> append_or_compact P encoded)"

section \<open>Transitions\<close>

definition reserve_next_sequence :: "prims \<Rightarrow> u64 state_op" where
  "reserve_next_sequence P =
     so_bind so_get (\<lambda>st.
     so_bind (so_lift (ok_or CounterExhausted (checked_add (ls_sequence st) 1))) (\<lambda>next.
     so_bind (so_lift (encode_event P (Sequence (ls_generation st) next))) (\<lambda>encoded.
     so_bind (append_authoritative P encoded) (\<lambda>_.
     so_bind (so_modify (\<lambda>st. st\<lparr>ls_sequence := next, ls_event_count := saturating_add (ls_event_count st) 1\<rparr>)) (\<lambda>_.
       so_ok next)))))"

definition sign_endpoint_record ::
  "prims \<Rightarrow> PeerName \<Rightarrow> TransportKeyId \<Rightarrow> EndpointClaims \<Rightarrow> u64 \<Rightarrow> u64 \<Rightarrow> SignedEndpointRecord state_op" where
  "sign_endpoint_record P display_name transport_key_id claims issued_at expires_at =
     so_bind so_get (\<lambda>st.
     so_bind (so_lift (ok_or IdentityMismatch (local_membership P st))) (\<lambda>membership.
       if expires_at > mc_expires_at (sm_certificate membership) then so_err (StateError.Record OutlivesMembership)
       else if capabilities_contains (cm_capabilities claims) CAPABILITY_INTRODUCER
         \<and> \<not> roles_contains (mc_roles (sm_certificate membership)) ROLE_INTRODUCER
       then so_err StateError.UnauthorizedCapability
       else if capabilities_contains (cm_capabilities claims) CAPABILITY_CONTROL_RELAY
         \<and> \<not> roles_contains (mc_roles (sm_certificate membership)) ROLE_CONTROL_RELAY
       then so_err StateError.UnauthorizedCapability
       else
         so_bind (so_lift (ok_or CounterExhausted (checked_add (ls_sequence st) 1))) (\<lambda>next.
         let protocol_version = (if cm_services claims = [] then ENDPOINT_RECORD_VERSION_V2 else ENDPOINT_RECORD_VERSION);
             r = canonicalize_candidates \<lparr>er_protocol_version = protocol_version,
               er_hive_id = li_hive_id (ls_identity st), er_node_id = device_node_id P (li_device (ls_identity st)),
               er_display_name = Some display_name, er_transport_key_id = transport_key_id,
               er_generation = ls_generation st, er_sequence = next, er_issued_at = issued_at,
               er_expires_at = expires_at, er_candidates = cm_candidates claims,
               er_capabilities = cm_capabilities claims, er_services = cm_services claims\<rparr> in
         so_bind (so_lift (map_err StateError.Record (endpoint_validate_shape r))) (\<lambda>_.
         so_bind (reserve_next_sequence P) (\<lambda>persisted.
           if persisted \<noteq> next then so_err InvalidSequence
           else so_lift (map_err StateError.Record (sign_endpoint P r (li_device (ls_identity st)))))))))"

definition issue_membership ::
  "prims \<Rightarrow> bytes32 \<Rightarrow> MembershipRoles \<Rightarrow> bytes32 \<Rightarrow> u64 \<Rightarrow> u64 \<Rightarrow> SignedMembership state_op" where
  "issue_membership P device_key roles admission_nonce issued_at expires_at =
     so_bind so_get (\<lambda>st.
       if length (ls_memberships st) \<ge> MAX_HIVE_MEMBERS then so_err HiveFull
       else let node_id = node_from_verifying_key P device_key in
         if revocation_contains (ls_revocations st) node_id then so_err RevokedMember
         else if bt_get (ls_memberships st) node_id \<noteq> None then so_err DuplicateMember
         else
           so_bind (so_lift (ok_or CounterExhausted (checked_add (ls_last_membership_serial st) 1))) (\<lambda>serial.
           let certificate = \<lparr>mc_version = MEMBERSHIP_VERSION, mc_hive_id = li_hive_id (ls_identity st),
                 mc_node_id = node_id, mc_device_verifying_key = device_key, mc_serial = serial,
                 mc_issued_at = issued_at, mc_expires_at = expires_at, mc_roles = roles,
                 mc_admission_nonce = admission_nonce\<rparr> in
           so_bind (so_lift (ok_or AdmissionUnavailable (li_root (ls_identity st)))) (\<lambda>root.
           so_bind (so_lift (map_err StateError.Membership (sign_membership P certificate root))) (\<lambda>membership.
           so_bind (so_lift (encode_event P (MembershipEvent membership))) (\<lambda>encoded.
           so_bind (append_authoritative P encoded) (\<lambda>_.
           so_bind (so_modify (\<lambda>st. st\<lparr>ls_memberships := bt_insert node_id membership (ls_memberships st),
               ls_last_membership_serial := serial,
               ls_event_count := saturating_add (ls_event_count st) 1\<rparr>)) (\<lambda>_.
             so_ok membership)))))))"

definition authorize_join_request ::
  "prims \<Rightarrow> JoinRequest \<Rightarrow> NodeId \<Rightarrow> MembershipRoles \<Rightarrow> u64 \<Rightarrow> u64 \<Rightarrow> SignedMembership state_op" where
  "authorize_join_request P request expected_node roles issued_at expires_at =
     so_bind (so_lift (map_err StateError.Invitation (verify_join_request P request))) (\<lambda>key.
       let node_id = node_from_verifying_key P key in
       if node_id \<noteq> expected_node then so_err UnexpectedJoinNode
       else so_bind so_get (\<lambda>st.
         case bt_get (ls_memberships st) node_id of
           Some existing \<Rightarrow>
             if mc_device_verifying_key (sm_certificate existing) = jr_device_verifying_key request
               \<and> mc_admission_nonce (sm_certificate existing) = jr_nonce request
             then so_ok existing else so_err JoinMismatch
         | None \<Rightarrow> issue_membership P key roles (jr_nonce request) issued_at expires_at))"

definition persist_revocations :: "prims \<Rightarrow> SignedRevocationList \<Rightarrow> unit state_op" where
  "persist_revocations P revocations =
     so_bind (so_lift (encode_event P (RevocationEvent revocations))) (\<lambda>encoded.
     so_bind (append_authoritative P encoded) (\<lambda>_.
       so_modify (\<lambda>st. st\<lparr>ls_revocations := revocations,
         ls_event_count := saturating_add (ls_event_count st) 1\<rparr>)))"

definition revoke :: "prims \<Rightarrow> NodeId \<Rightarrow> u64 \<Rightarrow> SignedRevocationList state_op" where
  "revoke P node_id issued_at =
     so_bind so_get (\<lambda>st.
       let current = sr_list (ls_revocations st) in
       if node_id = device_node_id P (li_device (ls_identity st)) then so_err CannotRevokeSelf
       else if bt_get (ls_memberships st) node_id = None then so_err UnknownMember
       else if revocation_contains (ls_revocations st) node_id then so_ok (ls_revocations st)
       else if issued_at < rl_issued_at current then so_err RevocationRollback
       else
         so_bind (so_lift (ok_or AdmissionUnavailable (li_root (ls_identity st)))) (\<lambda>root.
         so_bind (so_lift (ok_or CounterExhausted (checked_add (rl_serial current) 1))) (\<lambda>serial.
         let revoked_nodes = sort (rl_revoked_nodes current @ [node_id]) in
         so_bind (so_lift (map_err StateError.Revocation (sign_revocations P
             \<lparr>rl_version = REVOCATION_VERSION, rl_hive_id = li_hive_id (ls_identity st), rl_serial = serial,
              rl_issued_at = issued_at, rl_revoked_nodes = revoked_nodes\<rparr> root))) (\<lambda>revocations.
         so_bind (persist_revocations P revocations) (\<lambda>_. so_ok revocations)))))"

definition merge_revocations :: "prims \<Rightarrow> SignedRevocationList \<Rightarrow> bool state_op" where
  "merge_revocations P incoming =
     so_bind so_get (\<lambda>st.
       let current = sr_list (ls_revocations st) in
       so_bind (so_lift (map_err StateError.Revocation
         (verify_revocations P incoming (li_root_verifying_key (ls_identity st))))) (\<lambda>_.
         if rl_serial (sr_list incoming) < rl_serial current then so_ok False
         else if rl_serial (sr_list incoming) = rl_serial current then
           if incoming = ls_revocations st then so_ok False else so_err RevocationEquivocation
         else if rl_issued_at (sr_list incoming) < rl_issued_at current
           \<or> list_ex (\<lambda>node_id. \<not> revocation_contains incoming node_id) (rl_revoked_nodes current)
         then so_err RevocationRollback
         else if rl_revoked_nodes (sr_list incoming) = rl_revoked_nodes current then so_ok False
         else so_bind (persist_revocations P incoming) (\<lambda>_. so_ok True)))"

section \<open>Opening, founding and joining\<close>

definition open_journal :: "prims \<Rightarrow> (StateError, Journal \<times> bytes list) io" where
  "open_journal P = io_map_err (\<lambda>e. StateError.Storage (StorageError.Journal e)) (journal_open P)"

definition state_open :: "prims \<Rightarrow> LocalIdentity \<Rightarrow> (StateError, LocalState) io" where
  "state_open P identity =
     io_bind (open_journal P) (\<lambda>(journal, all_frames). io_lift (replay P identity (Some journal) all_frames))"

definition state_open_read_only :: "prims \<Rightarrow> LocalIdentity \<Rightarrow> (StateError, LocalState) io" where
  "state_open_read_only P identity =
     io_bind (io_map_err (\<lambda>e. StateError.Storage (StorageError.Journal e)) (journal_read P)) (\<lambda>all_frames.
       io_lift (replay P identity None all_frames))"

text \<open>\<^verbatim>\<open>initialize\<close> once the identity and the empty journal are there.\<close>

definition found_hive :: "prims \<Rightarrow> LocalIdentity \<Rightarrow> Journal \<Rightarrow> u64 \<Rightarrow> (StateError, LocalState) io" where
  "found_hive P identity journal now =
     (let certificate = \<lparr>mc_version = MEMBERSHIP_VERSION, mc_hive_id = li_hive_id identity,
            mc_node_id = device_node_id P (li_device identity),
            mc_device_verifying_key = device_verifying_key P (li_device identity), mc_serial = 1,
            mc_issued_at = now, mc_expires_at = saturating_add now MAX_MEMBERSHIP_LIFETIME_SECONDS,
            mc_roles = roles_or ROLE_DEVICE ROLE_INTRODUCER, mc_admission_nonce = 0\<rparr> in
      io_bind (io_lift (ok_or AdmissionUnavailable (li_root identity))) (\<lambda>root.
      io_bind (io_lift (map_err StateError.Membership (sign_membership P certificate root))) (\<lambda>founder.
      io_bind (io_lift (map_err StateError.Revocation (empty_revocations P root now))) (\<lambda>revocations.
      io_bind (io_lift (encode_event P (Genesis founder revocations))) (\<lambda>encoded.
      io_bind (io_map_err StateError.Journal (journal_append P encoded journal)) (\<lambda>journal.
      io_ok \<lparr>ls_identity = identity,
        ls_memberships = bt_insert (mc_node_id (sm_certificate founder)) founder [], ls_revocations = revocations,
        ls_generation = 0, ls_sequence = 0, ls_last_membership_serial = 1, ls_event_count = 1,
        ls_journal = Some journal\<rparr>))))))"

text \<open>\<^verbatim>\<open>install_join_bundle\<close> from the loaded pending identity to the synchronized genesis event.\<close>

definition join_genesis :: "prims \<Rightarrow> JoinBundle \<Rightarrow> PendingIdentity \<Rightarrow> u64 \<Rightarrow> (StateError, bytes32) io" where
  "join_genesis P bundle pending now =
     io_bind (io_lift (map_err StateError.Invitation (verify_for_pending P bundle pending now))) (\<lambda>root_key.
     io_bind (io_lift (map_err StateError.Membership
       (membership_validate_time (sm_certificate (jb_membership bundle)) now))) (\<lambda>_.
     io_bind (io_lift (encode_event P (Genesis (jb_membership bundle) (jb_revocations bundle)))) (\<lambda>expected_bytes.
     io_bind (open_journal P) (\<lambda>(journal, all_frames).
     io_bind (case all_frames of
         [] \<Rightarrow> io_bind (io_map_err StateError.Journal (journal_append P expected_bytes journal)) (\<lambda>_. io_ok ())
       | [only] \<Rightarrow> if only = expected_bytes then io_ok () else io_err InvalidGenesis
       | _ \<Rightarrow> io_err InvalidGenesis) (\<lambda>_. io_ok root_key)))))"

text \<open>\<^verbatim>\<open>install_join_bundle\<close> when an identity is already installed, given the state it opens.\<close>

definition rejoin :: "prims \<Rightarrow> LocalState \<Rightarrow> JoinBundle \<Rightarrow> StateError + LocalState" where
  "rejoin P existing bundle =
     rbind (ok_or IdentityMismatch (local_membership P existing)) (\<lambda>own.
       if li_root_verifying_key (ls_identity existing) = jb_root_verifying_key bundle
         \<and> own = jb_membership bundle
         \<and> (rl_serial (sr_list (ls_revocations existing)) > rl_serial (sr_list (jb_revocations bundle))
            \<or> ls_revocations existing = jb_revocations bundle)
       then Ok existing else Err JoinMismatch)"

end
