(* ===== verification/State_Replay.thy ===== *)
theory State_Replay
  imports State "HOL-Library.Multiset"
begin

text \<open>
  What replay computes: the event codec, the invariant every replayed state satisfies, and that the
  frames of a compaction replay to the state they were taken from.
\<close>

section \<open>The event codec\<close>

fun event_wf :: "prims \<Rightarrow> StateEvent \<Rightarrow> bool" where
  "event_wf P (Genesis m r) = (membership_wf P m \<and> revocation_wf r)"
| "event_wf P (MembershipEvent m) = membership_wf P m"
| "event_wf P (RevocationEvent r) = revocation_wf r"
| "event_wf P _ = True"

lemmas event_tags = EVENT_GENESIS_def EVENT_SEQUENCE_def EVENT_MEMBERSHIP_def EVENT_REVOCATION_def
  EVENT_CHECKPOINT_def

lemma decode_event_body_wf: "decode_event_body P n tag d = Ok (e, r) \<Longrightarrow> event_wf P e"
  unfolding decode_event_body_def
  by (auto simp: result_simps dest: decode_signed_membership_canonical decode_signed_revocations_canonical
      split: if_splits prod.splits)

lemma decode_event_canonical: "decode_event P bs = Ok e \<Longrightarrow> encode_event P e = Ok bs \<and> event_wf P e"
  by (auto simp: decode_event_def result_simps dest: decode_event_body_wf split: if_splits prod.splits)

context minicbor
begin

lemma state_read_fixed_enc:
  fixes w :: "'a::len word"
  assumes "LENGTH('a) < 2 ^ 64" and "8 dvd LENGTH('a)"
  shows "state_read_fixed P (enc_bytes P (be_bytes w) @ r) = Ok (w, r)"
    "state_read_fixed P (enc_bytes P (be_bytes w)) = Ok (w, [])"
  using assms by (simp_all add: state_read_fixed_def)

lemma encode_event_ok:
  assumes "event_wf P e"
  shows "\<exists>bs. encode_event P e = Ok bs \<and> bs \<noteq> [] \<and> length bs \<le> 9300"
proof (cases e)
  case (Genesis m r)
  then obtain bm br where "encode_signed_membership P m = Ok bm" "length bm \<le> 250"
    "encode_signed_revocations P r = Ok br" "length br \<le> 8900"
    using encode_signed_membership_ok [of m] encode_signed_revocations_ok [of r] assms by (auto simp: membership_wf_def)
  then show ?thesis
    using Genesis enc_array_nonempty [of GENESIS_FIELDS] length_enc_array(2) [of GENESIS_FIELDS]
      length_enc_u16 [of STATE_EVENT_VERSION] length_enc_u8 [of EVENT_GENESIS]
      length_enc_bytes_u8 [of bm] length_enc_bytes_u16 [of br] by simp
next
  case (Sequence g n)
  then show ?thesis
    using enc_array_nonempty [of SEQUENCE_FIELDS] length_enc_array(2) [of SEQUENCE_FIELDS]
      length_enc_u16 [of STATE_EVENT_VERSION] length_enc_u8 [of EVENT_SEQUENCE] length_enc_u64 [of g]
      length_enc_u64 [of n] by simp
next
  case (MembershipEvent m)
  then obtain bm where "encode_signed_membership P m = Ok bm" "length bm \<le> 250"
    using encode_signed_membership_ok [of m] assms by (auto simp: membership_wf_def)
  then show ?thesis
    using MembershipEvent enc_array_nonempty [of MEMBERSHIP_FIELDS] length_enc_array(2) [of MEMBERSHIP_FIELDS]
      length_enc_u16 [of STATE_EVENT_VERSION] length_enc_u8 [of EVENT_MEMBERSHIP] length_enc_bytes_u8 [of bm] by simp
next
  case (RevocationEvent r)
  then obtain br where "encode_signed_revocations P r = Ok br" "length br \<le> 8900"
    using encode_signed_revocations_ok [of r] assms by auto
  then show ?thesis
    using RevocationEvent enc_array_nonempty [of REVOCATION_FIELDS] length_enc_array(2) [of REVOCATION_FIELDS]
      length_enc_u16 [of STATE_EVENT_VERSION] length_enc_u8 [of EVENT_REVOCATION] length_enc_bytes_u16 [of br] by simp
next
  case (Checkpoint h n g s x y)
  then show ?thesis
    using enc_array_nonempty [of CHECKPOINT_FIELDS] length_enc_array(2) [of CHECKPOINT_FIELDS]
      length_enc_u16 [of STATE_EVENT_VERSION] length_enc_u16 [of CHECKPOINT_VERSION] length_enc_u8 [of EVENT_CHECKPOINT]
      length_enc_bytes32 [of "hive_bytes h"] length_enc_bytes32 [of "node_bytes n"] length_enc_u64 [of g]
      length_enc_u64 [of s] length_enc_bytes32 [of x] length_enc_bytes64 [of y] by simp
qed

lemma decode_encode_event:
  assumes "event_wf P e" and "encode_event P e = Ok bs"
  shows "decode_event P bs = Ok e"
proof (cases e)
  case (Genesis m r)
  then obtain bm br where enc: "encode_signed_membership P m = Ok bm" "length bm \<le> 250"
    "encode_signed_revocations P r = Ok br" "length br \<le> 8900"
    using encode_signed_membership_ok [of m] encode_signed_revocations_ok [of r] assms(1) by (auto simp: membership_wf_def)
  then have "decode_signed_membership P bm = Ok m" "decode_signed_revocations P br = Ok r"
    using assms(1) Genesis decode_encode_signed_membership decode_encode_signed_revocations by simp_all
  then show ?thesis
    using assms(2) Genesis enc by (auto simp: decode_event_def decode_event_body_def cbor_simps event_tags)
next
  case (Sequence g n)
  then show ?thesis
    using assms(2) by (auto simp: decode_event_def decode_event_body_def cbor_simps event_tags)
next
  case (MembershipEvent m)
  then obtain bm where enc: "encode_signed_membership P m = Ok bm" "length bm \<le> 250"
    using encode_signed_membership_ok [of m] assms(1) by (auto simp: membership_wf_def)
  then have "decode_signed_membership P bm = Ok m"
    using assms(1) MembershipEvent decode_encode_signed_membership by simp
  then show ?thesis
    using assms(2) MembershipEvent enc by (auto simp: decode_event_def decode_event_body_def cbor_simps event_tags)
next
  case (RevocationEvent r)
  then obtain br where enc: "encode_signed_revocations P r = Ok br" "length br \<le> 8900"
    using encode_signed_revocations_ok [of r] assms(1) by auto
  then have "decode_signed_revocations P br = Ok r"
    using assms(1) RevocationEvent decode_encode_signed_revocations by simp
  then show ?thesis
    using assms(2) RevocationEvent enc by (auto simp: decode_event_def decode_event_body_def cbor_simps event_tags)
next
  case (Checkpoint h n g s x y)
  then show ?thesis
    using assms(2)
    by (auto simp: decode_event_def decode_event_body_def cbor_simps event_tags state_read_fixed_enc)
qed

end

sublocale minicbor \<subseteq> event_codec: canonical_codec "encode_event P" "decode_event P" "event_wf P"
  by unfold_locales (blast dest: decode_encode_event decode_event_canonical)+

section \<open>Replaying in steps\<close>

lemma replay_loop_append:
  "replay_loop P earlier (xs @ ys) s = rbind (replay_loop P earlier xs s) (replay_loop P (earlier @ xs) ys)"
  by (induction xs arbitrary: earlier s) (auto simp: rbind_def split: sum.splits)


text \<open>A frame that decodes to an event other than a checkpoint acts by that event alone.\<close>

fun is_checkpoint :: "StateEvent \<Rightarrow> bool" where
  "is_checkpoint (Checkpoint _ _ _ _ _ _) = True"
| "is_checkpoint _ = False"

lemma replay_frame_event:
  "decode_event P f = Ok e \<Longrightarrow> \<not> is_checkpoint e \<Longrightarrow>
     replay_frame P earlier f (st, seen) = rbind (apply_replayed P st e) (\<lambda>st. Ok (st, seen))"
  by (cases e) (simp_all add: replay_frame_def)

definition genesis_ok :: "prims \<Rightarrow> LocalIdentity \<Rightarrow> SignedMembership \<Rightarrow> SignedRevocationList \<Rightarrow> bool" where
  "genesis_ok P identity founder revocations \<longleftrightarrow>
     verify_membership P founder (li_root_verifying_key identity) = Ok () \<and>
     verify_revocations P revocations (li_root_verifying_key identity) = Ok () \<and>
     mc_hive_id (sm_certificate founder) = li_hive_id identity \<and>
     mc_node_id (sm_certificate founder) = device_node_id P (li_device identity) \<and>
     mc_device_verifying_key (sm_certificate founder) = device_verifying_key P (li_device identity)"

definition genesis_state ::
  "LocalIdentity \<Rightarrow> SignedMembership \<Rightarrow> SignedRevocationList \<Rightarrow> Journal option \<Rightarrow> LocalState" where
  "genesis_state identity founder revocations j =
     \<lparr>ls_identity = identity, ls_memberships = [(mc_node_id (sm_certificate founder), founder)],
      ls_revocations = revocations, ls_generation = 0, ls_sequence = 0,
      ls_last_membership_serial = mc_serial (sm_certificate founder), ls_event_count = 1, ls_journal = j\<rparr>"

lemma replay_Cons:
  assumes "decode_event P first = Ok (Genesis founder revocations)" and "genesis_ok P identity founder revocations"
  shows "replay P identity j (first # rest) =
    rbind (replay_loop P [first] rest (genesis_state identity founder revocations j, False)) (\<lambda>(st, _). Ok st)"
  using assms by (simp add: replay_def genesis_ok_def genesis_state_def)

lemma replay_OkE:
  assumes "replay P identity j fs = Ok st"
  obtains first rest founder revocations seen where "fs = first # rest"
    "decode_event P first = Ok (Genesis founder revocations)" "genesis_ok P identity founder revocations"
    "replay_loop P [first] rest (genesis_state identity founder revocations j, False) = Ok (st, seen)"
proof -
  obtain first rest e where fs: "fs = first # rest" and e: "decode_event P first = Ok e"
    using assms by (cases fs) (auto simp: replay_def result_simps)
  then show thesis
    using assms that unfolding replay_def genesis_ok_def genesis_state_def
    by (cases e) (auto simp: result_simps Let_def)
qed

lemma replay_extend:
  assumes "replay P identity j fs = Ok st" and "decode_event P f = Ok e" and "\<not> is_checkpoint e"
    and "apply_replayed P st e = Ok st'"
  shows "replay P identity j (fs @ [f]) = Ok st'"
  using assms(1)
proof (rule replay_OkE)
  fix first rest founder revocations seen
  assume "fs = first # rest" "decode_event P first = Ok (Genesis founder revocations)"
    "genesis_ok P identity founder revocations"
    "replay_loop P [first] rest (genesis_state identity founder revocations j, False) = Ok (st, seen)"
  then show ?thesis
    using assms(4) by (simp add: replay_Cons replay_loop_append replay_frame_event [OF assms(2,3)])
qed

text \<open>The journal handle is carried along untouched.\<close>

lemma apply_replayed_journal:
  "apply_replayed P (st\<lparr>ls_journal := j\<rparr>) e = map_sum id (\<lambda>st. st\<lparr>ls_journal := j\<rparr>) (apply_replayed P st e)"
  by (cases e) (auto simp: rbind_def split: sum.splits if_splits)

lemma replay_frame_journal:
  "replay_frame P earlier f (st\<lparr>ls_journal := j\<rparr>, seen) =
     map_sum id (\<lambda>(st, seen). (st\<lparr>ls_journal := j\<rparr>, seen)) (replay_frame P earlier f (st, seen))"
proof (cases "decode_event P f")
  case (Inr e)
  then show ?thesis
  proof (cases "is_checkpoint e")
    case False
    then show ?thesis using Inr by (auto simp: replay_frame_event apply_replayed_journal rbind_def split: sum.splits)
  next
    case True
    then show ?thesis using Inr by (cases e) (simp_all add: replay_frame_def Let_def)
  qed
qed (simp add: replay_frame_def)

lemma replay_loop_journal:
  "replay_loop P earlier fs (st\<lparr>ls_journal := j\<rparr>, seen) =
     map_sum id (\<lambda>(st, seen). (st\<lparr>ls_journal := j\<rparr>, seen)) (replay_loop P earlier fs (st, seen))"
  by (induction fs arbitrary: earlier st seen)
    (auto simp: replay_frame_journal rbind_def split: sum.splits)

lemma replay_journal:
  assumes "replay P identity j fs = Ok st"
  shows "replay P identity j' fs = Ok (st\<lparr>ls_journal := j'\<rparr>)"
  using assms
proof (rule replay_OkE)
  fix first rest founder revocations seen
  assume "fs = first # rest" "decode_event P first = Ok (Genesis founder revocations)"
    "genesis_ok P identity founder revocations"
    "replay_loop P [first] rest (genesis_state identity founder revocations j, False) = Ok (st, seen)"
  moreover have "genesis_state identity founder revocations j' = (genesis_state identity founder revocations j)\<lparr>ls_journal := j'\<rparr>"
    by (simp add: genesis_state_def)
  ultimately show ?thesis by (simp add: replay_Cons replay_loop_journal)
qed

section \<open>The invariant of replayed states\<close>

abbreviation node_of :: "SignedMembership \<Rightarrow> NodeId" where
  "node_of m \<equiv> mc_node_id (sm_certificate m)"

abbreviation serial_of :: "SignedMembership \<Rightarrow> u64" where
  "serial_of m \<equiv> mc_serial (sm_certificate m)"

text \<open>The member table after admitting \<open>ms\<close> in order to a hive known through \<open>own\<close>.\<close>

definition members :: "SignedMembership \<Rightarrow> SignedMembership list \<Rightarrow> (NodeId, SignedMembership) btree_map" where
  "members own ms = foldl (\<lambda>t m. bt_insert (node_of m) m t) [(node_of own, own)] ms"

definition authority_ok :: "prims \<Rightarrow> LocalState \<Rightarrow> SignedMembership \<Rightarrow> SignedMembership list \<Rightarrow> bool" where
  "authority_ok P st own ms \<longleftrightarrow>
     genesis_ok P (ls_identity st) own (ls_revocations st) \<and>
     ls_memberships st = members own ms \<and> distinct (map node_of (own # ms)) \<and> length ms < MAX_HIVE_MEMBERS \<and>
     (\<forall>m \<in> set ms. verify_membership P m (li_root_verifying_key (ls_identity st)) = Ok ()) \<and>
     map (unat \<circ> serial_of) ms = [Suc (unat (serial_of own))..<Suc (unat (serial_of own) + length ms)] \<and>
     unat (ls_last_membership_serial st) = unat (serial_of own) + length ms \<and>
     ls_generation st = 0"

lemma mset_bt_insert: "bt_get t k = None \<Longrightarrow> mset (bt_insert k v t) = add_mset (k, v) (mset t)"
  by (induction k v t rule: bt_insert.induct) (auto simp: bt_get_def split: if_splits)

lemma members_snoc [simp]: "members own (ms @ [m]) = bt_insert (node_of m) m (members own ms)"
  by (simp add: members_def)

lemma members_get: "bt_get (members own ms) k = None \<longleftrightarrow> k \<notin> set (map node_of (own # ms))"
  by (induction ms rule: rev_induct) (auto simp: members_def)

lemma bt_ok_members: "bt_ok (members own ms)"
  by (induction ms rule: rev_induct) (simp_all add: members_def bt_ok_insert)

lemma mset_members:
  "distinct (map node_of (own # ms)) \<Longrightarrow> mset (members own ms) = mset (map (\<lambda>m. (node_of m, m)) (own # ms))"
proof (induction ms rule: rev_induct)
  case (snoc m ms)
  then have "bt_get (members own ms) (node_of m) = None" by (auto simp: members_get)
  then show ?case using snoc by (simp add: mset_bt_insert)
qed (simp add: members_def)

lemma length_members: "distinct (map node_of (own # ms)) \<Longrightarrow> length (members own ms) = Suc (length ms)"
  using arg_cong [OF mset_members, of own ms size] by simp

lemma members_own: "distinct (map node_of (own # ms)) \<Longrightarrow> bt_get (members own ms) (node_of own) = Some own"
  by (induction ms rule: rev_induct) (auto simp: members_def)

lemma authority_genesis:
  "genesis_ok P identity own revocations \<Longrightarrow> authority_ok P (genesis_state identity own revocations j) own []"
  by (simp add: authority_ok_def genesis_state_def members_def MAX_HIVE_MEMBERS_def)

lemma authority_member:
  assumes "authority_ok P st own ms" and "apply_replayed P st (MembershipEvent m) = Ok st'"
  shows "authority_ok P st' own (ms @ [m])"
proof -
  let ?n = "unat (serial_of own)"
  have fresh: "node_of m \<notin> set (map node_of (own # ms))" "length (members own ms) < MAX_HIVE_MEMBERS"
    and ok: "verify_membership P m (li_root_verifying_key (ls_identity st)) = Ok ()"
    and serial: "checked_add (ls_last_membership_serial st) 1 = Some (serial_of m)"
    and st': "st' = st\<lparr>ls_memberships := bt_insert (node_of m) m (members own ms),
      ls_last_membership_serial := serial_of m, ls_event_count := saturating_add (ls_event_count st) 1\<rparr>"
    using assms by (auto simp: authority_ok_def result_simps members_get not_le)
  have n: "unat (serial_of m) = Suc (?n + length ms)"
    using checked_add_Some [OF serial] assms(1) by (simp add: authority_ok_def)
  have "distinct (map node_of (own # ms))" using assms(1) by (simp add: authority_ok_def)
  then have "Suc (length ms) < MAX_HIVE_MEMBERS" using fresh(2) by (simp add: length_members)
  then show ?thesis
    using assms(1) fresh(1) ok n by (auto simp: authority_ok_def genesis_ok_def st')
qed

lemma authority_apply:
  assumes "authority_ok P st own ms" and "apply_replayed P st e = Ok st'"
  shows "\<exists>ms'. authority_ok P st' own ms' \<and> ls_identity st' = ls_identity st \<and> ls_journal st' = ls_journal st"
proof (cases e)
  case (MembershipEvent m)
  then have "authority_ok P st' own (ms @ [m])" using assms authority_member by simp
  then show ?thesis using assms(2) MembershipEvent by (auto simp: result_simps)
next
  case (Sequence g n)
  then show ?thesis using assms by (auto simp: result_simps authority_ok_def intro!: exI [of _ ms])
next
  case (RevocationEvent r)
  then show ?thesis using assms by (auto simp: result_simps authority_ok_def genesis_ok_def intro!: exI [of _ ms])
qed (use assms in simp_all)

lemma authority_frame:
  assumes "authority_ok P st own ms" and "replay_frame P earlier f (st, seen) = Ok (st', seen')"
  shows "\<exists>ms'. authority_ok P st' own ms' \<and> ls_identity st' = ls_identity st \<and> ls_journal st' = ls_journal st"
proof -
  obtain e where e: "decode_event P f = Ok e" using assms(2) by (auto simp: replay_frame_def result_simps)
  show ?thesis
  proof (cases "is_checkpoint e")
    case False
    then have "apply_replayed P st e = Ok st'"
      using assms(2) by (auto simp: replay_frame_event [OF e] result_simps)
    then show ?thesis by (rule authority_apply [OF assms(1)])
  next
    case True
    then show ?thesis
      using assms e
      by (cases e) (auto simp: replay_frame_def Let_def result_simps authority_ok_def intro!: exI [of _ ms])
  qed
qed

lemma authority_loop:
  assumes "authority_ok P st own ms" and "replay_loop P earlier fs (st, seen) = Ok (st', seen')"
  shows "\<exists>ms'. authority_ok P st' own ms' \<and> ls_identity st' = ls_identity st \<and> ls_journal st' = ls_journal st"
  using assms
proof (induction fs arbitrary: earlier st ms seen)
  case (Cons f fs)
  then obtain st1 seen1 where "replay_frame P earlier f (st, seen) = Ok (st1, seen1)"
    "replay_loop P (earlier @ [f]) fs (st1, seen1) = Ok (st', seen')" by (auto simp: result_simps)
  then show ?case using authority_frame [OF Cons.prems(1)] Cons.IH by metis
qed auto

lemma replay_authority:
  assumes "replay P identity j fs = Ok st"
  shows "\<exists>own ms. authority_ok P st own ms \<and> ls_identity st = identity \<and> ls_journal st = j"
  using assms
proof (rule replay_OkE)
  fix first rest founder revocations seen
  assume "genesis_ok P identity founder revocations"
    "replay_loop P [first] rest (genesis_state identity founder revocations j, False) = Ok (st, seen)"
  then show ?thesis using authority_loop [OF authority_genesis] by (fastforce simp: genesis_state_def)
qed

section \<open>Compaction preserves the state\<close>

lemma others_in_order:
  assumes "authority_ok P st own ms"
  shows "sort_key serial_of (filter (\<lambda>m. node_of m \<noteq> node_of own) (bt_values (ls_memberships st))) = ms"
proof (rule sort_key_inj_key_eq)
  have d: "distinct (map node_of (own # ms))" "ls_memberships st = members own ms"
    and serials: "map (unat \<circ> serial_of) ms = [Suc (unat (serial_of own))..<Suc (unat (serial_of own) + length ms)]"
    using assms by (simp_all add: authority_ok_def)
  have "mset (bt_values (members own ms)) = mset (own # ms)"
    using mset_members [OF d(1)] by (simp add: bt_values_def multiset.map_comp comp_def)
  then have "mset (filter (\<lambda>m. node_of m \<noteq> node_of own) (bt_values (members own ms))) =
      filter_mset (\<lambda>m. node_of m \<noteq> node_of own) (mset (own # ms))" by (simp only: mset_filter)
  also have "\<dots> = mset ms" using d(1) by (auto simp: filter_mset_eq_conv) (metis imageI)
  finally show same: "mset (filter (\<lambda>m. node_of m \<noteq> node_of own) (bt_values (ls_memberships st))) = mset ms"
    using d(2) by simp
  have "distinct (map (unat \<circ> serial_of) ms)" unfolding serials by (rule distinct_upt)
  then have "inj_on serial_of (set ms)" by (auto simp: distinct_map inj_on_def)
  then show "inj_on serial_of (set (filter (\<lambda>m. node_of m \<noteq> node_of own) (bt_values (ls_memberships st))))"
    using mset_eq_setD [OF same] by simp
  have "sorted (map (unat \<circ> serial_of) ms)" unfolding serials by (rule sorted_upt)
  then show "sorted (map serial_of ms)"
    by (simp add: sorted_map word_le_nat_alt)
qed

text \<open>\<open>fs\<close> are the encodings of the admissions of \<open>ms\<close>.\<close>

definition encodes :: "prims \<Rightarrow> bytes list \<Rightarrow> SignedMembership list \<Rightarrow> bool" where
  "encodes P = list_all2 (\<lambda>f m. decode_event P f = Ok (MembershipEvent m) \<and> f \<noteq> [] \<and> length f \<le> 270)"

definition chained :: "u64 \<Rightarrow> SignedMembership list \<Rightarrow> bool" where
  "chained s ms \<longleftrightarrow> map (unat \<circ> serial_of) ms = [Suc (unat s)..<Suc (unat s + length ms)]"

lemma chained_Cons:
  assumes "chained s (m # ms)"
  shows "checked_add s 1 = Some (serial_of m)" "chained (serial_of m) ms"
proof -
  have "[Suc (unat s)..<Suc (unat s + length (m # ms))] =
      Suc (unat s) # [Suc (Suc (unat s))..<Suc (unat s + length (m # ms))]"
    by (subst upt_conv_Cons) simp_all
  then have m: "unat (serial_of m) = Suc (unat s)"
    and ms: "map (unat \<circ> serial_of) ms = [Suc (Suc (unat s))..<Suc (unat s + length (m # ms))]"
    using assms by (simp_all add: chained_def)
  have "unat s + 1 < 2 ^ 64" using unat_less [of "serial_of m"] m by simp
  then show "checked_add s 1 = Some (serial_of m)"
    using m by (simp add: checked_add_def word_unat_eq_iff unat_word_ariths)
  show "chained (serial_of m) ms" using ms m by (simp add: chained_def)
qed

lemma replay_admissions:
  assumes "encodes P fs ms" and "distinct (map node_of (own # ms0 @ ms))" and "length (ms0 @ ms) < MAX_HIVE_MEMBERS"
    and "\<forall>m \<in> set ms. verify_membership P m (li_root_verifying_key (ls_identity st)) = Ok ()"
    and "chained (ls_last_membership_serial st) ms" and "ls_memberships st = members own ms0"
    and "ls_event_count st = of_nat k" and "k + length ms < 2 ^ 64"
  shows "\<exists>l. replay_loop P earlier fs (st, seen) = Ok (st\<lparr>ls_memberships := members own (ms0 @ ms),
      ls_last_membership_serial := l, ls_event_count := of_nat (k + length ms)\<rparr>, seen) \<and>
    unat l = unat (ls_last_membership_serial st) + length ms"
  using assms
proof (induction ms arbitrary: fs ms0 st k earlier)
  case Nil
  then show ?case by (auto simp: encodes_def intro!: exI [of _ "ls_last_membership_serial st"])
next
  case (Cons m ms)
  obtain f gs where fs: "fs = f # gs" and f: "decode_event P f = Ok (MembershipEvent m)" and gs: "encodes P gs ms"
    using Cons.prems(1) by (auto simp: encodes_def list_all2_Cons2)
  note chain = chained_Cons [OF Cons.prems(5)]
  let ?st = "st\<lparr>ls_memberships := members own (ms0 @ [m]), ls_last_membership_serial := serial_of m,
    ls_event_count := of_nat (Suc k)\<rparr>"
  have "k + 1 < 2 ^ LENGTH(64)" using Cons.prems(8) by simp
  from saturating_add_of_nat [OF this] have "saturating_add (of_nat k) 1 = (of_nat (Suc k) :: u64)"
    by (simp only: of_nat_1 Suc_eq_plus1)
  moreover have "length (members own ms0) < MAX_HIVE_MEMBERS" "bt_get (members own ms0) (node_of m) = None"
    using Cons.prems(2,3) length_members [of own ms0] by (auto simp: members_get)
  ultimately have "replay_frame P earlier f (st, seen) = Ok (?st, seen)"
    using Cons.prems(4,6,7) chain(1) by (simp add: replay_frame_event [OF f])
  moreover obtain l where "replay_loop P (earlier @ [f]) gs (?st, seen) = Ok (?st\<lparr>ls_memberships := members own ((ms0 @ [m]) @ ms),
      ls_last_membership_serial := l, ls_event_count := of_nat (Suc k + length ms)\<rparr>, seen)"
    and l: "unat l = unat (serial_of m) + length ms"
    using Cons.IH [OF gs, of "ms0 @ [m]" ?st "Suc k" "earlier @ [f]"] Cons.prems chain(2) by auto
  ultimately show ?case
    using checked_add_Some [OF chain(1)] by (auto simp: fs intro!: exI [of _ l])
qed

context minicbor
begin

lemma encode_admission_ok:
  assumes "membership_wf P m"
  shows "\<exists>bs. encode_event P (MembershipEvent m) = Ok bs \<and> bs \<noteq> [] \<and> length bs \<le> 270"
proof -
  obtain bm where "encode_signed_membership P m = Ok bm" "length bm \<le> 250"
    using encode_signed_membership_ok [of m] assms by (auto simp: membership_wf_def)
  then show ?thesis
    using enc_array_nonempty [of MEMBERSHIP_FIELDS] length_enc_array(2) [of MEMBERSHIP_FIELDS]
      length_enc_u16 [of STATE_EVENT_VERSION] length_enc_u8 [of EVENT_MEMBERSHIP] length_enc_bytes_u8 [of bm] by simp
qed

lemma membership_frames_ok:
  assumes "chained s ms" and "\<forall>m \<in> set ms. membership_wf P m"
  shows "\<exists>l fs. membership_frames P s ms = Ok (l, fs) \<and> encodes P fs ms \<and> unat l = unat s + length ms"
  using assms
proof (induction ms arbitrary: s)
  case (Cons m ms)
  note chain = chained_Cons [OF Cons.prems(1)]
  obtain f where f: "encode_event P (MembershipEvent m) = Ok f" "f \<noteq> []" "length f \<le> 270"
    using encode_admission_ok Cons.prems(2) by (meson list.set_intros(1))
  then have "decode_event P f = Ok (MembershipEvent m)" using decode_encode_event Cons.prems(2) by simp
  moreover obtain l fs where "membership_frames P (serial_of m) ms = Ok (l, fs)" "encodes P fs ms"
    "unat l = unat (serial_of m) + length ms"
    using Cons.IH [OF chain(2)] Cons.prems(2) by auto
  ultimately show ?case
    using f chain(1) checked_add_Some [OF chain(1)] by (auto simp: encodes_def simp del: encode_event.simps)
qed (simp add: encodes_def)

end

context primitives
begin

lemma checkpoint_replays:
  assumes "event_wf P (signed_checkpoint P (ls_identity st) g n earlier) \<Longrightarrow>
      encode_event P (signed_checkpoint P (ls_identity st) g n earlier) = Ok f"
    and "ls_sequence st = 0" and "g = ls_generation st"
  shows "replay_frame P earlier f (st, False) =
    Ok (st\<lparr>ls_sequence := n, ls_event_count := saturating_add (ls_event_count st) 1\<rparr>, True)"
proof -
  have wf: "event_wf P (signed_checkpoint P (ls_identity st) g n earlier)" by (simp add: signed_checkpoint_def Let_def)
  have "decode_event P f = Ok (signed_checkpoint P (ls_identity st) g n earlier)"
    by (rule decode_encode_event [OF wf assms(1) [OF wf]])
  then show ?thesis
    using assms(2,3) by (simp add: replay_frame_def signed_checkpoint_def Let_def device_signature_verifies)
qed

lemma compaction_replays:
  assumes "authority_ok P st own ms"
  shows "\<exists>genesis more last. compaction_frames P st = Ok (genesis # more @ [last]) \<and>
    (\<forall>j. replay P (ls_identity st) j (genesis # more @ [last]) =
       Ok (st\<lparr>ls_journal := j, ls_event_count := of_nat (length more + 2)\<rparr>)) \<and>
    genesis \<noteq> [] \<and> last \<noteq> [] \<and> length genesis \<le> 9300 \<and> length last \<le> 9300 \<and> encodes P more ms \<and> length ms < 256"
proof -
  let ?id = "ls_identity st" and ?rv = "ls_revocations st"
  note inv = assms [unfolded authority_ok_def]
  have "bt_get (members own ms) (node_of own) = Some own" by (rule members_own) (use inv in blast)
  moreover have "device_node_id P (li_device ?id) = node_of own" "ls_memberships st = members own ms"
    using inv by (simp_all add: genesis_ok_def)
  ultimately have own: "local_membership P st = Some own" by (simp add: local_membership_def)
  have wf: "membership_wf P own" "revocation_wf ?rv" "\<forall>m \<in> set ms. membership_wf P m"
    using inv by (auto simp: genesis_ok_def verify_membership_Ok verify_revocations_Ok)
  obtain genesis where genesis: "encode_event P (Genesis own ?rv) = Ok genesis" "genesis \<noteq> []" "length genesis \<le> 9300"
    using encode_event_ok [of "Genesis own ?rv"] wf by auto
  have dec: "decode_event P genesis = Ok (Genesis own ?rv)" using decode_encode_event genesis(1) wf by simp
  have chain: "chained (serial_of own) ms" using inv by (simp add: chained_def)
  obtain l more where more: "membership_frames P (serial_of own) ms = Ok (l, more)" "encodes P more ms"
    "unat l = unat (serial_of own) + length ms" using membership_frames_ok [OF chain wf(3)] by blast
  have l: "l = ls_last_membership_serial st" using more(3) inv by (simp add: word_unat_eq_iff)
  let ?cp = "signed_checkpoint P ?id (ls_generation st) (ls_sequence st) (genesis # more)"
  obtain last where last: "encode_event P ?cp = Ok last" "last \<noteq> []" "length last \<le> 9300"
    using encode_event_ok [of ?cp] by (auto simp: signed_checkpoint_def Let_def)
  have "compaction_frames P st = Ok (genesis # more @ [last])"
    using own genesis(1) more(1) last(1) l others_in_order [OF assms]
    by (simp add: compaction_frames_def Let_def del: encode_event.simps)
  moreover have "replay P ?id j (genesis # more @ [last]) =
      Ok (st\<lparr>ls_journal := j, ls_event_count := of_nat (length more + 2)\<rparr>)" for j
  proof -
    let ?g = "genesis_state ?id own ?rv j"
    have len: "length ms < 256" "length more = length ms"
      using inv more(2) by (simp_all add: MAX_HIVE_MEMBERS_def encodes_def list_all2_lengthD)
    obtain l' where loop: "replay_loop P [genesis] more (?g, False) = Ok (?g\<lparr>ls_memberships := members own ms,
        ls_last_membership_serial := l', ls_event_count := of_nat (1 + length ms)\<rparr>, False)"
      and l': "unat l' = unat (serial_of own) + length ms"
      using replay_admissions [OF more(2), of own "[]" ?g 1 "[genesis]" False] inv chain len
      by (auto simp: genesis_state_def members_def)
    have "l' = l" using l' more(3) by (simp add: word_unat_eq_iff)
    have "1 + length ms + 1 < 2 ^ LENGTH(64)" using len by simp
    note count = saturating_add_of_nat [OF this, unfolded of_nat_1]
    let ?h = "?g\<lparr>ls_memberships := members own ms, ls_last_membership_serial := l',
      ls_event_count := of_nat (1 + length ms)\<rparr>"
    have "replay_frame P (genesis # more) last (?h, False) =
        Ok (?h\<lparr>ls_sequence := ls_sequence st, ls_event_count := saturating_add (ls_event_count ?h) 1\<rparr>, True)"
      by (rule checkpoint_replays) (use last(1) inv in \<open>simp_all add: genesis_state_def\<close>)
    moreover have "replay P ?id j (genesis # more @ [last]) =
        rbind (rbind (replay_loop P [genesis] more (?g, False)) (replay_loop P (genesis # more) [last])) (\<lambda>(st, _). Ok st)"
      using replay_Cons [OF dec] inv by (simp add: replay_loop_append)
    moreover have "saturating_add (of_nat (1 + length ms)) 1 = (of_nat (length more + 2) :: u64)"
      using count len by simp
    ultimately show ?thesis
      using loop inv l \<open>l' = l\<close> by (simp add: genesis_state_def)
  qed
  ultimately show ?thesis
    using genesis last more(2) inv by (auto simp: MAX_HIVE_MEMBERS_def)
qed

end

end
