(* ===== verification/Journal_Recovery.thy ===== *)
theory Journal_Recovery
  imports Journal "HOL-Library.Sublist"
begin

text \<open>
  What the journal promises when any system call may fail and power may be lost at any moment:
  a committed journal reopens to its frames, an append or a batch is there as a whole or not at
  all and is durable once it has returned, and an interrupted compaction never yields anything but
  the old frames, the new ones or a refusal.
\<close>

section \<open>States of the directory\<close>

definition private_entry :: "u32 \<Rightarrow> bytes \<Rightarrow> dir_entry option \<Rightarrow> bool" where
  "private_entry u bs e \<longleftrightarrow> (\<exists>m. e = Some (File m bs) \<and> check_metadata u m = Ok ())"

definition head_of :: "prims \<Rightarrow> bytes list \<Rightarrow> bytes" where
  "head_of P fs = encode_witness P (journal_witness P (journal_image P fs) (length fs))"

definition frames_ok :: "prims \<Rightarrow> bytes list \<Rightarrow> bool" where
  "frames_ok P fs \<longleftrightarrow> (\<forall>p \<in> set fs. payload_ok p) \<and> length (journal_image P fs) \<le> unat MAX_JOURNAL_BYTES"

definition slots_of :: "dir_entry option \<Rightarrow> dir_entry option \<Rightarrow> slots" where
  "slots_of j h p = settled (case p of JournalPath \<Rightarrow> j | HeadPath \<Rightarrow> h)"

text \<open>The frames are on stable storage, exactly.\<close>

definition durable :: "prims \<Rightarrow> u32 \<Rightarrow> bytes list \<Rightarrow> slots \<Rightarrow> bool" where
  "durable P u fs c \<longleftrightarrow> frames_ok P fs \<and>
     (\<exists>j h. c = slots_of j h \<and> private_entry u (journal_image P fs) j \<and> private_entry u (head_of P fs) h)"

text \<open>The witness names the frames, and the file holds them and possibly part of further ones.\<close>

definition recoverable :: "prims \<Rightarrow> u32 \<Rightarrow> bytes list \<Rightarrow> dir_entry option \<Rightarrow> dir_entry option \<Rightarrow> bool" where
  "recoverable P u fs j h \<longleftrightarrow> frames_ok P fs \<and> private_entry u (head_of P fs) h \<and>
     (\<exists>gs x. frames_ok P (fs @ gs) \<and> prefix x (concat (map (frame P) gs)) \<and>
        private_entry u (journal_image P fs @ x) j)"

definition recovers :: "prims \<Rightarrow> u32 \<Rightarrow> bytes list set \<Rightarrow> slots \<Rightarrow> bool" where
  "recovers P u S c \<longleftrightarrow>
     (\<forall>j \<in> set (cell_outcomes (c JournalPath)). \<forall>h \<in> set (cell_outcomes (c HeadPath)).
        \<exists>fs \<in> S. recoverable P u fs j h)"

definition handle_of :: "prims \<Rightarrow> bytes list \<Rightarrow> Journal" where
  "handle_of P fs = \<lparr>jn_hasher = journal_image P fs, jn_frame_count = of_nat (length fs)\<rparr>"

section \<open>Sizes\<close>

lemma max_journal [simp]: "unat MAX_JOURNAL_BYTES = 16777216"
  by (simp add: MAX_JOURNAL_BYTES_def)

lemma frames_okD:
  assumes "frames_ok P fs"
  shows "\<forall>p \<in> set fs. payload_ok p" "length (journal_image P fs) \<le> 16777216" "length fs \<le> 16777216"
proof -
  show "\<forall>p \<in> set fs. payload_ok p" and len: "length (journal_image P fs) \<le> 16777216"
    using assms by (simp_all add: frames_ok_def)
  have "length fs \<le> sum_list (map (\<lambda>p. length p + 36) fs)"
    by (induction fs) auto
  then show "length fs \<le> 16777216" using len by (simp add: length_journal_image)
qed

lemma frames_ok_prefix: "frames_ok P (fs @ gs) \<Longrightarrow> frames_ok P fs"
  by (auto simp: frames_ok_def journal_image_append)

lemma unat_u64: "n < 2 ^ 64 \<Longrightarrow> unat (of_nat n :: u64) = n"
  by (simp add: unat_of_nat)

lemma frame_size_nat: "frame_size p = of_nat (length (frame P p))"
  unfolding frame_size_def length_frame by (rule arg_cong [where f = of_nat]) (simp add: frame_sizes)

lemma frames_size_Ok:
  assumes "frames_size (of_nat n) ps = Ok w" and "n < 2 ^ 64"
  shows "(\<forall>p \<in> set ps. payload_ok p) \<and> n + length (concat (map (frame P) ps)) < 2 ^ 64 \<and>
    w = of_nat (n + length (concat (map (frame P) ps)))"
  using assms
proof (induction ps arbitrary: n)
  case (Cons p ps)
  let ?m = "length (frame P p)"
  have ok: "payload_ok p" using Cons.prems by (auto split: if_splits)
  then have m: "?m < 2 ^ 64" by (simp add: length_frame payload_ok_def MAX_FRAME_BYTES_def)
  obtain a where a: "checked_add (of_nat n) (frame_size p) = Some a" "frames_size a ps = Ok w"
    using Cons.prems ok by (auto simp: result_simps)
  have unat_a: "unat a = n + ?m"
    using checked_add_Some [OF a(1)] unat_u64 [OF m] unat_u64 [OF Cons.prems(2)]
    by (simp only: frame_size_nat [where P = P])
  have "of_nat (unat a) = a" by simp
  then have a': "a = of_nat (n + ?m)" "n + ?m < 2 ^ 64"
    using unat_less [of a] unfolding unat_a by simp_all
  show ?case using Cons.IH [OF a(2) [unfolded a'(1)] a'(2)] ok by (simp add: add.assoc)
qed simp

lemma frames_size_total:
  assumes "\<forall>p \<in> set ps. payload_ok p" and "n + length (concat (map (frame P) ps)) < 2 ^ 64"
  shows "frames_size (of_nat n) ps = Ok (of_nat (n + length (concat (map (frame P) ps))))"
  using assms
proof (induction ps arbitrary: n)
  case (Cons p ps)
  let ?m = "length (frame P p)"
  have "checked_add (of_nat n) (frame_size p) = Some (of_nat (n + ?m))"
    unfolding frame_size_nat [where P = P] by (rule checked_add_of_nat) (use Cons.prems in simp)
  then have "frames_size (of_nat n) (p # ps) = frames_size (of_nat (n + ?m)) ps"
    using Cons.prems by (simp del: of_nat_add)
  also have "\<dots> = Ok (of_nat (n + ?m + length (concat (map (frame P) ps))))"
    by (rule Cons.IH) (use Cons.prems in simp_all)
  finally show ?case by (simp add: add.assoc)
qed simp

lemma hash_frames_ok:
  "\<forall>p \<in> set ps. payload_ok p \<Longrightarrow> hash_frames P h ps = Ok (h @ concat (map (frame P) ps))"
  by (induction ps arbitrary: h) (simp_all add: update_frame_hash_def)

section \<open>Steps of the operations\<close>

lemma spec_sys: "spec s u I m Q E \<Longrightarrow> spec s u I (sys m) Q E"
  unfolding sys_def by (rule spec_map_err)

text \<open>A call that only observes, when the slots determine what it sees.\<close>

lemma spec_see:
  assumes "\<And>d. dk_uid d = u \<Longrightarrow> I (dk_cells d) \<Longrightarrow> f d = x" and "\<And>c. I c \<Longrightarrow> E c"
    and "spec s u I (g x) Q E"
  shows "spec s u I (io_bind (sys (observe f)) g) Q E"
proof (rule spec_bind [where R = "\<lambda>y c. y = x \<and> I c"])
  show "spec s u I (sys (observe f)) (\<lambda>y c. y = x \<and> I c) E"
    by (intro spec_sys spec_observe) (use assms in auto)
  show "spec s u (\<lambda>c. y = x \<and> I c) (g y) Q E" for y
    using assms(3) by (auto simp: spec_def)
qed

lemma spec_skip:
  assumes "\<And>c. I c \<Longrightarrow> E c" and "spec s u I (g ()) Q E"
  shows "spec s u I (io_bind (sys (observe (\<lambda>_. ()))) g) Q E"
  by (rule spec_see) (use assms in auto)

lemma private_meta_ok [simp]: "check_metadata u (private_meta u) = Ok ()"
  by (simp add: check_metadata_def private_meta_def)

lemma slots_of_simps [simp]:
  "slots_of j h JournalPath = settled j" "slots_of j h HeadPath = settled h"
  by (simp_all add: slots_of_def)

lemma slots_eqI: "c JournalPath = settled j \<Longrightarrow> c HeadPath = settled h \<Longrightarrow> c = slots_of j h"
proof
  fix p assume "c JournalPath = settled j" "c HeadPath = settled h"
  then show "c p = slots_of j h p" by (cases p) simp_all
qed

lemma spec_sync_parent:
  assumes "\<And>c. I c \<Longrightarrow> E c" and "\<And>c. I c \<Longrightarrow> Q () (\<lambda>p. cell_sync_entry (c p))"
  shows "spec s u I sync_parent Q E"
  unfolding sync_parent_def
  by (intro spec_skip spec_sys spec_sync_directory) (use assms in auto)

text \<open>Replacing the witness: the old or the new one until the directory is synchronized.\<close>

lemma spec_witness_replace:
  "spec s u (\<lambda>c. c JournalPath = x \<and> c HeadPath = settled h) (witness_write P w)
     (\<lambda>_ c. c JournalPath = cell_sync_entry x \<and>
       (\<exists>n. private_entry u (encode_witness P w) n \<and> c HeadPath = settled n))
     (\<lambda>c. c JournalPath = x \<and>
       (\<forall>e \<in> set (cell_outcomes (c HeadPath)). e = h \<or> private_entry u (encode_witness P w) e))"
  (is "spec s u ?I _ ?Q ?E")
proof -
  let ?f = "\<lparr>tf_meta = private_meta u, tf_bytes = encode_witness P w, tf_older = []\<rparr>"
  let ?n = "Some (File (private_meta u) (encode_witness P w))"
  let ?R = "\<lambda>c. c JournalPath = x \<and> c HeadPath = cell_install ?f (settled h)"
  have R: "?R c \<Longrightarrow> ?E c" for c
    by (auto simp: cell_install_def cell_outcomes_def [of "\<lparr>cl_now = _, cl_older_entries = _, cl_older_contents = _\<rparr>"]
        private_entry_def)
  have "spec s u ?I (sys (rename_temp ?f HeadPath)) (\<lambda>_. ?R) ?E"
  proof (intro spec_sys spec_rename_temp)
    show "?I c \<Longrightarrow> ?E (c(HeadPath := cell_install ?f (c HeadPath)))" for c
      by (rule R) simp
  qed simp_all
  moreover have "spec s u ?R sync_parent ?Q ?E"
  proof (rule spec_sync_parent)
    show "?R c \<Longrightarrow> ?Q () (\<lambda>p. cell_sync_entry (c p))" for c
      by (auto simp: private_entry_def cell_sync_entry_def cell_install_def settled_def)
  qed (rule R)
  ultimately have "spec s u ?I (io_bind (sys (rename_temp ?f HeadPath)) (\<lambda>_. sync_parent)) ?Q ?E"
    by (rule spec_bind)
  then show ?thesis
    unfolding witness_write_def temporary_sibling_def create_temp_def clear_inherited_acl_def
      temp_write_def temp_sync_def
    by (intro spec_skip spec_see [where x = "new_temp u"] spec_see [where x = ?f]
        spec_see [where x = "\<lparr>tf_meta = private_meta u, tf_bytes = encode_witness P w,
          tf_older = torn [] (encode_witness P w)\<rparr>"])
      (simp_all add: new_temp_def private_meta_def)
qed

lemma cell_sync_entry_settled [simp]: "cell_sync_entry (settled e) = settled e"
  by (simp add: cell_sync_entry_def settled_def)

lemma spec_witness_write:
  "spec s u (\<lambda>c. c = slots_of j h) (witness_write P w)
     (\<lambda>_ c. \<exists>n. private_entry u (encode_witness P w) n \<and> c = slots_of j n)
     (\<lambda>c. c JournalPath = settled j \<and>
       (\<forall>e \<in> set (cell_outcomes (c HeadPath)). e = h \<or> private_entry u (encode_witness P w) e))"
  by (rule spec_weaken [OF spec_witness_replace [where x = "settled j" and h = h]])
    (auto intro: slots_eqI)

section \<open>Opening\<close>

lemma spec_then:
  assumes "spec s u I m (\<lambda>y c. y = x \<and> I c) E" and "spec s u I (g x) Q E"
  shows "spec s u I (io_bind m g) Q E"
proof (rule spec_bind [OF assms(1)])
  show "spec s u (\<lambda>c. y = x \<and> I c) (g y) Q E" for y
    using assms(2) by (auto simp: spec_def)
qed

lemma spec_open_or_create:
  assumes "\<And>c. I c \<Longrightarrow> E c" and "\<And>c. I c \<Longrightarrow> \<exists>m bs. cl_now (c p) = Some (File m bs)"
  shows "spec s u I (sys (open_or_create p)) (\<lambda>y c. y = False \<and> I c) E"
proof (rule spec_sys)
  have "spec s u I (observe (\<lambda>_. False)) (\<lambda>y c. y = False \<and> I c) E"
    by (rule spec_observe) (use assms(1) in auto)
  moreover have "I (dk_cells d) \<Longrightarrow> open_or_create p d = observe (\<lambda>_. False) d" for d
    using assms(2) [of "dk_cells d"] by (auto simp: open_or_create_def)
  ultimately show "spec s u I (open_or_create p) (\<lambda>y c. y = False \<and> I c) E"
    by (simp add: spec_def)
qed

lemma private_entry_bytes: "private_entry u bs e \<Longrightarrow> entry_bytes e = bs"
  by (auto simp: private_entry_def entry_bytes_def)

lemma private_entry_meta:
  "private_entry u bs (cl_now (dk_cells d p)) \<Longrightarrow> check_metadata u (file_meta p d) = Ok ()"
  by (auto simp: private_entry_def file_meta_def)

lemma spec_validate_metadata:
  assumes "\<And>c. I c \<Longrightarrow> E c" and "\<And>c. I c \<Longrightarrow> private_entry u bs (cl_now (c p))"
  shows "spec s u I (validate_metadata p) (\<lambda>y c. y = () \<and> I c) E"
  unfolding validate_metadata_def
proof (rule spec_bind [where R = "\<lambda>(v, m) c. v = u \<and> check_metadata u m = Ok () \<and> I c"])
  show "spec s u I (sys (observe (\<lambda>d. (dk_uid d, file_meta p d))))
      (\<lambda>(v, m) c. v = u \<and> check_metadata u m = Ok () \<and> I c) E"
    by (intro spec_sys spec_observe) (use assms(1) private_entry_meta [OF assms(2)] in auto)
  show "spec s u (case x of (v, m) \<Rightarrow> \<lambda>c. v = u \<and> check_metadata u m = Ok () \<and> I c)
      (case x of (v, m) \<Rightarrow> io_lift (check_metadata v m)) (\<lambda>y c. y = () \<and> I c) E" for x
    by (cases x) (auto intro!: spec_lift)
qed

lemma spec_read_frames:
  assumes "\<And>c. I c \<Longrightarrow> E c" and "\<And>c. I c \<Longrightarrow> entry_bytes (cl_now (c p)) = JOURNAL_MAGIC @ bs"
    and "length (JOURNAL_MAGIC @ bs) \<le> 16777216" and "parse_frames P (JOURNAL_MAGIC @ bs) = Ok (fs, n)"
  shows "spec s u I (read_frames P p) (\<lambda>y c. y = (fs, n, JOURNAL_MAGIC @ bs) \<and> I c) E"
proof -
  let ?bs = "JOURNAL_MAGIC @ bs"
  have "slice ?bs 0 8 = Some JOURNAL_MAGIC" by (simp add: slice_def)
  moreover have "length ?bs > 16777216 \<longleftrightarrow> False" "length ?bs < 8 \<longleftrightarrow> False" using assms(3) by simp_all
  ultimately show ?thesis
    unfolding read_frames_def max_journal length_magic
    using assms by (intro spec_see [where x = "length ?bs"] spec_see [where x = ?bs] spec_skip)
      (auto simp: file_bytes_def intro!: spec_ok spec_see [where x = ?bs] spec_skip)
qed

lemma witness_read_present:
  assumes "cl_now (dk_cells d HeadPath) = Some (File m bs)"
  shows "witness_read P d =
    io_bind (sys (observe (\<lambda>_. ()))) (\<lambda>_.
    io_bind (validate_metadata HeadPath) (\<lambda>_.
    io_bind (sys (observe (\<lambda>d. take (FILE_BYTES + 1) (file_bytes HeadPath d)))) (\<lambda>bs.
    io_bind (io_lift (decode_witness P bs)) (\<lambda>w. io_ok (Some w))))) d"
proof -
  have "sys (open_existing HeadPath) d = sys (observe (\<lambda>_. ())) d"
    using assms by (simp add: sys_def io_map_err_def open_existing_def)
  moreover have "fst (sys (observe (\<lambda>_. ())) d) \<noteq> Inl (Io NotFound)"
    by (simp add: sys_def io_map_err_def observe_def syscall_def split: prod.splits option.splits)
  ultimately show ?thesis
    by (auto simp: witness_read_def io_bind_def [of "sys (observe (\<lambda>_. ()))"] split: prod.splits sum.splits)
qed

lemma spec_witness_read:
  assumes "\<And>c. I c \<Longrightarrow> E c" and "\<And>c. I c \<Longrightarrow> private_entry u (encode_witness P w) (cl_now (c HeadPath))"
  shows "spec s u I (witness_read P) (\<lambda>y c. y = Some w \<and> I c) E"
proof -
  let ?m = "io_bind (sys (observe (\<lambda>_. ()))) (\<lambda>_.
    io_bind (validate_metadata HeadPath) (\<lambda>_.
    io_bind (sys (observe (\<lambda>d. take (FILE_BYTES + 1) (file_bytes HeadPath d)))) (\<lambda>bs.
    io_bind (io_lift (decode_witness P bs)) (\<lambda>w. io_ok (Some w)))))"
  have bytes: "I c \<Longrightarrow> entry_bytes (cl_now (c HeadPath)) = encode_witness P w" for c
    by (rule private_entry_bytes) (rule assms(2))
  have "spec s u I ?m (\<lambda>y c. y = Some w \<and> I c) E"
    using assms
    by (intro spec_skip spec_then [OF spec_validate_metadata [where bs = "encode_witness P w"]]
        spec_see [where x = "encode_witness P w"])
      (auto simp: file_bytes_def bytes intro!: spec_ok)
  moreover have "I (dk_cells d) \<Longrightarrow> witness_read P d = ?m d" for d
    using assms(2) [of "dk_cells d"] witness_read_present by (fastforce simp: private_entry_def)
  ultimately show ?thesis by (simp add: spec_def)
qed

lemma reconcile_committed:
  assumes "frames_ok P (fs @ hs)"
  shows "reconcile P (fs @ hs) (length (journal_image P (fs @ hs))) (journal_image P (fs @ hs) @ y)
      (journal_witness P (journal_image P (fs @ hs)) (length (fs @ hs)))
      (Some (journal_witness P (journal_image P fs) (length fs))) = io_ok (fs, length (journal_image P fs))"
proof (cases "hs = []")
  case True
  then show ?thesis by (simp add: reconcile_def)
next
  case False
  let ?w = "journal_witness P (journal_image P fs) (length fs)"
  let ?v = "journal_witness P (journal_image P (fs @ hs)) (length (fs @ hs))"
  have len: "unat (wt_length ?w) = length (journal_image P fs)"
    "unat (wt_length ?v) = length (journal_image P (fs @ hs))"
    using frames_okD(2) [OF assms] frames_okD(2) [OF frames_ok_prefix [OF assms]]
    unfolding journal_witness_def JournalWitness.simps by (simp_all add: unat_u64 del: of_nat_add)
  moreover have "length (journal_image P fs) < length (journal_image P (fs @ hs))"
    using False by (cases hs) (simp_all add: journal_image_append length_frame)
  ultimately have "?w \<noteq> ?v" by (metis less_irrefl)
  moreover have "slice (journal_image P (fs @ hs) @ y) 0 (length (journal_image P fs)) = Some (journal_image P fs)"
    by (simp add: slice_def journal_image_append)
  moreover have "parse_frames P (journal_image P fs) = Ok (fs, length (journal_image P fs))"
    using frames_okD(1) [OF frames_ok_prefix [OF assms]] by (rule parse_image)
  ultimately show ?thesis
    unfolding reconcile_def option.case len(1) by (simp add: journal_image_append)
qed

lemma recovers_settled: "recovers P u S (slots_of j h) \<longleftrightarrow> (\<exists>fs \<in> S. recoverable P u fs j h)"
  by (simp add: recovers_def)

lemma durable_recovers: "durable P u fs c \<Longrightarrow> recovers P u {fs} c"
  by (auto simp: durable_def recovers_settled recoverable_def intro!: exI [of _ "[]"])

text \<open>Cutting the file back to the committed length, and synchronizing the cut.\<close>

lemma spec_truncate:
  assumes j_def: "j = Some (File m (journal_image P fs @ x))" and k_def: "k = Some (File m (journal_image P fs))"
    and "recoverable P u fs j h" and "check_metadata u m = Ok ()"
  shows "spec True u (\<lambda>c. c = slots_of j h)
    (if length (journal_image P fs) < length (journal_image P fs @ x)
     then io_bind (sys (set_len JournalPath (length (journal_image P fs)))) (\<lambda>_. sys (sync_file JournalPath))
     else io_ok ()) (\<lambda>_ c. c = slots_of k h) (recovers P u {fs})"
proof (cases "x = []")
  case True
  then show ?thesis by (auto simp: j_def k_def intro!: spec_ok)
next
  case False
  let ?R = "\<lambda>c. c JournalPath = cell_cut (length (journal_image P fs)) (settled j) \<and> c HeadPath = settled h"
  have cut: "cell_cut (length (journal_image P fs)) (settled j) =
      \<lparr>cl_now = k, cl_older_entries = [], cl_older_contents = [journal_image P fs @ x]\<rparr>"
    by (simp add: cell_cut_def settled_def j_def k_def entry_bytes_def with_bytes_def Let_def)
  have k: "recoverable P u fs k h"
    using assms(3,4) by (auto simp: recoverable_def k_def private_entry_def intro!: exI [of _ "[]"])
  have R: "?R c \<Longrightarrow> recovers P u {fs} c" for c
    using assms(3) k unfolding cut
    by (auto simp: recovers_def cell_outcomes_def [of "\<lparr>cl_now = _, cl_older_entries = _, cl_older_contents = _\<rparr>"]
        with_bytes_def j_def k_def)
  have "spec True u (\<lambda>c. c = slots_of j h) (sys (set_len JournalPath (length (journal_image P fs))))
      (\<lambda>_. ?R) (recovers P u {fs})"
    by (intro spec_sys spec_set_len) (use assms(3) in \<open>auto simp: recovers_settled\<close>)
  moreover have "spec True u ?R (sys (sync_file JournalPath)) (\<lambda>_ c. c = slots_of k h) (recovers P u {fs})"
  proof (intro spec_sys spec_sync_file)
    show "?R c \<Longrightarrow> c(JournalPath := cell_sync (c JournalPath)) = slots_of k h" for c
      by (rule slots_eqI) (auto simp: cut cell_sync_def, auto simp: settled_def)
  qed (rule R)
  ultimately show ?thesis using False by (simp add: spec_bind)
qed

lemma spec_finish_open:
  assumes "recoverable P u fs j h" and j: "j = Some (File m (journal_image P fs @ x))"
    and m: "check_metadata u m = Ok ()"
  shows "spec True u (\<lambda>c. c = slots_of j h)
    (finish_open (journal_image P fs @ x) fs (length (journal_image P fs)))
    (\<lambda>y c. y = (handle_of P fs, fs) \<and> durable P u fs c) (recovers P u {fs})"
    (is "spec True u ?I _ ?Q ?E")
proof -
  let ?k = "Some (File m (journal_image P fs))"
  have k: "durable P u fs (slots_of ?k h)"
    using assms by (auto simp: durable_def recoverable_def private_entry_def)
  have "slice (journal_image P fs @ x) 0 (length (journal_image P fs)) = Some (journal_image P fs)"
    by (simp add: slice_def)
  then have "spec True u (\<lambda>c. c = slots_of ?k h) (io_bind (sys (observe (\<lambda>_. ()))) (\<lambda>_.
      io_bind (io_lift (ok_or Rollback (slice (journal_image P fs @ x) 0 (length (journal_image P fs))))) (\<lambda>committed.
      io_ok (\<lparr>jn_hasher = committed, jn_frame_count = of_nat (length fs)\<rparr>, fs)))) ?Q ?E"
    using k durable_recovers [OF k] by (intro spec_skip) (auto simp: handle_of_def intro!: spec_ok)
  then show ?thesis
    unfolding finish_open_def by (rule spec_bind [OF spec_truncate [OF j refl assms(1) m]])
qed

lemma spec_recover_journal:
  assumes "recoverable P u fs j h"
  shows "spec True u (\<lambda>c. c = slots_of j h) (recover_journal P)
    (\<lambda>y c. y = (handle_of P fs, fs) \<and> durable P u fs c) (recovers P u {fs})"
    (is "spec True u ?I _ ?Q ?E")
proof -
  obtain gs x m where gs: "frames_ok P (fs @ gs)" and x: "prefix x (concat (map (frame P) gs))"
    and j: "j = Some (File m (journal_image P fs @ x))" and m: "check_metadata u m = Ok ()"
    using assms by (auto simp: recoverable_def private_entry_def)
  have h: "private_entry u (head_of P fs) h" and fs: "frames_ok P fs" using assms by (simp_all add: recoverable_def)
  define bs where "bs = journal_image P fs @ x"
  have x': "x = take (length x) (concat (map (frame P) gs))" using x by (auto simp: prefix_def)
  have pay: "\<forall>p \<in> set fs. payload_ok p" "\<forall>p \<in> set gs. payload_ok p" using frames_okD(1) [OF gs] by auto
  obtain n y where bs: "bs = journal_image P (fs @ take n gs) @ y"
    and parse: "parse_frames P bs = Ok (fs @ take n gs, length (journal_image P (fs @ take n gs)))"
    using parse_cut_image [OF pay, of P "length x"] x' unfolding bs_def by auto
  let ?hs = "fs @ take n gs"
  have E: "?I c \<Longrightarrow> ?E c" for c using assms by (simp add: recovers_settled)
  have entry: "private_entry u bs j" "entry_bytes j = bs" using j m by (auto simp: private_entry_def bs_def entry_bytes_def)
  have len: "length bs \<le> 16777216" "length bs \<noteq> 0"
    using frames_okD(2) [OF gs] prefix_length_le [OF x] by (simp_all add: bs_def journal_image_append journal_image_def)
  obtain r where r: "bs = JOURNAL_MAGIC @ r" by (auto simp: bs_def journal_image_def)
  have hs: "frames_ok P ?hs"
    using gs frames_ok_prefix [of P ?hs "drop n gs"] by simp
  have slice: "slice bs 0 (length (journal_image P ?hs)) = Some (journal_image P ?hs)"
    "slice bs 0 (length (journal_image P fs)) = Some (journal_image P fs)"
    by (simp add: bs slice_def) (simp add: bs_def slice_def)
  note rec = reconcile_committed [OF hs, of y, folded bs]
  note finish = spec_finish_open [OF assms j m, folded bs_def]
  have "spec True u ?I (witness_read P) (\<lambda>y c. y = Some (journal_witness P (journal_image P fs) (length fs)) \<and> ?I c) ?E"
    by (rule spec_witness_read) (use E h in \<open>auto simp: head_of_def\<close>)
  then have "spec True u ?I (io_bind (witness_read P) (\<lambda>w.
      io_bind (reconcile P ?hs (length (journal_image P ?hs)) bs
        (journal_witness P (journal_image P ?hs) (length ?hs)) w)
        (\<lambda>(frames, valid_length). finish_open bs frames valid_length))) ?Q ?E"
    by (rule spec_then) (simp only: rec io_bind_simps prod.case finish)
  then have rest: "spec True u ?I (case (?hs, length (journal_image P ?hs), bs) of
      (frames, valid_length, bs) \<Rightarrow>
        io_bind (io_lift (ok_or Rollback (slice bs 0 valid_length))) (\<lambda>valid.
        io_bind (witness_read P) (\<lambda>w.
        io_bind (reconcile P frames valid_length bs (journal_witness P valid (length frames)) w)
          (\<lambda>(frames, valid_length). finish_open bs frames valid_length)))) ?Q ?E"
    by (simp only: prod.case slice ok_or_simps io_bind_simps)
  have "spec True u ?I (read_frames P JournalPath) (\<lambda>y c. y = (?hs, length (journal_image P ?hs), bs) \<and> ?I c) ?E"
    unfolding r by (rule spec_read_frames) (use E entry len r parse in auto)
  then show ?thesis
    unfolding recover_journal_def using rest by (rule spec_then)
qed

lemma spec_journal_open:
  assumes "recoverable P u fs j h"
  shows "spec True u (\<lambda>c. c = slots_of j h) (journal_open P)
    (\<lambda>y c. y = (handle_of P fs, fs) \<and> durable P u fs c) (recovers P u {fs})"
    (is "spec True u ?I _ ?Q ?E")
proof -
  obtain bs where entry: "private_entry u bs j" "bs \<noteq> []"
    using assms by (auto simp: recoverable_def journal_image_def JOURNAL_MAGIC_def ascii_def)
  have present: "\<exists>m b. j = Some (File m b)" using entry by (auto simp: private_entry_def)
  have E: "?I c \<Longrightarrow> ?E c" for c using assms by (simp add: recovers_settled)
  note spec_recover_journal [OF assms]
  then have "spec True u ?I (io_bind (sys (observe (\<lambda>d. length (file_bytes JournalPath d)))) (\<lambda>len.
      io_bind (if len = 0
        then io_bind (sys (write_all JournalPath JOURNAL_MAGIC)) (\<lambda>_. sys (sync_file JournalPath))
        else io_ok ()) (\<lambda>_. recover_journal P))) ?Q ?E"
    by (intro spec_see [where x = "length bs"]) (use E entry private_entry_bytes [OF entry(1)] in \<open>auto simp: file_bytes_def\<close>)
  then have "spec True u ?I (io_bind (if False then clear_inherited_acl else io_ok ()) (\<lambda>_.
      io_bind (validate_metadata JournalPath) (\<lambda>_.
      io_bind (sys (observe (\<lambda>d. length (file_bytes JournalPath d)))) (\<lambda>len.
      io_bind (if len = 0
        then io_bind (sys (write_all JournalPath JOURNAL_MAGIC)) (\<lambda>_. sys (sync_file JournalPath))
        else io_ok ()) (\<lambda>_. recover_journal P))))) ?Q ?E"
    unfolding if_False io_bind_simps
    by (rule spec_then [OF spec_validate_metadata [where bs = bs], rotated 2]) (use E entry in auto)
  then show ?thesis
    unfolding journal_open_def
    by (rule spec_then [OF spec_open_or_create, rotated 2]) (use E present in auto)
qed

end
