(* ===== verification/Journal_Durability.thy ===== *)
theory Journal_Durability
  imports Journal_Recovery
begin

text \<open>
  Appending and compacting under faults and power loss. One frame is a batch of one, so the proofs
  are about batches; a compaction is followed through its rename and its new witness.
\<close>

section \<open>One frame is a batch of one\<close>

lemma frame_size_u64: "payload_ok p \<Longrightarrow> unat (frame_size p) = length (frame P p)"
  unfolding frame_size_nat [where P = P]
  by (rule unat_u64) (simp add: length_frame payload_ok_def MAX_FRAME_BYTES_def)

lemma checked_add_zero [simp]: "checked_add 0 w = Some w"
  using unat_less [of w] by (simp add: checked_add_def)

lemma io_bind_assoc: "io_bind (io_bind m f) g = io_bind m (\<lambda>x. io_bind (f x) g)"
  by (rule ext) (simp add: io_bind_def split: prod.splits sum.splits)

lemma io_bind_ok: "io_bind m (\<lambda>_. io_ok ()) = m" for m :: "('e, unit) io"
  by (rule ext) (simp add: io_bind_def io_ok_def split: prod.splits sum.splits)

lemma append_is_batch: "journal_append P p j = journal_append_batch P [p] j"
  by (simp add: journal_append_def journal_append_batch_def write_frame_def update_frame_hash_def
      io_bind_assoc io_bind_ok Let_def cong: if_cong)

section \<open>The file while it grows\<close>

text \<open>
  \<open>sofar\<close> of the bytes \<open>G\<close> have been written after \<open>base\<close>; every content a power loss may leave is \<open>base\<close> with
  some prefix of them.
\<close>

definition grown :: "FileMeta \<Rightarrow> bytes \<Rightarrow> bytes \<Rightarrow> bytes \<Rightarrow> cell \<Rightarrow> bool" where
  "grown m base G sofar c \<longleftrightarrow> prefix sofar G \<and>
     (\<exists>os. c = \<lparr>cl_now = Some (File m (base @ sofar)), cl_older_entries = [], cl_older_contents = os\<rparr> \<and>
        (\<forall>o' \<in> set os. \<exists>x. prefix x G \<and> o' = base @ x))"

definition appending :: "FileMeta \<Rightarrow> bytes \<Rightarrow> bytes \<Rightarrow> dir_entry option \<Rightarrow> bytes \<Rightarrow> slots \<Rightarrow> bool" where
  "appending m base G h sofar c \<longleftrightarrow> grown m base G sofar (c JournalPath) \<and> c HeadPath = settled h"

lemma grown_extend:
  assumes "grown m base G sofar c" and "prefix (sofar @ bs) G"
  shows "grown m base G (sofar @ bs) (cell_extend bs c)"
proof -
  have "prefix (sofar @ take k bs) G" for k
    using assms(2) by (metis append_take_drop_id prefix_def append.assoc)
  then show ?thesis
    using assms
    by (auto simp: grown_def cell_extend_def entry_bytes_def with_bytes_def torn_def Let_def)
qed

lemma grown_outcomes:
  assumes "grown m base G sofar c" and "e \<in> set (cell_outcomes c)"
  shows "\<exists>x. prefix x G \<and> e = Some (File m (base @ x))"
  using assms by (auto simp: grown_def cell_outcomes_def with_bytes_def)

lemma grown_sync: "grown m base G sofar c \<Longrightarrow> cell_sync c = settled (Some (File m (base @ sofar)))"
  by (auto simp: grown_def cell_sync_def settled_def)

lemma spec_write_chunk:
  assumes "prefix (sofar @ bs) G"
  shows "spec s u (appending m base G h sofar) (sys (write_all JournalPath bs))
    (\<lambda>_. appending m base G h (sofar @ bs)) (\<lambda>c. \<exists>sofar'. appending m base G h sofar' c)"
proof (intro spec_sys spec_write_all)
  fix c t assume c: "appending m base G h sofar c"
  have "prefix (sofar @ take t bs) G"
    using assms by (metis append_take_drop_id prefix_def append.assoc)
  then show "\<exists>sofar'. appending m base G h sofar' (c(JournalPath := cell_extend (take t bs) (c JournalPath)))"
    using c grown_extend [of m base G sofar "c JournalPath" "take t bs"] by (auto simp: appending_def)
next
  fix c assume "appending m base G h sofar c"
  then show "appending m base G h (sofar @ bs) (c(JournalPath := cell_extend bs (c JournalPath)))"
    using assms grown_extend by (auto simp: appending_def)
qed

lemma spec_write_frame:
  assumes "prefix (sofar @ frame P p) G" and "payload_ok p"
  shows "spec s u (appending m base G h sofar) (write_frame P p)
    (\<lambda>_. appending m base G h (sofar @ frame P p)) (\<lambda>c. \<exists>sofar'. appending m base G h sofar' c)"
    (is "spec s u _ _ _ ?E")
proof -
  let ?l = "frame_length_bytes p" and ?c = "checksum P (frame_length_bytes p) p"
  have all: "sofar @ frame P p = ((sofar @ ?l) @ p) @ ?c" by (simp add: frame_def)
  have 1: "prefix ((sofar @ ?l) @ p) G" "prefix (sofar @ ?l) G"
    using assms(1) unfolding all by (blast dest: append_prefixD)+
  have "spec s u (appending m base G h sofar) (io_bind (sys (write_all JournalPath ?l)) (\<lambda>_.
      io_bind (sys (write_all JournalPath p)) (\<lambda>_. sys (write_all JournalPath ?c))))
      (\<lambda>_. appending m base G h (sofar @ frame P p)) ?E"
    by (intro spec_bind, rule spec_write_chunk [OF 1(2)], rule spec_write_chunk [OF 1(1)], unfold all,
        rule spec_write_chunk [OF assms(1) [unfolded all]])
  then show ?thesis using assms(2) by (simp add: write_frame_def)
qed

lemma spec_write_frames:
  assumes "prefix (sofar @ concat (map (frame P) ps)) G" and "\<forall>p \<in> set ps. payload_ok p"
  shows "spec s u (appending m base G h sofar) (io_each (write_frame P) ps)
    (\<lambda>_. appending m base G h (sofar @ concat (map (frame P) ps))) (\<lambda>c. \<exists>sofar'. appending m base G h sofar' c)"
  using assms
proof (induction ps arbitrary: sofar)
  case Nil
  then show ?case by (auto intro: spec_ok)
next
  case (Cons p ps)
  have "prefix (sofar @ frame P p) G"
    using Cons.prems(1) by (auto intro: append_prefixD)
  then have "spec s u (appending m base G h sofar) (write_frame P p)
    (\<lambda>_. appending m base G h (sofar @ frame P p)) (\<lambda>c. \<exists>sofar'. appending m base G h sofar' c)"
    using Cons.prems(2) by (intro spec_write_frame) simp_all
  moreover have "spec s u (appending m base G h (sofar @ frame P p)) (io_each (write_frame P) ps)
    (\<lambda>_. appending m base G h (sofar @ concat (map (frame P) (p # ps)))) (\<lambda>c. \<exists>sofar'. appending m base G h sofar' c)"
    using Cons.IH [of "sofar @ frame P p"] Cons.prems by simp
  ultimately show ?case unfolding io_each.simps by (rule spec_bind)
qed

section \<open>Appending\<close>

lemma recovers_mono: "recovers P u S c \<Longrightarrow> S \<subseteq> T \<Longrightarrow> recovers P u T c"
  unfolding recovers_def by blast

lemma batch_fits:
  assumes "frames_ok P fs" and "frames_size 0 ps = Ok a"
  shows "saturating_add (of_nat (length (journal_image P fs))) a > MAX_JOURNAL_BYTES \<longleftrightarrow> \<not> frames_ok P (fs @ ps)"
    "frames_ok P (fs @ ps) \<Longrightarrow> saturating_add (of_nat (length (journal_image P fs))) a = of_nat (length (journal_image P (fs @ ps)))"
proof -
  let ?n = "length (journal_image P fs)" and ?k = "length (concat (map (frame P) ps))"
  have a: "\<forall>p \<in> set ps. payload_ok p" "?k < 2 ^ 64" "a = of_nat ?k"
    using frames_size_Ok [of 0 ps a P] assms(2) by simp_all
  have n: "?n \<le> 16777216" "\<forall>p \<in> set fs. payload_ok p" using frames_okD [OF assms(1)] by auto
  then have "?n < 2 ^ 64" by simp
  then have "unat (saturating_add (of_nat ?n) a) = min (?n + ?k) (2 ^ 64 - 1)"
    unfolding a(3) unat_saturating_add using a(2) by (simp add: unat_u64 del: of_nat_add)
  then show "saturating_add (of_nat ?n) a > MAX_JOURNAL_BYTES \<longleftrightarrow> \<not> frames_ok P (fs @ ps)"
    using a(1) n by (auto simp: word_less_nat_alt frames_ok_def journal_image_append)
  assume "frames_ok P (fs @ ps)"
  then have "?n + ?k < 2 ^ 64" by (simp add: frames_ok_def journal_image_append)
  then show "saturating_add (of_nat ?n) a = of_nat (length (journal_image P (fs @ ps)))"
    unfolding a(3) using saturating_add_of_nat [where 'a = 64, of ?n ?k] by (simp add: journal_image_append)
qed

lemma appending_recovers:
  assumes "frames_ok P (fs @ ps)" and "check_metadata u m = Ok ()" and "private_entry u (head_of P fs) h"
    and "appending m (journal_image P fs) (concat (map (frame P) ps)) h sofar c"
  shows "recovers P u {fs, fs @ ps} c"
  using assms frames_ok_prefix [OF assms(1)]
  by (fastforce simp: recovers_def appending_def recoverable_def private_entry_def dest: grown_outcomes)

text \<open>The commit: the witness of the longer journal replaces that of the shorter one.\<close>

lemma spec_commit:
  assumes "frames_ok P (fs @ ps)" and "private_entry u (journal_image P (fs @ ps)) j"
    and "private_entry u (head_of P fs) h"
  shows "spec s u (\<lambda>c. c = slots_of j h)
    (io_bind (witness_write P (journal_witness P (journal_image P (fs @ ps)) (length (fs @ ps)))) (\<lambda>_. io_ok x))
    (\<lambda>y c. y = x \<and> durable P u (fs @ ps) c) (recovers P u {fs, fs @ ps})"
proof (rule spec_bind [where R = "\<lambda>_. durable P u (fs @ ps)"])
  have old: "recoverable P u fs j e" if "private_entry u (head_of P fs) e" for e
    using that assms frames_ok_prefix [OF assms(1)] by (auto simp: recoverable_def journal_image_append)
  have new: "recoverable P u (fs @ ps) j e" if "private_entry u (head_of P (fs @ ps)) e" for e
    using that assms by (auto simp: recoverable_def intro!: exI [of _ "[]"])
  show "spec s u (\<lambda>c. c = slots_of j h)
      (witness_write P (journal_witness P (journal_image P (fs @ ps)) (length (fs @ ps))))
      (\<lambda>_. durable P u (fs @ ps)) (recovers P u {fs, fs @ ps})"
    using assms old new
    by (intro spec_weaken [OF spec_witness_write])
      (auto simp: durable_def recovers_def head_of_def)
qed (auto intro: spec_ok)

lemma spec_batch_writes:
  assumes "frames_ok P (fs @ ps)" and "check_metadata u m = Ok ()" and "private_entry u (head_of P fs) h"
    and "spec s u (\<lambda>c. c = slots_of (Some (File m (journal_image P (fs @ ps)))) h) rest Q (recovers P u {fs, fs @ ps})"
  shows "spec s u (\<lambda>c. c = slots_of (Some (File m (journal_image P fs))) h)
    (io_bind (io_each (write_frame P) ps) (\<lambda>_. io_bind (sys (sync_file JournalPath)) (\<lambda>_. rest)))
    Q (recovers P u {fs, fs @ ps})"
proof -
  let ?G = "concat (map (frame P) ps)" and ?E = "recovers P u {fs, fs @ ps}"
  let ?A = "appending m (journal_image P fs) ?G h"
  have A: "?A sofar c \<Longrightarrow> ?E c" for sofar c using assms(1-3) by (rule appending_recovers)
  have "spec s u (\<lambda>c. c = slots_of (Some (File m (journal_image P fs))) h) (io_each (write_frame P) ps) (\<lambda>_. ?A ?G) ?E"
  proof (rule spec_weaken [OF spec_write_frames [where G = ?G and sofar = "[]"]])
    show "\<forall>p \<in> set ps. payload_ok p" using frames_okD(1) [OF assms(1)] by simp
    show "c = slots_of (Some (File m (journal_image P fs))) h \<Longrightarrow> ?A [] c" for c
      by (simp add: appending_def grown_def settled_def)
  qed (auto intro: A)
  moreover have "spec s u (?A ?G) (sys (sync_file JournalPath))
      (\<lambda>_ c. c = slots_of (Some (File m (journal_image P (fs @ ps)))) h) ?E"
    by (intro spec_sys spec_sync_file slots_eqI)
      (auto simp: appending_def grown_sync journal_image_append intro: A)
  ultimately show ?thesis using assms(4) by (blast intro: spec_bind)
qed

lemma spec_append_batch:
  "spec (frames_ok P (fs @ ps)) u (durable P u fs) (journal_append_batch P ps (handle_of P fs))
     (\<lambda>y c. y = handle_of P (fs @ ps) \<and> durable P u (fs @ ps) c) (recovers P u {fs, fs @ ps})"
  (is "spec ?s u _ _ ?Q ?E")
proof -
  have E: "durable P u fs c \<Longrightarrow> ?E c" for c using durable_recovers recovers_mono by blast
  have "spec ?s u (\<lambda>c. c = slots_of j h) (journal_append_batch P ps (handle_of P fs)) ?Q ?E"
    if j: "private_entry u (journal_image P fs) j" and h: "private_entry u (head_of P fs) h"
      and fs: "frames_ok P fs" for j h
  proof -
    let ?I = "\<lambda>c. c = slots_of j h" and ?n = "length (journal_image P fs)"
    have "durable P u fs (slots_of j h)" using j h fs by (auto simp: durable_def)
    then have I: "?I c \<Longrightarrow> ?E c" for c using E by simp
    obtain m where m: "j = Some (File m (journal_image P fs))" "check_metadata u m = Ok ()"
      using j by (auto simp: private_entry_def)
    show ?thesis
    proof (cases "frames_size 0 ps")
      case (Inl e)
      then have "\<not> ?s"
        using frames_size_total [of ps 0 P] frames_okD [of P "fs @ ps"] by (auto simp: journal_image_append)
      then show ?thesis using Inl I by (auto simp: journal_append_batch_def intro: spec_err)
    next
      case (Inr a)
      note fits = batch_fits [OF fs Inr]
      let ?w = "journal_witness P (journal_image P (fs @ ps)) (length (fs @ ps))"
      have "spec ?s u ?I (io_bind (io_each (write_frame P) ps) (\<lambda>_. io_bind (sys (sync_file JournalPath)) (\<lambda>_.
          io_bind (witness_write P ?w) (\<lambda>_. io_ok (handle_of P (fs @ ps)))))) ?Q ?E" if ok: ?s
        unfolding m using ok m(2) h
        by (intro spec_batch_writes spec_commit) (auto simp: private_entry_def)
      moreover have "?s \<Longrightarrow> checked_add (of_nat (length fs)) (of_nat (length ps) :: u64) = Some (of_nat (length (fs @ ps)))"
        using frames_okD(3) [of P "fs @ ps"] checked_add_of_nat [where 'a = 64, of "length fs" "length ps"] by simp
      moreover have "?s \<Longrightarrow> hash_frames P (journal_image P fs) ps = Ok (journal_image P (fs @ ps))"
        using frames_okD(1) [of P "fs @ ps"] hash_frames_ok by (simp add: journal_image_append)
      ultimately show ?thesis
        unfolding journal_append_batch_def Inr io_bind_simps
        using fits I j
        by (intro spec_see [where x = "of_nat ?n"])
          (auto simp: file_bytes_def private_entry_bytes handle_of_def journal_witness_def intro: spec_err)
    qed
  qed
  then show ?thesis by (auto simp: durable_def spec_def)
qed

section \<open>An append that fits is never reported full\<close>

definition io_errs :: "('e \<Rightarrow> bool) \<Rightarrow> ('e, 'a) io \<Rightarrow> bool" where
  "io_errs X m \<longleftrightarrow> (\<forall>d e d'. m d = (Inl e, d') \<longrightarrow> X e)"

lemma io_errs_bind: "io_errs X m \<Longrightarrow> (\<And>x. io_errs X (f x)) \<Longrightarrow> io_errs X (io_bind m f)"
  unfolding io_errs_def io_bind_def by (fastforce split: prod.splits sum.splits)

lemma io_errs_sys: "(\<And>k. X (JournalError.Io k)) \<Longrightarrow> io_errs X (sys m)"
  unfolding io_errs_def sys_def io_map_err_def map_err_def by (auto split: prod.splits sum.splits)

lemma io_errs_ok: "io_errs X (io_ok x)"
  by (simp add: io_errs_def io_ok_def)

lemma io_errs_each: "(\<And>x. io_errs X (f x)) \<Longrightarrow> io_errs X (io_each f xs)"
  by (induction xs) (auto intro: io_errs_ok io_errs_bind)

lemma io_errs_witness_write: "(\<And>k. X (JournalError.Io k)) \<Longrightarrow> io_errs X (witness_write P w)"
  unfolding witness_write_def temporary_sibling_def clear_inherited_acl_def sync_parent_def
  by (intro io_errs_bind io_errs_sys)

lemma io_errs_write_frame: "io_errs (\<lambda>e. e \<noteq> JournalFull) (write_frame P p)"
  unfolding write_frame_def by (auto simp: io_errs_def [of _ "io_err _"] io_err_def intro!: io_errs_bind io_errs_sys)

lemma sys_observe_run:
  "sys (observe f) d = (r, d') \<Longrightarrow> (\<exists>k. r = Inl (JournalError.Io k)) \<or> r = Inr (f d') \<and> dk_cells d' = dk_cells d"
  unfolding sys_def io_map_err_def observe_def syscall_def pop_fault_def
  by (auto split: list.splits option.splits)

lemma append_batch_not_full:
  assumes "durable P u fs (dk_cells d)" and "frames_ok P (fs @ ps)"
    and "journal_append_batch P ps (handle_of P fs) d = (Inl e, d')"
  shows "e \<noteq> JournalFull"
proof -
  let ?n = "of_nat (length (journal_image P fs)) :: u64"
  have fs: "frames_ok P fs" using assms(1) by (simp add: durable_def)
  have ps: "\<forall>p \<in> set ps. payload_ok p" using frames_okD(1) [OF assms(2)] by simp
  obtain a where a: "frames_size 0 ps = Ok a"
    using frames_size_total [of ps 0 P] frames_okD [OF assms(2)] by (auto simp: journal_image_append)
  note fits = batch_fits(1) [OF fs a]
  have count: "checked_add (of_nat (length fs)) (of_nat (length ps)) = Some (of_nat (length (fs @ ps)) :: u64)"
    using frames_okD(3) [OF assms(2)] checked_add_of_nat [where 'a = 64, of "length fs" "length ps"] by simp
  have hash: "hash_frames P (journal_image P fs) ps = Ok (journal_image P (fs @ ps))"
    using hash_frames_ok [OF ps] by (simp add: journal_image_append)
  have len: "of_nat (length (file_bytes JournalPath d1)) = ?n" if "dk_cells d1 = dk_cells d" for d1
    using that assms(1) private_entry_bytes by (auto simp: durable_def file_bytes_def)
  define k where "k = (\<lambda>current_length :: u64.
    if saturating_add current_length a > MAX_JOURNAL_BYTES then io_err JournalFull
    else
      io_bind (io_each (write_frame P) ps) (\<lambda>_.
      io_bind (sys (sync_file JournalPath)) (\<lambda>_.
      io_bind (witness_write P \<lparr>wt_length = saturating_add current_length a,
        wt_frame_count = of_nat (length (fs @ ps)), wt_journal_digest = sha256 P (journal_image P (fs @ ps))\<rparr>) (\<lambda>_.
      io_ok ((handle_of P fs)\<lparr>jn_hasher := journal_image P (fs @ ps), jn_frame_count := of_nat (length (fs @ ps))\<rparr>))))
    :: (JournalError, Journal) io)"
  have run: "journal_append_batch P ps (handle_of P fs) d =
      io_bind (sys (observe (\<lambda>d. of_nat (length (file_bytes JournalPath d))))) k d"
    using a count hash by (simp add: journal_append_batch_def k_def handle_of_def cong: if_cong)
  have "io_errs (\<lambda>e. e \<noteq> JournalFull) (k ?n)"
    using fits assms(2) unfolding k_def
    by (auto intro!: io_errs_bind io_errs_sys io_errs_ok io_errs_each io_errs_write_frame io_errs_witness_write)
  then show ?thesis
    using assms(3) len unfolding run io_bind_def
    by (auto simp: io_errs_def split: prod.splits sum.splits dest!: sys_observe_run) blast
qed

lemmas append_not_full = append_batch_not_full [where ps = "[p]" for p, folded append_is_batch]

section \<open>What a witness admits\<close>

text \<open>
  Whatever the journal file holds, frames are returned only if the witness names their number and
  the length and digest of exactly the bytes they were written as.
\<close>

definition witnessed :: "prims \<Rightarrow> JournalWitness \<Rightarrow> bytes list \<Rightarrow> bool" where
  "witnessed P w fs \<longleftrightarrow> frames_ok P fs \<and> journal_witness P (journal_image P fs) (length fs) = w"

lemma spec_cases:
  assumes "\<And>d. dk_uid d = u \<Longrightarrow> I (dk_cells d) \<Longrightarrow> \<exists>m'. m d = m' d \<and> spec s u I m' Q E"
  shows "spec s u I m Q E"
  unfolding spec_def
proof (intro allI impI)
  fix d :: disk assume d: "dk_uid d = u \<and> I (dk_cells d)"
  then obtain m' where "m d = m' d" "spec s u I m' Q E" using assms by blast
  then show "outcome_ok s u Q E d (m d)" using d by (simp add: specD)
qed

lemma spec_open_any:
  assumes "\<And>c x. I c \<Longrightarrow> I (c(p := x))"
  shows "spec False u I (sys (open_or_create p)) (\<lambda>_. I) (\<lambda>_. True)"
proof (intro spec_sys spec_cases)
  fix d :: disk
  have "spec False u I (syscall (\<lambda>d. (True, on_cell p (cell_install (new_temp (dk_uid d))) d)) (\<lambda>t d. d)) (\<lambda>_. I) (\<lambda>_. True)"
    by (rule spec_syscall) (use assms in auto)
  moreover have "spec False u I (io_err OtherIo) (\<lambda>_ :: bool. I) (\<lambda>_. True)" by (rule spec_err) simp
  moreover have "spec False u I (observe (\<lambda>_. False)) (\<lambda>_. I) (\<lambda>_. True)" by (rule spec_observe) simp_all
  ultimately show "\<exists>m'. open_or_create p d = m' d \<and> spec False u I m' (\<lambda>_. I) (\<lambda>_. True)"
    unfolding open_or_create_def by (auto split: option.splits dir_entry.splits)
qed

lemma spec_validate_any: "spec False u I (validate_metadata p) (\<lambda>_. I) (\<lambda>_. True)"
  unfolding validate_metadata_def
  by (rule spec_bind [where R = "\<lambda>_. I"], intro spec_sys spec_observe)
    (auto split: prod.splits intro!: spec_lift)

lemma spec_read_any:
  "spec False u I (read_frames P p)
     (\<lambda>(frames, n, bs) c. I c \<and> parse_frames P bs = Ok (frames, n) \<and> length bs \<le> unat MAX_JOURNAL_BYTES \<and>
       (\<exists>r. bs = JOURNAL_MAGIC @ r)) (\<lambda>_. True)"
proof -
  have magic: "\<exists>r. bs = JOURNAL_MAGIC @ r" if "slice bs 0 8 = Some JOURNAL_MAGIC" for bs
  proof -
    have "take 8 bs = JOURNAL_MAGIC" using that by (auto simp: slice_def split: if_splits)
    then show ?thesis by (metis append_take_drop_id)
  qed
  let ?Q = "\<lambda>(frames, n, bs) c. I c \<and> parse_frames P bs = Ok (frames, n) \<and> length bs \<le> unat MAX_JOURNAL_BYTES \<and>
    (\<exists>r. bs = JOURNAL_MAGIC @ r)"
  have tail: "spec False u I (if length bs > unat MAX_JOURNAL_BYTES then io_err JournalFull
      else if length bs < length JOURNAL_MAGIC \<or> slice bs 0 (length JOURNAL_MAGIC) \<noteq> Some JOURNAL_MAGIC
      then io_err InvalidHeader
      else io_bind (io_lift (parse_frames P bs)) (\<lambda>(frames, valid_length). io_ok (frames, valid_length, bs)))
      ?Q (\<lambda>_. True)" for bs
    using magic [of bs] by (cases "parse_frames P bs") (auto intro!: spec_err spec_ok)
  have bound: "spec False u I m ?Q (\<lambda>_. True) \<Longrightarrow>
      spec False u I (if unat MAX_JOURNAL_BYTES < k then io_err JournalFull else m) ?Q (\<lambda>_. True)" for m k
    by (auto intro: spec_err)
  show ?thesis
    unfolding read_frames_def
    by (intro spec_bind [where R = "\<lambda>_. I"] bound spec_skip tail spec_sys spec_observe) simp_all
qed

lemma parse_short: "length bs < 8 \<Longrightarrow> parse_frames P bs = Ok ([], 8)"
  by (simp add: parse_frames_def parse_loop_stop)

lemma spec_reconcile_any:
  assumes "parse_frames P bs = Ok (frames, n)" and "bs = JOURNAL_MAGIC @ r"
    and "slice bs 0 n = Some valid" and "length bs \<le> unat MAX_JOURNAL_BYTES"
  shows "spec False u I (reconcile P frames n bs (journal_witness P valid (length frames)) (Some w))
    (\<lambda>(fs, k) c. I c \<and> witnessed P w fs \<and> slice bs 0 k = Some (journal_image P fs)) (\<lambda>_. True)"
proof -
  have ok: "frames_ok P fs" if "slice bs 0 k = Some (journal_image P fs)" "\<forall>p \<in> set fs. payload_ok p" for fs k
    using that assms(4) slice_Some_length [OF that(1)] by (simp add: frames_ok_def)
  have valid: "slice bs 0 n = Some (journal_image P frames)" "\<forall>p \<in> set frames. payload_ok p"
    using parse_frames_sound [of P r frames n] assms by (simp_all add: slice_def)
  have pre: "witnessed P w pf \<and> slice bs 0 k = Some (journal_image P pf)"
    if "slice bs 0 k = Some pre" "parse_frames P pre = Ok (pf, k)" "journal_witness P pre (length pf) = w" for k pre pf
  proof -
    have pre: "pre = take k bs" "length pre = k" using that(1) by (auto simp: slice_def split: if_splits)
    have "8 \<le> k" using that(2) parse_short [of pre P] pre(2) by (cases "length pre < 8") auto
    then have "pre = JOURNAL_MAGIC @ take (k - 8) r" using pre(1) assms(2) by simp
    then have "take k pre = journal_image P pf" "\<forall>p \<in> set pf. payload_ok p"
      using parse_frames_sound that(2) by blast+
    then show ?thesis using that pre ok [of k pf] by (simp add: witnessed_def)
  qed
  have "witnessed P w frames" if "w = journal_witness P valid (length frames)"
    using that valid assms(3) ok [of n frames] by (simp add: witnessed_def)
  then show ?thesis
    unfolding reconcile_def option.case
    using valid(1) assms(3)
    by (cases "slice bs 0 (unat (wt_length w))"; cases "parse_frames P (the (slice bs 0 (unat (wt_length w))))")
      (auto intro!: spec_ok spec_err dest: pre)
qed

lemma spec_finish_any:
  assumes "slice bs 0 k = Some (journal_image P fs)" and "\<And>c x. I c \<Longrightarrow> I (c(JournalPath := x))"
  shows "spec False u I (finish_open bs fs k) (\<lambda>y c. y = (handle_of P fs, fs) \<and> I c) (\<lambda>_. True)"
proof -
  have "spec False u I (if k < length bs
      then io_bind (sys (set_len JournalPath k)) (\<lambda>_. sys (sync_file JournalPath)) else io_ok ()) (\<lambda>_. I) (\<lambda>_. True)"
    using assms(2)
    by (auto intro!: spec_ok spec_bind [where R = "\<lambda>_. I"] spec_sys spec_set_len spec_sync_file)
  then show ?thesis
    unfolding finish_open_def assms(1)
    by (rule spec_bind) (auto intro!: spec_skip spec_ok simp: handle_of_def)
qed

lemma spec_open_witnessed:
  "spec False u (\<lambda>c. private_entry u (encode_witness P w) (cl_now (c HeadPath))) (journal_open P)
     (\<lambda>(j, fs) _. j = handle_of P fs \<and> witnessed P w fs) (\<lambda>_. True)"
  (is "spec False u ?I _ ?Q ?E")
proof -
  have tail: "spec False u (\<lambda>c. ?I c \<and> witnessed P w fs \<and> slice bs 0 k = Some (journal_image P fs))
      (finish_open bs fs k) ?Q ?E" for fs k bs
    by (rule spec_cases) (auto intro!: exI [of _ "finish_open bs fs k"] spec_weaken [OF spec_finish_any [where I = ?I]])
  have "spec False u (\<lambda>c. ?I c \<and> parse_frames P bs = Ok (frames, n) \<and> length bs \<le> unat MAX_JOURNAL_BYTES \<and>
        (\<exists>r. bs = JOURNAL_MAGIC @ r))
      (io_bind (io_lift (ok_or Rollback (slice bs 0 n))) (\<lambda>valid.
       io_bind (witness_read P) (\<lambda>w.
       io_bind (reconcile P frames n bs (journal_witness P valid (length frames)) w)
         (\<lambda>(frames, valid_length). finish_open bs frames valid_length)))) ?Q ?E" for frames n bs
  proof (cases "\<exists>r valid. parse_frames P bs = Ok (frames, n) \<and> bs = JOURNAL_MAGIC @ r \<and>
      slice bs 0 n = Some valid \<and> length bs \<le> unat MAX_JOURNAL_BYTES")
    case True
    then obtain r valid where bs: "parse_frames P bs = Ok (frames, n)" "bs = JOURNAL_MAGIC @ r" "slice bs 0 n = Some valid"
      "length bs \<le> unat MAX_JOURNAL_BYTES" by blast
    have "spec False u ?I (io_bind (witness_read P) (\<lambda>w.
        io_bind (reconcile P frames n bs (journal_witness P valid (length frames)) w)
          (\<lambda>(frames, valid_length). finish_open bs frames valid_length))) ?Q ?E"
      by (rule spec_then [OF spec_witness_read [where w = w]], simp_all)
        (rule spec_bind [OF spec_reconcile_any [OF bs]], auto intro: tail)
    then show ?thesis using bs by (auto intro: spec_weaken)
  next
    case False
    then show ?thesis by (cases "slice bs 0 n") (auto simp: spec_def io_err_def)
  qed
  then have recover: "spec False u ?I (recover_journal P) ?Q ?E"
    unfolding recover_journal_def by (intro spec_bind [OF spec_read_any]) auto
  have start: "spec False u ?I (sys (open_or_create JournalPath)) (\<lambda>_. ?I) ?E"
    by (rule spec_open_any) simp
  have magic: "spec False u ?I (if len = 0
      then io_bind (sys (write_all JournalPath JOURNAL_MAGIC)) (\<lambda>_. sys (sync_file JournalPath))
      else io_ok ()) (\<lambda>_. ?I) ?E" for len :: nat
    by (auto intro!: spec_ok spec_bind [where R = "\<lambda>_. ?I"] spec_sys spec_write_all spec_sync_file)
  have acl: "spec False u ?I (if created then clear_inherited_acl else io_ok ()) (\<lambda>_. ?I) ?E" for created
    by (auto simp: clear_inherited_acl_def intro!: spec_ok spec_sys spec_observe)
  have len: "spec False u ?I (sys (observe (\<lambda>d. length (file_bytes JournalPath d)))) (\<lambda>_. ?I) ?E"
    by (intro spec_sys spec_observe) simp_all
  show ?thesis
    unfolding journal_open_def
    by (rule spec_bind [OF start], rule spec_bind [OF acl], rule spec_bind [OF spec_validate_any],
        rule spec_bind [OF len], rule spec_bind [OF magic], rule recover)
qed

text \<open>The frames a witness was written for are the only ones it admits, unless SHA-256 collides.\<close>

definition collides :: "prims \<Rightarrow> bytes \<Rightarrow> bytes \<Rightarrow> bool" where
  "collides P x y \<longleftrightarrow> x \<noteq> y \<and> length x = length y \<and> sha256 P x = sha256 P y"

lemma witnessed_unique:
  assumes "witnessed P (journal_witness P (journal_image P fs) (length fs)) hs" and "frames_ok P fs"
  shows "hs = fs \<or> collides P (journal_image P hs) (journal_image P fs)"
proof (cases "journal_image P hs = journal_image P fs")
  case True
  have "hs = fs"
    by (rule journal_image_inject [OF True]) (use assms in \<open>auto simp: witnessed_def dest: frames_okD(1)\<close>)
  then show ?thesis ..
next
  case False
  have eq: "sha256 P (journal_image P hs) = sha256 P (journal_image P fs)"
    "(of_nat (length (journal_image P hs)) :: u64) = of_nat (length (journal_image P fs))"
    using assms(1) by (simp_all add: witnessed_def journal_witness_def)
  have "frames_ok P hs" using assms(1) by (simp add: witnessed_def)
  then have "length (journal_image P fs) < 2 ^ 64" "length (journal_image P hs) < 2 ^ 64"
    using frames_okD(2) [OF assms(2)] frames_okD(2) [of P hs] by simp_all
  then have "length (journal_image P hs) = length (journal_image P fs)"
    using arg_cong [OF eq(2), of unat] by (simp only: unat_u64)
  then show ?thesis using False eq(1) by (auto simp: collides_def)
qed

section \<open>Compaction\<close>

text \<open>
  What a compaction from \<open>fs\<close> to \<open>gs\<close> may leave: a directory that reopens to either, or the new file
  under the old witness.
\<close>

definition compaction_leaves :: "prims \<Rightarrow> u32 \<Rightarrow> bytes list \<Rightarrow> bytes list \<Rightarrow> slots \<Rightarrow> bool" where
  "compaction_leaves P u fs gs c \<longleftrightarrow>
     (\<forall>j \<in> set (cell_outcomes (c JournalPath)). \<forall>h \<in> set (cell_outcomes (c HeadPath)).
        recoverable P u fs j h \<or> recoverable P u gs j h \<or>
        frames_ok P gs \<and> private_entry u (journal_image P gs) j \<and> private_entry u (head_of P fs) h)"

lemma recovers_leaves: "recovers P u {fs} c \<or> recovers P u {gs} c \<Longrightarrow> compaction_leaves P u fs gs c"
  unfolding recovers_def compaction_leaves_def by blast

lemma replacement_fits:
  assumes "frames_size (of_nat (length JOURNAL_MAGIC)) gs = Ok a"
  shows "a = of_nat (length (journal_image P gs))" "a > MAX_JOURNAL_BYTES \<longleftrightarrow> \<not> frames_ok P gs"
    "\<forall>p \<in> set gs. payload_ok p"
proof -
  have a: "\<forall>p \<in> set gs. payload_ok p" "8 + length (concat (map (frame P) gs)) < 2 ^ 64"
    "a = of_nat (8 + length (concat (map (frame P) gs)))"
    using frames_size_Ok [OF assms, of P] by simp_all
  then show "\<forall>p \<in> set gs. payload_ok p" by simp
  have len: "length (journal_image P gs) = 8 + length (concat (map (frame P) gs))" by (simp add: journal_image_def)
  then show eq: "a = of_nat (length (journal_image P gs))" using a(3) by simp
  show "a > MAX_JOURNAL_BYTES \<longleftrightarrow> \<not> frames_ok P gs"
    using unat_u64 [OF a(2)] a(1) unfolding eq len word_less_nat_alt frames_ok_def by auto
qed

lemma spec_write_replacement:
  assumes "\<forall>p \<in> set gs. payload_ok p" and "\<And>c. I c \<Longrightarrow> E c"
  shows "spec s u I (write_replacement P f hasher gs)
    (\<lambda>(g, k) c. I c \<and> tf_meta g = tf_meta f \<and> tf_bytes g = tf_bytes f @ concat (map (frame P) gs) \<and>
       k = hasher @ concat (map (frame P) gs)) E"
  using assms(1)
proof (induction gs arbitrary: f hasher)
  case (Cons p gs)
  let ?l = "frame_length_bytes p" and ?c = "checksum P (frame_length_bytes p) p"
  let ?w = "\<lambda>f bs. f\<lparr>tf_bytes := tf_bytes f @ bs, tf_older := torn (tf_bytes f) bs @ tf_older f\<rparr>"
  let ?g = "?w (?w (?w f ?l) p) ?c"
  have bytes: "tf_bytes ?g = tf_bytes f @ frame P p" "tf_meta ?g = tf_meta f" by (simp_all add: frame_def)
  have "spec s u I (write_replacement P ?g (hasher @ frame P p) gs)
    (\<lambda>(g, k) c. I c \<and> tf_meta g = tf_meta f \<and> tf_bytes g = tf_bytes f @ concat (map (frame P) (p # gs)) \<and>
       k = hasher @ concat (map (frame P) (p # gs))) E"
    using Cons.IH [of ?g "hasher @ frame P p"] Cons.prems unfolding bytes by simp
  then show ?case
    using Cons.prems assms(2) unfolding write_replacement.simps temp_write_def
    by (simp add: update_frame_hash_def)
      (intro spec_see [where x = "?w f ?l"] spec_see [where x = "?w (?w f ?l) p"] spec_see [where x = ?g], auto)
qed (auto intro: spec_ok)

text \<open>From the rename on.\<close>

lemma spec_install:
  assumes j: "private_entry u (journal_image P fs) j" and h: "private_entry u (head_of P fs) h"
    and f: "tf_bytes f = journal_image P gs" "check_metadata u (tf_meta f) = Ok ()" "tf_older f = []"
    and ok: "frames_ok P fs" "frames_ok P gs"
  shows "spec s u (\<lambda>c. c = slots_of j h)
    (io_bind (sys (rename_temp f JournalPath)) (\<lambda>_.
     io_bind sync_parent (\<lambda>_.
     io_bind (witness_write P (journal_witness P (journal_image P gs) (length gs))) (\<lambda>_.
     io_bind (sys (observe (\<lambda>_. ()))) (\<lambda>_. io_ok x)))))
    (\<lambda>y c. y = x \<and> durable P u gs c) (compaction_leaves P u fs gs)" (is "spec s u ?I _ ?Q ?E")
proof -
  let ?k = "Some (File (tf_meta f) (tf_bytes f))"
  let ?R = "\<lambda>c. c JournalPath = cell_install f (settled j) \<and> c HeadPath = settled h"
  have k: "private_entry u (journal_image P gs) ?k" using f by (simp add: private_entry_def)
  have D: "durable P u gs c \<Longrightarrow> ?E c" for c using durable_recovers recovers_leaves by blast
  have old: "recoverable P u fs j h"
    using j h ok(1) by (auto simp: recoverable_def intro!: exI [of _ "[]"])
  have new: "recoverable P u gs ?k e" if "private_entry u (head_of P gs) e" for e
    using k that ok(2) by (auto simp: recoverable_def intro!: exI [of _ "[]"])
  have I: "?I c \<Longrightarrow> ?E c" for c using old by (simp add: compaction_leaves_def)
  have R: "?R c \<Longrightarrow> ?E c" for c
    using old k h f(3) ok(2) by (auto simp: compaction_leaves_def cell_install_def
        cell_outcomes_def [of "\<lparr>cl_now = _, cl_older_entries = _, cl_older_contents = _\<rparr>"])
  have 1: "spec s u ?I (sys (rename_temp f JournalPath)) (\<lambda>_. ?R) ?E"
    by (intro spec_sys spec_rename_temp) (auto intro: I R)
  have 2: "spec s u ?R sync_parent (\<lambda>_ c. c = slots_of ?k h) ?E"
  proof (rule spec_sync_parent)
    show "?R c \<Longrightarrow> (\<lambda>p. cell_sync_entry (c p)) = slots_of ?k h" for c
      using f(3) by (intro slots_eqI) (auto simp: cell_sync_entry_def cell_install_def settled_def)
  qed (rule R)
  have 3: "spec s u (\<lambda>c. c = slots_of ?k h)
      (witness_write P (journal_witness P (journal_image P gs) (length gs))) (\<lambda>_. durable P u gs) ?E"
    using k h ok(2) new
    by (intro spec_weaken [OF spec_witness_write])
      (auto simp: durable_def compaction_leaves_def head_of_def)
  have 4: "spec s u (durable P u gs) (io_bind (sys (observe (\<lambda>_. ()))) (\<lambda>_. io_ok x)) ?Q ?E"
    by (intro spec_skip D spec_ok) simp_all
  show ?thesis by (rule spec_bind [OF 1], rule spec_bind [OF 2], rule spec_bind [OF 3], rule 4)
qed

lemma spec_validate_temp:
  assumes "check_metadata u (tf_meta f) = Ok ()" and "\<And>c. I c \<Longrightarrow> E c"
  shows "spec s u I (validate_temp f) (\<lambda>y c. y = () \<and> I c) E"
  unfolding validate_temp_def using assms
  by (intro spec_see [where x = u]) (auto intro!: spec_lift)

lemma spec_replace:
  assumes j: "private_entry u (journal_image P fs) j" and h: "private_entry u (head_of P fs) h"
    and ok: "frames_ok P fs" "frames_ok P gs" and t: "tf_meta t = private_meta u" "tf_bytes t = JOURNAL_MAGIC"
    and n: "n = of_nat (length (journal_image P gs))"
  shows "spec s u (\<lambda>c. c = slots_of j h)
    (io_bind (write_replacement P t JOURNAL_MAGIC gs) (\<lambda>(f, hasher).
     io_bind (sys (temp_sync f)) (\<lambda>f.
     io_bind (sys (rename_temp f JournalPath)) (\<lambda>_.
     io_bind sync_parent (\<lambda>_.
     io_bind (witness_write P \<lparr>wt_length = n, wt_frame_count = of_nat (length gs),
       wt_journal_digest = sha256 P hasher\<rparr>) (\<lambda>_.
     io_bind (sys (observe (\<lambda>_. ()))) (\<lambda>_.
     io_ok \<lparr>jn_hasher = hasher, jn_frame_count = of_nat (length gs)\<rparr>)))))))
    (\<lambda>y c. y = handle_of P gs \<and> durable P u gs c) (compaction_leaves P u fs gs)"
    (is "spec s u ?I (io_bind _ (\<lambda>(f, hasher). ?rest f hasher)) ?Q ?E")
proof -
  have "durable P u fs (slots_of j h)" using j h ok by (auto simp: durable_def)
  then have I: "?I c \<Longrightarrow> ?E c" for c using durable_recovers recovers_leaves by blast
  have w: "\<lparr>wt_length = n, wt_frame_count = of_nat (length gs), wt_journal_digest = sha256 P (journal_image P gs)\<rparr> =
      journal_witness P (journal_image P gs) (length gs)" by (simp add: journal_witness_def n)
  have rest: "spec s u ?I (?rest f (journal_image P gs)) ?Q ?E"
    if "tf_meta f = private_meta u" "tf_bytes f = journal_image P gs" for f
    unfolding temp_sync_def w handle_of_def [symmetric]
    by (rule spec_see [where x = "f\<lparr>tf_older := []\<rparr>"], simp, erule I, rule spec_install [OF j h])
      (use that ok in simp_all)
  show ?thesis
  proof (rule spec_bind [OF spec_write_replacement [OF frames_okD(1) [OF ok(2)] I]], assumption)
    fix y :: "temp_file \<times> bytes"
    obtain f k where y: "y = (f, k)" by (cases y)
    show "spec s u ((\<lambda>(g, k) c. ?I c \<and> tf_meta g = tf_meta t \<and>
        tf_bytes g = tf_bytes t @ concat (map (frame P) gs) \<and> k = JOURNAL_MAGIC @ concat (map (frame P) gs)) y)
        (case y of (f, hasher) \<Rightarrow> ?rest f hasher) ?Q ?E"
      using rest [of f] t unfolding y by (auto simp: spec_def journal_image_def)
  qed
qed

lemma frames_size_Err:
  assumes "frames_size (of_nat (length JOURNAL_MAGIC)) gs = Inl e"
  shows "\<not> frames_ok P gs"
proof
  assume ok: "frames_ok P gs"
  have "8 + length (concat (map (frame P) gs)) < 2 ^ 64"
    using frames_okD(2) [OF ok] by (simp add: journal_image_def)
  then show False using frames_size_total [OF frames_okD(1) [OF ok], of 8 P] assms by simp
qed

lemma spec_compact_at:
  assumes j: "private_entry u (journal_image P fs) j" and h: "private_entry u (head_of P fs) h"
    and fs: "frames_ok P fs"
  shows "spec (frames_ok P gs) u (\<lambda>c. c = slots_of j h) (journal_compact P gs (handle_of P fs))
    (\<lambda>y c. y = handle_of P gs \<and> durable P u gs c) (compaction_leaves P u fs gs)"
    (is "spec ?s u ?I _ ?Q ?E")
proof -
  have "durable P u fs (slots_of j h)" using assms by (auto simp: durable_def)
  then have I: "?I c \<Longrightarrow> ?E c" for c using durable_recovers recovers_leaves by blast
  let ?t = "\<lparr>tf_meta = private_meta u, tf_bytes = JOURNAL_MAGIC, tf_older = torn [] JOURNAL_MAGIC\<rparr>"
  consider e where "frames_size (of_nat (length JOURNAL_MAGIC)) gs = Inl e"
    | a where "frames_size (of_nat (length JOURNAL_MAGIC)) gs = Inr a" "\<not> ?s"
    | a where "frames_size (of_nat (length JOURNAL_MAGIC)) gs = Inr a" ?s
    by (cases "frames_size (of_nat (length JOURNAL_MAGIC)) gs") auto
  then show ?thesis
  proof cases
    case (1 e)
    then show ?thesis using frames_size_Err I by (auto simp: journal_compact_def intro!: spec_err)
  next
    case (2 a)
    then show ?thesis using replacement_fits(2) [OF 2(1), of P] I
      by (auto simp: journal_compact_def intro!: spec_err)
  next
    case (3 a)
    then have "\<not> a > MAX_JOURNAL_BYTES" using replacement_fits(2) [OF 3(1), of P] by simp
    note body = spec_replace [OF j h fs 3(2), where t = ?t, OF _ _ replacement_fits(1) [OF 3(1)]]
    show ?thesis
      unfolding journal_compact_def 3(1) io_bind_simps if_not_P [OF \<open>\<not> a > MAX_JOURNAL_BYTES\<close>]
        temporary_sibling_def create_temp_def clear_inherited_acl_def temp_write_def
      by (rule spec_skip [OF I], assumption, rule spec_see [where x = "new_temp u"], simp, erule I,
          rule spec_skip [OF I], assumption, rule spec_then [OF spec_validate_temp], simp add: new_temp_def,
          erule I, rule spec_see [where x = ?t], simp add: new_temp_def, erule I, rule body) simp_all
  qed
qed

lemma spec_compact:
  "spec (frames_ok P gs) u (durable P u fs) (journal_compact P gs (handle_of P fs))
    (\<lambda>y c. y = handle_of P gs \<and> durable P u gs c) (compaction_leaves P u fs gs)"
  using spec_compact_at by (auto simp: durable_def spec_def)

section \<open>A new file under an old witness\<close>

text \<open>The committed bytes share their length and digest with no prefix of the replacement.\<close>

definition distinguishes :: "prims \<Rightarrow> bytes list \<Rightarrow> bytes list \<Rightarrow> bool" where
  "distinguishes P fs gs \<longleftrightarrow> (\<forall>n \<le> length gs. \<not> collides P (journal_image P (take n gs)) (journal_image P fs))"

definition stale :: "prims \<Rightarrow> u32 \<Rightarrow> bytes list \<Rightarrow> bytes list \<Rightarrow> dir_entry option \<Rightarrow> dir_entry option \<Rightarrow> bool" where
  "stale P u fs gs j h \<longleftrightarrow> frames_ok P fs \<and> frames_ok P gs \<and> private_entry u (journal_image P gs) j \<and>
     private_entry u (head_of P fs) h \<and> \<not> prefix fs gs \<and> distinguishes P fs gs"

lemma image_prefix_take:
  assumes "frames_ok P gs" and "\<forall>p \<in> set hs. payload_ok p" and "take k (journal_image P gs) = journal_image P hs"
  shows "\<exists>n \<le> length gs. hs = take n gs"
proof -
  have gs: "\<forall>p \<in> set gs. payload_ok p" using frames_okD(1) [OF assms(1)] .
  have "8 \<le> k" using arg_cong [OF assms(3), of length] by (simp add: journal_image_def)
  then have "journal_image P hs = journal_image P [] @ take (k - 8) (concat (map (frame P) gs))"
    unfolding assms(3) [symmetric] by (simp add: journal_image_def)
  then obtain n where "parse_frames P (journal_image P hs) = Ok (take n gs, length (journal_image P (take n gs)))"
    using parse_cut_image [of "[]" gs P "k - 8"] gs by auto
  then have "hs = take n gs" using parse_image [OF assms(2), of P] by simp
  then show ?thesis by (auto intro!: exI [of _ "min n (length gs)"] simp: min_def)
qed

lemma reconcile_stale:
  assumes "stale P u fs gs j h"
  shows "\<exists>e. reconcile P gs (length (journal_image P gs)) (journal_image P gs)
    (journal_witness P (journal_image P gs) (length gs)) (Some (journal_witness P (journal_image P fs) (length fs))) = io_err e"
proof -
  let ?bs = "journal_image P gs" and ?w = "journal_witness P (journal_image P fs) (length fs)"
  have ok: "frames_ok P fs" "frames_ok P gs" "\<not> prefix fs gs" "distinguishes P fs gs" using assms by (simp_all add: stale_def)
  have no: "\<not> witnessed P ?w hs" if slice: "slice ?bs 0 k = Some (journal_image P hs)" for hs k
  proof
    assume w: "witnessed P ?w hs"
    have hs: "\<forall>p \<in> set hs. payload_ok p" using w by (simp add: witnessed_def frames_ok_def)
    have "take k ?bs = journal_image P hs" using slice by (auto simp: slice_def split: if_splits)
    then obtain n where n: "n \<le> length gs" "hs = take n gs" using image_prefix_take [OF ok(2) hs] by blast
    then have "hs \<noteq> fs" using ok(3) take_is_prefix by blast
    then show False using witnessed_unique [OF w ok(1)] ok(4) n by (auto simp: distinguishes_def)
  qed
  have bs: "parse_frames P ?bs = Ok (gs, length ?bs)" "?bs = JOURNAL_MAGIC @ concat (map (frame P) gs)"
    "slice ?bs 0 (length ?bs) = Some ?bs" "length ?bs \<le> unat MAX_JOURNAL_BYTES"
    using parse_image [OF frames_okD(1) [OF ok(2)]] ok(2) by (simp_all add: slice_def frames_ok_def journal_image_def)
  note sound = spec_reconcile_any [OF bs, where u = 0 and I = "\<lambda>_. True" and w = ?w]
  let ?m = "reconcile P gs (length ?bs) ?bs (journal_witness P ?bs (length gs)) (Some ?w)"
  have "(\<exists>e. ?m = io_err e) \<or> (\<exists>y. ?m = io_ok y)"
    unfolding reconcile_def option.case
    by (cases "slice ?bs 0 (unat (wt_length ?w))"; cases "parse_frames P (the (slice ?bs 0 (unat (wt_length ?w))))") (auto, blast+)
  moreover have "?m \<noteq> io_ok (hs, k)" for hs k
  proof
    assume m: "?m = io_ok (hs, k)"
    define d where "d = \<lparr>dk_cells = undefined, dk_faults = [], dk_uid = (0 :: u32)\<rparr>"
    have "outcome_ok False 0 (\<lambda>(fs, k) c. True \<and> witnessed P ?w fs \<and> slice ?bs 0 k = Some (journal_image P fs)) (\<lambda>_. True) d (?m d)"
      by (rule specD [OF sound]) (simp_all add: d_def)
    then show False using no [of k hs] unfolding m by (simp add: io_ok_def)
  qed
  ultimately show ?thesis by (metis surj_pair)
qed

lemma spec_open_stale:
  assumes "stale P u fs gs j h"
  shows "spec False u (\<lambda>c. c = slots_of j h) (journal_open P) (\<lambda>_ _. False) (\<lambda>c. c = slots_of j h)"
    (is "spec False u ?I _ ?Q ?I")
proof -
  let ?bs = "journal_image P gs" and ?r = "concat (map (frame P) gs)"
  have entries: "private_entry u ?bs j" "private_entry u (head_of P fs) h" and gs: "frames_ok P gs"
    using assms by (simp_all add: stale_def)
  have bs: "?bs = JOURNAL_MAGIC @ ?r" "?bs \<noteq> []" by (simp_all add: journal_image_def JOURNAL_MAGIC_def ascii_def)
  have present: "\<exists>m b. j = Some (File m b)" "entry_bytes j = ?bs"
    using entries(1) private_entry_bytes by (auto simp: private_entry_def)
  obtain e where e: "reconcile P gs (length ?bs) ?bs (journal_witness P ?bs (length gs))
      (Some (journal_witness P (journal_image P fs) (length fs))) = io_err e"
    using reconcile_stale [OF assms] by blast
  have "spec False u ?I (io_bind (witness_read P) (\<lambda>w.
      io_bind (reconcile P gs (length ?bs) ?bs (journal_witness P ?bs (length gs)) w)
        (\<lambda>(frames, valid_length). finish_open ?bs frames valid_length))) ?Q ?I"
    by (rule spec_then [OF spec_witness_read [where w = "journal_witness P (journal_image P fs) (length fs)"]])
      (use entries e in \<open>auto simp: head_of_def intro: spec_err\<close>)
  moreover have "slice ?bs 0 (length ?bs) = Some ?bs" by (simp add: slice_def)
  ultimately have rest: "spec False u ?I (case (gs, length ?bs, ?bs) of (frames, valid_length, bs) \<Rightarrow>
        io_bind (io_lift (ok_or Rollback (slice bs 0 valid_length))) (\<lambda>valid.
        io_bind (witness_read P) (\<lambda>w.
        io_bind (reconcile P frames valid_length bs (journal_witness P valid (length frames)) w)
          (\<lambda>(frames, valid_length). finish_open bs frames valid_length)))) ?Q ?I"
    by (simp only: prod.case ok_or_simps io_bind_simps)
  have "spec False u ?I (read_frames P JournalPath) (\<lambda>y c. y = (gs, length ?bs, ?bs) \<and> ?I c) ?I"
    unfolding bs(1)
    by (rule spec_read_frames)
      (use present(2) bs(1) frames_okD(2) [OF gs] parse_image [OF frames_okD(1) [OF gs], of P] in auto)
  then have "spec False u ?I (recover_journal P) ?Q ?I"
    unfolding recover_journal_def using rest by (rule spec_then)
  then have "spec False u ?I (io_bind (sys (observe (\<lambda>d. length (file_bytes JournalPath d)))) (\<lambda>len.
      io_bind (if len = 0
        then io_bind (sys (write_all JournalPath JOURNAL_MAGIC)) (\<lambda>_. sys (sync_file JournalPath))
        else io_ok ()) (\<lambda>_. recover_journal P))) ?Q ?I"
    by (intro spec_see [where x = "length ?bs"]) (use present bs(2) in \<open>auto simp: file_bytes_def\<close>)
  then have "spec False u ?I (io_bind (if False then clear_inherited_acl else io_ok ()) (\<lambda>_.
      io_bind (validate_metadata JournalPath) (\<lambda>_.
      io_bind (sys (observe (\<lambda>d. length (file_bytes JournalPath d)))) (\<lambda>len.
      io_bind (if len = 0
        then io_bind (sys (write_all JournalPath JOURNAL_MAGIC)) (\<lambda>_. sys (sync_file JournalPath))
        else io_ok ()) (\<lambda>_. recover_journal P))))) ?Q ?I"
    unfolding if_False io_bind_simps
    by (rule spec_then [OF spec_validate_metadata [where bs = ?bs], rotated 2]) (use entries in auto)
  then show ?thesis
    unfolding journal_open_def
    by (rule spec_then [OF spec_open_or_create, rotated 2]) (use present in auto)
qed

section \<open>Properties of whole operations\<close>

text \<open>The states a power loss leaves are those the assertions speak of.\<close>

lemma spec_journal_append:
  "spec (frames_ok P (fs @ [p])) u (durable P u fs) (journal_append P p (handle_of P fs))
     (\<lambda>y c. y = handle_of P (fs @ [p]) \<and> durable P u (fs @ [p]) c) (recovers P u {fs, fs @ [p]})"
  unfolding append_is_batch by (rule spec_append_batch)

lemma durable_leaves: "durable P u fs c \<Longrightarrow> compaction_leaves P u fs gs c"
  using durable_recovers recovers_leaves by blast

lemma spec_byte_len:
  assumes "\<And>c. I c \<Longrightarrow> E c" and "\<And>c. I c \<Longrightarrow> entry_bytes (cl_now (c JournalPath)) = bs"
  shows "spec s u I (journal_byte_len j) (\<lambda>n c. n = length bs \<and> I c) E"
  unfolding journal_byte_len_def
  by (intro spec_sys spec_observe) (use assms in \<open>auto simp: file_bytes_def\<close>)

lemma durable_bytes: "durable P u fs c \<Longrightarrow> entry_bytes (cl_now (c JournalPath)) = journal_image P fs"
  using private_entry_bytes by (auto simp: durable_def)

lemma leaves_split:
  assumes "compaction_leaves P u fs gs c" and "frames_ok P fs" and "distinguishes P fs gs"
    and "j \<in> set (cell_outcomes (c JournalPath))" and "h \<in> set (cell_outcomes (c HeadPath))"
  shows "recoverable P u fs j h \<or> recoverable P u gs j h \<or> stale P u fs gs j h"
proof -
  have "recoverable P u fs j h"
    if "frames_ok P gs" "private_entry u (journal_image P gs) j" "private_entry u (head_of P fs) h" "prefix fs gs"
  proof -
    obtain xs where "gs = fs @ xs" using \<open>prefix fs gs\<close> by (auto simp: prefix_def)
    then show ?thesis using that assms(2) by (auto simp: recoverable_def journal_image_append)
  qed
  then show ?thesis using assms by (auto simp: compaction_leaves_def stale_def)
qed

lemma crash_state_slots:
  assumes "d2 \<in> set (crash_states d)"
  obtains j h where "j \<in> set (cell_outcomes (dk_cells d JournalPath))" "h \<in> set (cell_outcomes (dk_cells d HeadPath))"
    "dk_cells d2 = slots_of j h" "dk_uid d2 = dk_uid d" "dk_faults d2 = []"
  using assms by (auto simp: in_crash_states restart_def slots_of_def fun_eq_iff)

lemma open_recoverable:
  assumes "recoverable P u fs j h" and "dk_cells d = slots_of j h" and "dk_uid d = u" and "dk_faults d = []"
  shows "\<exists>d'. journal_open P d = (Ok (handle_of P fs, fs), d') \<and> durable P u fs (dk_cells d') \<and>
    dk_uid d' = u \<and> dk_faults d' = []"
proof -
  obtain r d' where r: "journal_open P d = (r, d')" by (cases "journal_open P d")
  have "outcome_ok True u (\<lambda>y c. y = (handle_of P fs, fs) \<and> durable P u fs c) (recovers P u {fs}) d (r, d')"
    using specD [OF spec_journal_open [OF assms(1)], of d] assms r by simp
  then show ?thesis using r assms(4) by (cases r) auto
qed

lemma open_after_crash:
  assumes "recovers P u S (dk_cells d)" and "dk_uid d = u" and "d2 \<in> set (crash_states d)"
  shows "\<exists>fs \<in> S. \<exists>d3. journal_open P d2 = (Ok (handle_of P fs, fs), d3) \<and> durable P u fs (dk_cells d3)"
proof -
  from assms(3) obtain j h where jh: "j \<in> set (cell_outcomes (dk_cells d JournalPath))"
    "h \<in> set (cell_outcomes (dk_cells d HeadPath))" and d2: "dk_cells d2 = slots_of j h" "dk_uid d2 = u" "dk_faults d2 = []"
    using assms(2) by (elim crash_state_slots) simp
  then obtain fs where "fs \<in> S" "recoverable P u fs j h" using assms(1) by (auto simp: recovers_def)
  then show ?thesis using open_recoverable [OF _ d2] by blast
qed

lemma append_batch_outcome:
  assumes "durable P u fs (dk_cells d)" and "dk_uid d = u"
    and "journal_append_batch P ps (handle_of P fs) d = (r, d')"
  shows "dk_uid d' = u" "recovers P u {fs, fs @ ps} (dk_cells d')"
    "r = Inr y \<Longrightarrow> y = handle_of P (fs @ ps) \<and> durable P u (fs @ ps) (dk_cells d')"
    "dk_faults d = [] \<Longrightarrow> frames_ok P (fs @ ps) \<Longrightarrow> is_ok r"
proof -
  have out: "outcome_ok (frames_ok P (fs @ ps)) u (\<lambda>y c. y = handle_of P (fs @ ps) \<and> durable P u (fs @ ps) c)
      (recovers P u {fs, fs @ ps}) d (r, d')"
    using specD [OF spec_append_batch assms(2,1)] assms(3) by metis
  then show "dk_uid d' = u" "r = Inr y \<Longrightarrow> y = handle_of P (fs @ ps) \<and> durable P u (fs @ ps) (dk_cells d')"
    "dk_faults d = [] \<Longrightarrow> frames_ok P (fs @ ps) \<Longrightarrow> is_ok r"
    by (cases r; simp)+
  show "recovers P u {fs, fs @ ps} (dk_cells d')"
    using out durable_recovers [of P u "fs @ ps" "dk_cells d'"] recovers_mono [of P u "{fs @ ps}" _ "{fs, fs @ ps}"]
    by (cases r) auto
qed

end
