(* ===== verification/Journal_Properties.thy ===== *)
theory Journal_Properties
  imports Journal_Durability
begin

text \<open>
  The promises of the journal as statements about its operations on a whole directory, for every
  schedule of faults and every power loss.
\<close>

section \<open>A directory to evaluate on\<close>

definition journal_disk :: "prims \<Rightarrow> u32 \<Rightarrow> bytes list \<Rightarrow> nat option list \<Rightarrow> disk" where
  "journal_disk P u fs faults =
     \<lparr>dk_cells = slots_of (Some (File (private_meta u) (journal_image P fs)))
        (Some (File (private_meta u) (head_of P fs))), dk_faults = faults, dk_uid = u\<rparr>"

lemma journal_disk_durable: "frames_ok P fs \<Longrightarrow> durable P u fs (dk_cells (journal_disk P u fs faults))"
proof -
  have "private_entry u bs (Some (File (private_meta u) bs))" for bs by (simp add: private_entry_def)
  then show "frames_ok P fs \<Longrightarrow> durable P u fs (dk_cells (journal_disk P u fs faults))"
    unfolding durable_def journal_disk_def by fastforce
qed

lemma journal_disk_simps [simp]:
  "dk_uid (journal_disk P u fs faults) = u" "dk_faults (journal_disk P u fs faults) = faults"
  "(journal_disk P u fs faults)\<lparr>dk_faults := faults'\<rparr> = journal_disk P u fs faults'"
  by (simp_all add: journal_disk_def)

abbreviation empty_journal :: "prims \<Rightarrow> u32 \<Rightarrow> nat option list \<Rightarrow> disk" where
  "empty_journal P u \<equiv> journal_disk P u []"

lemma empty_journal_durable [simp]: "durable P u [] (dk_cells (empty_journal P u faults))"
  by (rule journal_disk_durable) (simp add: frames_ok_def journal_image_def)

lemma hd_crash_states [simp]: "hd (crash_states d) \<in> set (crash_states d)"
  by (rule hd_in_set) (simp add: crash_states_def cell_outcomes_def)

section \<open>Appending\<close>

text \<open>
  C3. Appending is atomic and durable. Whatever system call fails and whatever a power loss then
  restores, reopening succeeds and yields the frames before the append or those with the new frame
  added; and once the append has returned success it yields the latter.
\<close>

theorem append_crash_safe:
  assumes "durable P (dk_uid d) fs (dk_cells d)"
    and "journal_append P p (handle_of P fs) d = (r, d')"
    and "d2 \<in> set (crash_states d')"
  shows "\<exists>gs d3. journal_open P d2 = (Ok (handle_of P gs, gs), d3) \<and> durable P (dk_uid d) gs (dk_cells d3) \<and>
    (gs = fs \<or> gs = fs @ [p]) \<and> (is_ok r \<longrightarrow> gs = fs @ [p])"
proof -
  note batch = assms(2) [unfolded append_is_batch]
  note out = append_batch_outcome [OF assms(1) refl batch]
  show ?thesis
  proof (cases r)
    case (Inl e)
    then show ?thesis using open_after_crash [OF out(2,1) assms(3)] by auto
  next
    case (Inr y)
    then have "recovers P (dk_uid d) {fs @ [p]} (dk_cells d')" using out(3) durable_recovers by blast
    then show ?thesis using open_after_crash [OF _ out(1) assms(3)] by fastforce
  qed
qed

theorem append_crash_safe_witness:
  "\<exists>gs d3. journal_open reference_prims (hd (crash_states (snd (journal_append reference_prims [7]
       (handle_of reference_prims []) (empty_journal reference_prims 0 [None, None, Some 3]))))) =
     (Ok (handle_of reference_prims gs, gs), d3) \<and> (gs = [] \<or> gs = [[7]])"
proof -
  let ?d = "empty_journal reference_prims 0 [None, None, Some 3]"
  have "durable reference_prims (dk_uid ?d) [] (dk_cells ?d)" by simp
  from append_crash_safe [OF this surjective_pairing hd_crash_states] show ?thesis by fastforce
qed

text \<open>
  C4. A batch of frames is committed as a whole: after any fault and any power loss reopening yields
  all of its frames or none of them.
\<close>

theorem append_batch_crash_safe:
  assumes "durable P (dk_uid d) fs (dk_cells d)"
    and "journal_append_batch P ps (handle_of P fs) d = (r, d')"
    and "d2 \<in> set (crash_states d')"
  shows "\<exists>gs d3. journal_open P d2 = (Ok (handle_of P gs, gs), d3) \<and> durable P (dk_uid d) gs (dk_cells d3) \<and>
    (gs = fs \<or> gs = fs @ ps) \<and> (is_ok r \<longrightarrow> gs = fs @ ps)"
proof -
  note out = append_batch_outcome [OF assms(1) refl assms(2)]
  show ?thesis
  proof (cases r)
    case (Inl e)
    then show ?thesis using open_after_crash [OF out(2,1) assms(3)] by auto
  next
    case (Inr y)
    then have "recovers P (dk_uid d) {fs @ ps} (dk_cells d')" using out(3) durable_recovers by blast
    then show ?thesis using open_after_crash [OF _ out(1) assms(3)] by fastforce
  qed
qed

theorem append_batch_crash_safe_witness:
  "\<exists>gs d3. journal_open reference_prims (hd (crash_states (snd (journal_append_batch reference_prims [[7], [8, 9]]
       (handle_of reference_prims []) (empty_journal reference_prims 0 [None, None, None, Some 0]))))) =
     (Ok (handle_of reference_prims gs, gs), d3) \<and> (gs = [] \<or> gs = [[7], [8, 9]])"
proof -
  let ?d = "empty_journal reference_prims 0 [None, None, None, Some 0]"
  have "durable reference_prims (dk_uid ?d) [] (dk_cells ?d)" by simp
  from append_batch_crash_safe [OF this surjective_pairing hd_crash_states] show ?thesis by fastforce
qed

text \<open>
  C20. Without faults an append of a non-empty payload of at most 64 KiB that fits under the 16 MiB
  ceiling succeeds, and the handle describes the longer journal.
\<close>

theorem append_succeeds:
  assumes "durable P (dk_uid d) fs (dk_cells d)" and "dk_faults d = []"
    and "payload_ok p" and "length (journal_image P fs) + length p + 36 \<le> unat MAX_JOURNAL_BYTES"
  shows "\<exists>d'. journal_append P p (handle_of P fs) d = (Ok (handle_of P (fs @ [p])), d') \<and>
    durable P (dk_uid d) (fs @ [p]) (dk_cells d')"
proof -
  obtain r d' where r: "journal_append_batch P [p] (handle_of P fs) d = (r, d')"
    by (cases "journal_append_batch P [p] (handle_of P fs) d")
  note out = append_batch_outcome [OF assms(1) refl r]
  have "frames_ok P fs" using assms(1) by (simp add: durable_def)
  then have "frames_ok P (fs @ [p])"
    using assms(3,4) by (simp add: frames_ok_def journal_image_append length_frame)
  then show ?thesis using out(3,4) assms(2) r by (auto simp: append_is_batch is_ok_iff)
qed

theorem append_succeeds_witness:
  "\<exists>d'. journal_append reference_prims [7] (handle_of reference_prims []) (empty_journal reference_prims 0 []) =
     (Ok (handle_of reference_prims [[7]]), d')"
  using append_succeeds [of reference_prims "empty_journal reference_prims 0 []" "[]" "[7]"]
  by (auto simp: payload_ok_def MAX_FRAME_BYTES_def journal_image_def)

section \<open>Rollback and compaction\<close>

lemma open_returns_witnessed:
  assumes "frames_ok P fs" and "private_entry (dk_uid d) (head_of P fs) (cl_now (dk_cells d HeadPath))"
    and "journal_open P d = (Ok (j, hs), d')"
  shows "j = handle_of P hs \<and> (hs = fs \<or> collides P (journal_image P hs) (journal_image P fs))"
proof -
  let ?w = "journal_witness P (journal_image P fs) (length fs)"
  have head: "private_entry (dk_uid d) (encode_witness P ?w) (cl_now (dk_cells d HeadPath))"
    using assms(2) by (simp add: head_of_def)
  have "outcome_ok False (dk_uid d) (\<lambda>(j, hs) _. j = handle_of P hs \<and>
      witnessed P ?w hs) (\<lambda>_. True) d (Ok (j, hs), d')"
    using specD [OF spec_open_witnessed refl, of d P ?w] head assms(3) by simp
  then show ?thesis using witnessed_unique [OF _ assms(1)] by simp
qed

text \<open>
  C5. Rollback detection. However the journal file was changed, truncated or replaced, when the head
  witness is the one written for the frames \<open>fs\<close> then opening yields exactly \<open>fs\<close> or fails, unless the
  bytes of the frames it yields and the committed ones differ, have one length and one SHA-256 digest.
\<close>

theorem open_detects_rollback:
  assumes "frames_ok P fs" and "private_entry (dk_uid d) (head_of P fs) (cl_now (dk_cells d HeadPath))"
    and "journal_open P d = (Ok (j, hs), d')"
  shows "j = handle_of P hs \<and> (hs = fs \<or> collides P (journal_image P hs) (journal_image P fs))"
  using assms by (rule open_returns_witnessed)

theorem open_detects_rollback_witness:
  "(let d = empty_journal reference_prims 0 [] in
    \<forall>j hs d'. journal_open reference_prims d = (Ok (j, hs), d') \<longrightarrow>
      j = handle_of reference_prims hs \<and> (hs = [] \<or> collides reference_prims (journal_image reference_prims hs) (journal_image reference_prims []))) \<and>
   (\<exists>j d'. journal_open reference_prims (empty_journal reference_prims 0 []) = (Ok (j, []), d'))"
proof -
  let ?P = reference_prims and ?d = "empty_journal reference_prims 0 []"
  have ok: "frames_ok ?P []" by (simp add: frames_ok_def journal_image_def)
  have head: "private_entry (dk_uid ?d) (head_of ?P []) (cl_now (dk_cells ?d HeadPath))"
    by (simp add: journal_disk_def private_entry_def)
  have "recovers ?P 0 {[]} (dk_cells ?d)" by (rule durable_recovers) simp
  then obtain j h where "recoverable ?P 0 [] j h" "dk_cells ?d = slots_of j h"
    by (auto simp: recovers_settled journal_disk_def)
  then have "\<exists>j d'. journal_open ?P ?d = (Ok (j, []), d')"
    using open_recoverable [of ?P 0 "[]" j h ?d] by auto
  then show ?thesis unfolding Let_def using open_detects_rollback [OF ok head] by blast
qed

text \<open>
  C15. Compaction. Once it has returned success the new frames are durable; after any fault and any
  power loss, whatever reopening returns is the old frames or the new ones, unless the bytes it returns
  and the old ones are two inputs of one length with one SHA-256 digest.
\<close>

theorem compact_crash_safe:
  assumes "durable P (dk_uid d) fs (dk_cells d)"
    and "journal_compact P gs (handle_of P fs) d = (r, d')"
    and "d2 \<in> set (crash_states d')"
  shows "(is_ok r \<longrightarrow> (\<exists>d3. journal_open P d2 = (Ok (handle_of P gs, gs), d3))) \<and>
    (\<forall>j hs d3. journal_open P d2 = (Ok (j, hs), d3) \<longrightarrow>
       hs = fs \<or> hs = gs \<or> collides P (journal_image P hs) (journal_image P fs))"
proof -
  let ?u = "dk_uid d"
  have fs: "frames_ok P fs" using assms(1) by (simp add: durable_def)
  have out: "outcome_ok (frames_ok P gs) ?u (\<lambda>y c. y = handle_of P gs \<and> durable P ?u gs c)
      (compaction_leaves P ?u fs gs) d (r, d')"
    using specD [OF spec_compact refl assms(1)] assms(2) by metis
  obtain j h where jh: "j \<in> set (cell_outcomes (dk_cells d' JournalPath))" "h \<in> set (cell_outcomes (dk_cells d' HeadPath))"
    and d2: "dk_cells d2 = slots_of j h" "dk_uid d2 = ?u" "dk_faults d2 = []"
    using out by (cases r) (auto intro: crash_state_slots [OF assms(3)])
  have new: "recovers P ?u {gs} (dk_cells d')" if "is_ok r"
    using out that durable_recovers by (cases r) auto
  then have "is_ok r \<longrightarrow> (\<exists>d3. journal_open P d2 = (Ok (handle_of P gs, gs), d3))"
    using open_after_crash [of P ?u "{gs}" d' d2] out assms(3) by (cases r) auto
  moreover have "compaction_leaves P ?u fs gs (dk_cells d')"
    using out new recovers_leaves [of P ?u fs "dk_cells d'" gs] by (cases r) auto
  then consider "recoverable P ?u fs j h" | "recoverable P ?u gs j h" | "private_entry ?u (head_of P fs) h"
    using jh by (auto simp: compaction_leaves_def)
  then have "hs = fs \<or> hs = gs \<or> collides P (journal_image P hs) (journal_image P fs)"
    if "journal_open P d2 = (Ok (k, hs), d3)" for k hs d3
  proof cases
    case 1
    then show ?thesis using open_recoverable [OF 1 d2] that by auto
  next
    case 2
    then show ?thesis using open_recoverable [OF 2 d2] that by auto
  next
    case 3
    then show ?thesis using open_returns_witnessed [OF fs _ that] d2 by auto
  qed
  ultimately show ?thesis by blast
qed

theorem compact_crash_safe_witness:
  "\<exists>d'. journal_compact reference_prims [[7]] (handle_of reference_prims []) (empty_journal reference_prims 0 []) =
      (Ok (handle_of reference_prims [[7]]), d') \<and>
    (\<exists>d3. journal_open reference_prims (hd (crash_states d')) = (Ok (handle_of reference_prims [[7]], [[7]]), d3))"
proof -
  let ?P = reference_prims and ?d = "empty_journal reference_prims 0 []"
  let ?m = "journal_compact ?P [[7]] (handle_of ?P [])"
  obtain r d' where r: "?m ?d = (r, d')" by (cases "?m ?d")
  have dur: "durable ?P (dk_uid ?d) [] (dk_cells ?d)" by simp
  have "frames_ok ?P [[7]]"
    by (simp add: frames_ok_def payload_ok_def MAX_FRAME_BYTES_def length_journal_image)
  then have "outcome_ok True (dk_uid ?d) (\<lambda>y c. y = handle_of ?P [[7]] \<and> durable ?P (dk_uid ?d) [[7]] c)
      (compaction_leaves ?P (dk_uid ?d) [] [[7]]) ?d (r, d')"
    using specD [OF spec_compact refl dur, of "[[7]]"] r by simp
  then have ok: "r = Ok (handle_of ?P [[7]])" by (cases r) auto
  then show ?thesis using compact_crash_safe [OF dur r hd_crash_states] r by auto
qed

section \<open>An interrupted compaction\<close>

text \<open>Runs under a schedule that lets the next call succeed.\<close>

lemma next_call:
  "io_bind (sys (observe f)) k (d\<lparr>dk_faults := None # fs\<rparr>) = k (f (d\<lparr>dk_faults := fs\<rparr>)) (d\<lparr>dk_faults := fs\<rparr>)"
  "io_bind (sys (rename_temp t p)) k1 (d\<lparr>dk_faults := None # fs\<rparr>) = k1 () ((on_cell p (cell_install t) d)\<lparr>dk_faults := fs\<rparr>)"
  "io_bind (sys sync_directory) k1 (d\<lparr>dk_faults := None # fs\<rparr>) =
     k1 () (d\<lparr>dk_cells := (\<lambda>p. cell_sync_entry (dk_cells d p)), dk_faults := fs\<rparr>)"
  "io_bind (sys (observe f)) k (d\<lparr>dk_faults := Some t' # fs\<rparr>) = (Err (Io OtherIo), d\<lparr>dk_faults := fs\<rparr>)"
  by (cases d; simp add: io_bind_def sys_def io_map_err_def observe_def syscall_def pop_fault_def rename_temp_def
      sync_directory_def on_cell_def)+

lemma io_bind_run: "m d = (Ok x, d') \<Longrightarrow> io_bind m k d = k x d'"
  by (simp add: io_bind_def)

lemma write_replacement_runs:
  assumes "\<forall>p \<in> set gs. payload_ok p"
  shows "\<exists>g. write_replacement P f h gs (d\<lparr>dk_faults := replicate (3 * length gs) None @ fs\<rparr>) =
    (Ok (g, h @ concat (map (frame P) gs)), d\<lparr>dk_faults := fs\<rparr>) \<and>
    tf_bytes g = tf_bytes f @ concat (map (frame P) gs) \<and> tf_meta g = tf_meta f"
  using assms
proof (induction gs arbitrary: f h)
  case Nil
  then show ?case by (simp add: io_ok_def)
next
  case (Cons p gs)
  let ?w = "\<lambda>f bs. f\<lparr>tf_bytes := tf_bytes f @ bs, tf_older := torn (tf_bytes f) bs @ tf_older f\<rparr>"
  let ?g = "?w (?w (?w f (frame_length_bytes p)) p) (checksum P (frame_length_bytes p) p)"
  have three: "replicate (3 * length (p # gs)) None = None # None # None # replicate (3 * length gs) (None :: nat option)"
    by (simp add: numeral_3_eq_3)
  have "write_replacement P f h (p # gs) (d\<lparr>dk_faults := replicate (3 * length (p # gs)) None @ fs\<rparr>) =
      write_replacement P ?g (h @ frame P p) gs (d\<lparr>dk_faults := replicate (3 * length gs) None @ fs\<rparr>)"
    using Cons.prems unfolding three by (simp add: temp_write_def next_call update_frame_hash_def)
  moreover have "tf_bytes ?g = tf_bytes f @ frame P p" "tf_meta ?g = tf_meta f" by (simp_all add: frame_def)
  ultimately show ?case using Cons.IH [of ?g "h @ frame P p"] Cons.prems by simp
qed

lemma compact_stops:
  assumes "frames_ok P gs" and "dk_cells d = slots_of j h"
  shows "\<exists>faults k e d'. journal_compact P gs J (d\<lparr>dk_faults := faults\<rparr>) = (Err e, d') \<and>
    dk_cells d' = slots_of k h \<and> private_entry (dk_uid d) (journal_image P gs) k \<and> dk_uid d' = dk_uid d"
proof -
  let ?faults = "[None, None, None, None, None] @ replicate (3 * length gs) None @ [None, None, None, None, Some 0 :: nat option]"
  have size: "frames_size (of_nat (length JOURNAL_MAGIC)) gs = Ok (of_nat (length (journal_image P gs)))"
    using frames_size_total [OF frames_okD(1) [OF assms(1)], of "length JOURNAL_MAGIC" P] frames_okD(2) [OF assms(1)]
    by (simp add: journal_image_def)
  have fits: "\<not> (of_nat (length (journal_image P gs)) :: u64) > MAX_JOURNAL_BYTES"
    using replacement_fits(2) [OF size, of P] assms(1) by simp
  let ?t = "\<lparr>tf_meta = private_meta (dk_uid d), tf_bytes = JOURNAL_MAGIC, tf_older = torn [] JOURNAL_MAGIC\<rparr>"
  obtain f where run: "write_replacement P ?t JOURNAL_MAGIC gs (d\<lparr>dk_faults := replicate (3 * length gs) None @ [None, None, None, None, Some 0]\<rparr>) =
      (Ok (f, journal_image P gs), d\<lparr>dk_faults := [None, None, None, None, Some 0]\<rparr>)"
    and f: "tf_bytes f = journal_image P gs" "tf_meta f = private_meta (dk_uid d)"
    using write_replacement_runs [OF frames_okD(1) [OF assms(1)], where P = P and f = ?t and h = JOURNAL_MAGIC and d = d and fs = "[None, None, None, None, Some 0]"]
    by (auto simp: journal_image_def)
  let ?f = "f\<lparr>tf_older := []\<rparr>"
  let ?d1 = "on_cell JournalPath (cell_install ?f) d"
  let ?d2 = "?d1\<lparr>dk_cells := (\<lambda>p. cell_sync_entry (dk_cells ?d1 p)), dk_faults := []\<rparr>"
  have "journal_compact P gs J (d\<lparr>dk_faults := ?faults\<rparr>) = (Err (Io OtherIo), ?d2)"
    unfolding journal_compact_def size io_bind_simps if_not_P [OF fits]
    using f
    by (simp add: temporary_sibling_def create_temp_def clear_inherited_acl_def validate_temp_def temp_write_def temp_sync_def
        sync_parent_def io_bind_assoc witness_write_def new_temp_def next_call io_bind_run [where m = "write_replacement P ?t JOURNAL_MAGIC gs", OF run])
  moreover have "dk_cells ?d2 = slots_of (Some (File (tf_meta f) (tf_bytes f))) h"
    using assms(2) by (intro slots_eqI) (auto simp: cell_install_def cell_sync_entry_def, auto simp: settled_def)
  moreover have "private_entry (dk_uid d) (journal_image P gs) (Some (File (tf_meta f) (tf_bytes f)))"
    using f by (simp add: private_entry_def)
  ultimately show ?thesis by (intro exI [of _ ?faults]) auto
qed


end
