(* ===== verification/State_Durability.thy ===== *)
theory State_Durability
  imports State_Replay Journal_Properties
begin

text \<open>
  The state in memory against the journal on disk: while an operation runs under any faults, the
  state is the replay of the durable frames, and what a power loss leaves replays to the state before
  the operation or after it.
\<close>

section \<open>Compacting and appending\<close>

lemma sspec_journal_mut:
  assumes "ls_journal st = Some j" and "sspec s u st I (f j) Q E"
  shows "sspec s u st I (so_bind journal_mut f) Q E"
proof -
  have "so_bind journal_mut f st d = f j st d" for d
    using assms(1) by (simp add: journal_mut_def so_bind_def so_get_def so_lift_def)
  then show ?thesis using assms(2) by (simp add: sspec_def)
qed

lemma sspec_compact:
  assumes "ls_journal st = Some (handle_of P fs)" and "compaction_frames P st = Ok cs"
  shows "sspec (frames_ok P cs) u st (durable P u fs) (compact P)
    (\<lambda>_ st' c. st' = st\<lparr>ls_journal := Some (handle_of P cs), ls_event_count := of_nat (length cs)\<rparr> \<and> durable P u cs c)
    (\<lambda>st' c. st' = st\<lparr>ls_journal := None\<rparr> \<and> compaction_leaves P u fs cs c)"
proof -
  have "compact P st d = so_bind (so_attempt (journal_compact P cs (handle_of P fs))) (\<lambda>outcome. case outcome of
         Inl error \<Rightarrow> so_bind take_journal (\<lambda>_. so_err (StateError.Journal error))
       | Inr journal \<Rightarrow> so_modify (\<lambda>st. st\<lparr>ls_journal := Some journal, ls_event_count := of_nat (length cs)\<rparr>)) st d" for d
    using assms by (simp add: compact_def journal_mut_def so_bind_lift so_bind_def so_get_def so_lift_def)
  then have run: "sspec s u st I (compact P) Q E \<longleftrightarrow> sspec s u st I (so_bind (so_attempt (journal_compact P cs (handle_of P fs)))
      (\<lambda>outcome. case outcome of
         Inl error \<Rightarrow> so_bind take_journal (\<lambda>_. so_err (StateError.Journal error))
       | Inr journal \<Rightarrow> so_modify (\<lambda>st. st\<lparr>ls_journal := Some journal, ls_event_count := of_nat (length cs)\<rparr>))) Q E"
    for s I Q E by (simp add: sspec_def)
  show ?thesis
    unfolding run
    by (rule sspec_attempt [OF spec_compact])
      (auto simp: take_journal_def intro!: sspec_modify sspec_bind_modify sspec_err)
qed

lemma sspec_compact_if_needed:
  assumes "ls_journal st = Some (handle_of P fs)" and "compaction_frames P st = Ok cs"
  shows "sspec (frames_ok P cs) u st (durable P u fs) (compact_if_needed P)
    (\<lambda>_ st' c. (st' = st \<and> durable P u fs c \<and> length (journal_image P fs) < 2 ^ 20) \<or>
      (st' = st\<lparr>ls_journal := Some (handle_of P cs), ls_event_count := of_nat (length cs)\<rparr> \<and> durable P u cs c))
    (\<lambda>st' c. (st' = st \<or> st' = st\<lparr>ls_journal := None\<rparr>) \<and> compaction_leaves P u fs cs c)"
  (is "sspec ?s u st ?I _ ?Q ?E")
proof -
  have small: "unat AUTHORITATIVE_COMPACTION_THRESHOLD_BYTES = 2 ^ 20"
    by (simp add: AUTHORITATIVE_COMPACTION_THRESHOLD_BYTES_def)
  have compact: "sspec ?s u st (\<lambda>c. n = length (journal_image P fs) \<and> ?I c) (compact P) ?Q ?E" for n
    by (rule sspec_weaken [OF sspec_compact [OF assms]]) auto
  show ?thesis
    unfolding compact_if_needed_def
  proof (intro sspec_journal_mut [OF assms(1)] sspec_attempt [OF spec_byte_len [where I = ?I and E = "compaction_leaves P u fs cs"]])
    fix n
    show "sspec ?s u st (\<lambda>c. n = length (journal_image P fs) \<and> ?I c)
      (case Inr n of Inl error \<Rightarrow> so_err (StateError.Journal error)
        | Inr len \<Rightarrow> if unat AUTHORITATIVE_COMPACTION_THRESHOLD_BYTES \<le> len then compact P else so_ok ()) ?Q ?E"
      using compact [of n] by (auto simp: small intro: sspec_ok)
  qed (auto simp: durable_leaves durable_bytes intro!: sspec_err)
qed

lemma compact_if_needed_errs:
  assumes "ls_journal st = Some j" and "compaction_frames P st = Ok cs"
    and "compact_if_needed P st d = (Inl e, st', d')"
  shows "is_journal_error e"
  using assms
  by (auto simp: compact_if_needed_def compact_def journal_mut_def take_journal_def so_bind_def so_get_def so_lift_def
      so_attempt_def so_err_def so_ok_def so_modify_def is_journal_error_def
      split: prod.splits sum.splits if_splits)

lemma frames_ok_small:
  assumes "frames_ok P fs" and "payload_ok p" and "length (journal_image P fs) < 2 ^ 20"
  shows "frames_ok P (fs @ [p])"
  using assms by (auto simp: frames_ok_def payload_ok_def MAX_FRAME_BYTES_def journal_image_append length_frame)

text \<open>What an interrupted append may leave: the old frames, the compacted ones, and either with the new one.\<close>

definition append_leaves :: "prims \<Rightarrow> u32 \<Rightarrow> bytes list \<Rightarrow> bytes list \<Rightarrow> bytes \<Rightarrow> slots \<Rightarrow> bool" where
  "append_leaves P u fs cs p c \<longleftrightarrow>
     recovers P u {fs, fs @ [p]} c \<or> recovers P u {cs, cs @ [p]} c \<or> compaction_leaves P u fs cs c"

lemma sspec_append_or_compact:
  assumes "ls_journal st = Some (handle_of P gs)" and "frames_ok P (gs @ [p])" and "gs = fs \<or> gs = cs"
  shows "sspec True u st (durable P u gs) (append_or_compact P p)
    (\<lambda>_ st' c. st' = st\<lparr>ls_journal := Some (handle_of P (gs @ [p]))\<rparr> \<and> durable P u (gs @ [p]) c)
    (\<lambda>st' c. st' = st\<lparr>ls_journal := None\<rparr> \<and> append_leaves P u fs cs p c)" (is "sspec True u st _ _ ?Q ?E")
  unfolding append_or_compact_def
proof (rule sspec_journal_mut [OF assms(1)], rule sspec_attempt)
  show "spec True u (durable P u gs) (journal_append P p (handle_of P gs))
      (\<lambda>y c. y = handle_of P (gs @ [p]) \<and> durable P u (gs @ [p]) c) (recovers P u {gs, gs @ [p]})"
    using spec_journal_append [of P gs p u] assms(2) by simp
next
  fix e d d' assume "durable P u gs (dk_cells d)" "journal_append P p (handle_of P gs) d = (Inl e, d')"
  then have "e \<noteq> JournalFull" by (rule append_not_full [OF _ assms(2)])
  then show "sspec False u st (recovers P u {gs, gs @ [p]})
     (case Inl e of Inl error \<Rightarrow> if error = JournalFull then retry_append P p
           else so_bind take_journal (\<lambda>_. so_err (StateError.Journal error)) | Inr journal \<Rightarrow> set_journal journal) ?Q ?E"
    using assms(3) by (auto simp: take_journal_def append_leaves_def intro!: sspec_bind_modify sspec_err)
qed (auto simp: set_journal_def intro!: sspec_modify)

lemma sspec_append_authoritative:
  assumes "ls_journal st = Some (handle_of P fs)" and "compaction_frames P st = Ok cs" and cs: "frames_ok P cs"
    and small: "length (journal_image P cs) < 2 ^ 20" and p: "payload_ok p" and fs: "frames_ok P fs"
  shows "sspec True u st (durable P u fs) (append_authoritative P p)
    (\<lambda>_ st' c. \<exists>gs n. (gs = fs \<and> n = ls_event_count st \<or> gs = cs \<and> n = of_nat (length cs)) \<and>
       st' = st\<lparr>ls_journal := Some (handle_of P (gs @ [p])), ls_event_count := n\<rparr> \<and> durable P u (gs @ [p]) c)
    (\<lambda>st' c. \<exists>n. st' = st\<lparr>ls_journal := None, ls_event_count := n\<rparr> \<and> append_leaves P u fs cs p c)"
    (is "sspec True u st _ _ ?Q ?E")
  unfolding append_authoritative_def
proof (rule sspec_catch [OF sspec_compact_if_needed [OF assms(1,2), unfolded eqTrueI [OF cs]]]; unfold sum.case)
  fix st'
  let ?cs = "st\<lparr>ls_journal := Some (handle_of P cs), ls_event_count := of_nat (length cs)\<rparr>"
  have old: "sspec True u st (durable P u fs) (append_or_compact P p) ?Q ?E"
    if "length (journal_image P fs) < 2 ^ 20"
    by (rule sspec_weaken [OF sspec_append_or_compact [OF assms(1) frames_ok_small [OF fs p that], of fs cs]])
      (auto intro!: exI [of _ fs] exI [of _ "ls_event_count st"])
  have new: "sspec True u ?cs (durable P u cs) (append_or_compact P p) ?Q ?E"
    by (rule sspec_weaken [OF sspec_append_or_compact [OF _ frames_ok_small [OF cs p small], of ?cs fs cs]])
      (auto intro!: exI [of _ cs] exI [of _ "of_nat (length cs)"])
  show "sspec True u st' (\<lambda>c. (st' = st \<and> durable P u fs c \<and> length (journal_image P fs) < 2 ^ 20) \<or>
      (st' = ?cs \<and> durable P u cs c)) (append_or_compact P p) ?Q ?E"
  proof (rule sspec_disj)
    show "sspec True u st' (\<lambda>c. st' = st \<and> durable P u fs c \<and> length (journal_image P fs) < 2 ^ 20)
        (append_or_compact P p) ?Q ?E"
      by (rule sspec_weaken [OF sspec_pure [where A = "st' = st \<and> length (journal_image P fs) < 2 ^ 20"
            and I = "durable P u fs"]]) (use old in auto)
    show "sspec True u st' (\<lambda>c. st' = ?cs \<and> durable P u cs c) (append_or_compact P p) ?Q ?E"
      by (rule sspec_pure) (use new in simp)
  qed
next
  fix e d st' d' assume "compact_if_needed P st d = (Inl e, st', d')"
  then have "is_journal_error e" by (rule compact_if_needed_errs [OF assms(1,2)])
  then show "sspec False u st' (\<lambda>c. (st' = st \<or> st' = st\<lparr>ls_journal := None\<rparr>) \<and> compaction_leaves P u fs cs c)
      (so_bind (if is_journal_error e then take_journal else so_ok ()) (\<lambda>_. so_err e)) ?Q ?E"
    by (auto simp: take_journal_def append_leaves_def intro!: sspec_bind_modify sspec_err
        exI [of _ "ls_event_count st"])
qed

section \<open>Transitions\<close>

text \<open>What an event does to the state in memory.\<close>

fun effect :: "StateEvent \<Rightarrow> LocalState \<Rightarrow> LocalState" where
  "effect (Sequence _ n) st = st\<lparr>ls_sequence := n, ls_event_count := saturating_add (ls_event_count st) 1\<rparr>"
| "effect (MembershipEvent m) st =
     st\<lparr>ls_memberships := bt_insert (node_of m) m (ls_memberships st), ls_last_membership_serial := serial_of m,
       ls_event_count := saturating_add (ls_event_count st) 1\<rparr>"
| "effect (RevocationEvent r) st =
     st\<lparr>ls_revocations := r, ls_event_count := saturating_add (ls_event_count st) 1\<rparr>"
| "effect _ st = st"

lemma apply_replayed_effect: "apply_replayed P st e = Ok st' \<Longrightarrow> st' = effect e st \<and> \<not> is_checkpoint e"
  by (cases e) (auto simp: result_simps)

lemma apply_replayed_elsewhere:
  "apply_replayed P st e = Ok st' \<Longrightarrow>
     apply_replayed P (st\<lparr>ls_journal := j, ls_event_count := n\<rparr>) e = Ok (effect e (st\<lparr>ls_journal := j, ls_event_count := n\<rparr>))"
  by (cases e) (auto simp: result_simps)

lemma apply_replayed_wf: "apply_replayed P st e = Ok st' \<Longrightarrow> event_wf P e"
  by (cases e) (auto simp: result_simps verify_membership_Ok verify_revocations_Ok)

text \<open>The state without its journal handle and its count of frames, which compaction changes.\<close>

definition core :: "LocalState \<Rightarrow> LocalState" where
  "core st = st\<lparr>ls_journal := None, ls_event_count := 0\<rparr>"

lemma core_simps [simp]:
  "core (st\<lparr>ls_journal := j\<rparr>) = core st" "core (st\<lparr>ls_event_count := n\<rparr>) = core st"
  "core (st\<lparr>ls_journal := j, ls_event_count := n\<rparr>) = core st"
  "core (effect e (st\<lparr>ls_journal := j\<rparr>)) = core (effect e st)"
  "core (effect e (st\<lparr>ls_journal := j, ls_event_count := n\<rparr>)) = core (effect e st)"
  by (simp_all add: core_def) (cases e; simp)+

text \<open>The state is the replay of the durable frames.\<close>

definition logged :: "prims \<Rightarrow> u32 \<Rightarrow> LocalState \<Rightarrow> bytes list \<Rightarrow> slots \<Rightarrow> bool" where
  "logged P u st fs c \<longleftrightarrow> durable P u fs c \<and> ls_journal st = Some (handle_of P fs) \<and>
     replay P (ls_identity st) (Some (handle_of P fs)) fs = Ok st"

text \<open>
  A directory at rest: whatever a power loss leaves of it holds frames that replay to one of the states
  \<open>V\<close>, or a compacted file under the witness of \<open>fs\<close>, which opening refuses.
\<close>

definition rests :: "prims \<Rightarrow> u32 \<Rightarrow> LocalIdentity \<Rightarrow> LocalState set \<Rightarrow> slots \<Rightarrow> bool" where
  "rests P u identity V c \<longleftrightarrow>
     (\<forall>j \<in> set (cell_outcomes (c JournalPath)). \<forall>h \<in> set (cell_outcomes (c HeadPath)).
        (\<exists>gs st. recoverable P u gs j h \<and> replay P identity None gs = Ok st \<and> core st \<in> V) \<or>
        (\<exists>fs gs. stale P u fs gs j h))"

text \<open>The journal shares its length and digest with no prefix of its compaction.\<close>

definition collision_free :: "prims \<Rightarrow> LocalState \<Rightarrow> bool" where
  "collision_free P st =
     (case ls_journal st of
        None \<Rightarrow> True
      | Some j \<Rightarrow> (case compaction_frames P st of
            Inl _ \<Rightarrow> True
          | Inr cs \<Rightarrow> \<forall>n \<le> length cs. \<not> collides P (journal_image P (take n cs)) (jn_hasher j)))"

definition ready :: "prims \<Rightarrow> u32 \<Rightarrow> LocalState \<Rightarrow> bytes list \<Rightarrow> slots \<Rightarrow> bool" where
  "ready P u st fs c \<longleftrightarrow> logged P u st fs c \<and> collision_free P st"

lemma state_open_Ok:
  "state_open P identity d = (Ok st, d') \<longleftrightarrow>
     (\<exists>j fs. journal_open P d = (Ok (j, fs), d') \<and> replay P identity (Some j) fs = Ok st)"
  by (auto simp: state_open_def open_journal_def io_bind_def io_map_err_def map_err_def io_lift_def
      split: prod.splits sum.splits)

lemma replay_elsewhere:
  "replay P identity j gs = Ok st \<Longrightarrow> \<exists>st'. replay P identity None gs = Ok st' \<and> core st' = core st"
  using replay_journal [of P identity j gs st None] by auto

lemma append_leaves_rests:
  assumes "append_leaves P u fs cs p c" and "frames_ok P fs" and "distinguishes P fs cs"
    and V: "\<And>hs. hs \<in> {fs, fs @ [p], cs, cs @ [p]} \<Longrightarrow> \<exists>st. replay P identity None hs = Ok st \<and> core st \<in> V"
  shows "rests P u identity V c"
  unfolding rests_def
proof (intro ballI)
  fix j h assume jh: "j \<in> set (cell_outcomes (c JournalPath))" "h \<in> set (cell_outcomes (c HeadPath))"
  have "(\<exists>hs \<in> {fs, fs @ [p], cs, cs @ [p]}. recoverable P u hs j h) \<or> stale P u fs cs j h"
    using assms(1) jh leaves_split [OF _ assms(2,3) jh] by (auto simp: append_leaves_def recovers_def)
  then show "(\<exists>gs st. recoverable P u gs j h \<and> replay P identity None gs = Ok st \<and> core st \<in> V) \<or>
      (\<exists>fs gs. stale P u fs gs j h)"
    using V by blast
qed

lemma logged_authority: "logged P u st fs c \<Longrightarrow> \<exists>own ms. authority_ok P st own ms"
  using replay_authority by (auto simp: logged_def)

context primitives
begin

lemma compaction_fits:
  assumes "authority_ok P st own ms"
  shows "\<exists>cs. compaction_frames P st = Ok cs \<and> frames_ok P cs \<and> length (journal_image P cs) < 2 ^ 20 \<and>
    (\<forall>j. replay P (ls_identity st) j cs = Ok (st\<lparr>ls_journal := j, ls_event_count := of_nat (length cs)\<rparr>))"
proof -
  obtain g more l where cs: "compaction_frames P st = Ok (g # more @ [l])"
    and rep: "\<forall>j. replay P (ls_identity st) j (g # more @ [l]) = Ok (st\<lparr>ls_journal := j, ls_event_count := of_nat (length more + 2)\<rparr>)"
    and ends: "g \<noteq> []" "l \<noteq> []" "length g \<le> 9300" "length l \<le> 9300" and more: "encodes P more ms" "length ms < 256"
    using compaction_replays [OF assms] by blast
  have len: "length more < 256" and each: "\<And>f. f \<in> set more \<Longrightarrow> f \<noteq> [] \<and> length f \<le> 270"
    using more by (auto simp: encodes_def list_all2_conv_all_nth in_set_conv_nth)
  have "sum_list (map (\<lambda>p. length p + 36) more) \<le> sum_list (map (\<lambda>_. 306) more)"
    by (rule sum_list_mono) (use each in force)
  then have "sum_list (map (\<lambda>p. length p + 36) more) \<le> 306 * 256" using len by (simp add: sum_list_triv)
  then have small: "length (journal_image P (g # more @ [l])) < 2 ^ 20"
    using ends by (simp add: length_journal_image)
  moreover have "\<forall>f \<in> set (g # more @ [l]). payload_ok f"
    using ends each by (fastforce simp: payload_ok_def MAX_FRAME_BYTES_def)
  ultimately show ?thesis
    using cs rep by (auto simp: frames_ok_def intro!: exI [of _ "g # more @ [l]"])
qed

lemma sspec_commit:
  assumes "apply_replayed P st e = Ok st1" and "encode_event P e = Ok p"
  shows "sspec True u st (ready P u st fs) (so_bind (append_authoritative P p) (\<lambda>_. so_modify (effect e)))
    (\<lambda>_ st' c. (\<exists>gs. logged P u st' gs c) \<and> core st' = core (effect e st))
    (\<lambda>st' c. core st' = core st \<and> ls_journal st' = None \<and>
       rests P u (ls_identity st) {core st, core (effect e st)} c)"
proof (cases "\<exists>c. ready P u st fs c")
  case False
  then show ?thesis by (simp add: sspec_def)
next
  case True
  then have j: "ls_journal st = Some (handle_of P fs)" and st: "replay P (ls_identity st) (Some (handle_of P fs)) fs = Ok st"
    and fs: "frames_ok P fs" and free: "collision_free P st" by (auto simp: ready_def logged_def durable_def)
  obtain own ms where "authority_ok P st own ms" using True logged_authority unfolding ready_def by blast
  then obtain cs where cs: "compaction_frames P st = Ok cs" "frames_ok P cs" "length (journal_image P cs) < 2 ^ 20"
    and rep: "\<And>k. replay P (ls_identity st) k cs = Ok (st\<lparr>ls_journal := k, ls_event_count := of_nat (length cs)\<rparr>)"
    using compaction_fits by blast
  have dist: "distinguishes P fs cs"
    using free j cs(1) by (simp add: collision_free_def distinguishes_def handle_of_def)
  have dec: "decode_event P p = Ok e" using decode_encode_event apply_replayed_wf assms by blast
  have p: "payload_ok p"
    using encode_event_ok [OF apply_replayed_wf [OF assms(1)]] assms(2)
    by (auto simp: payload_ok_def MAX_FRAME_BYTES_def)
  have old: "replay P (ls_identity st) k fs = Ok (st\<lparr>ls_journal := k, ls_event_count := ls_event_count st\<rparr>)" for k
    using replay_journal [OF st, of k] by simp
  have ext: "replay P (ls_identity st) k (gs @ [p]) = Ok (effect e (st\<lparr>ls_journal := k, ls_event_count := n\<rparr>))"
    if "replay P (ls_identity st) k gs = Ok (st\<lparr>ls_journal := k, ls_event_count := n\<rparr>)" for gs k n
    using that dec apply_replayed_effect [OF assms(1)] apply_replayed_elsewhere [OF assms(1)] by (intro replay_extend) auto
  have leaves: "rests P u (ls_identity st) {core st, core (effect e st)} c" if "append_leaves P u fs cs p c" for c
    by (rule append_leaves_rests [OF that fs dist])
      (use old [of None] rep [of None] ext [OF old [of None]] ext [OF rep [of None]] in auto)
  have keep: "ls_identity (effect e s) = ls_identity s" "ls_journal (effect e s) = ls_journal s" for s
    by (cases e; simp)+
  let ?R = "\<lambda>st' c. \<exists>gs n. (gs = fs \<and> n = ls_event_count st \<or> gs = cs \<and> n = of_nat (length cs)) \<and>
    st' = st\<lparr>ls_journal := Some (handle_of P (gs @ [p])), ls_event_count := n\<rparr> \<and> durable P u (gs @ [p]) c"
  have step: "sspec True u st (ready P u st fs) (append_authoritative P p) (\<lambda>_. ?R)
     (\<lambda>st' c. core st' = core st \<and> ls_journal st' = None \<and> rests P u (ls_identity st) {core st, core (effect e st)} c)"
    by (rule sspec_weaken [OF sspec_append_authoritative [OF j cs p fs]]) (use leaves in \<open>auto simp: ready_def logged_def\<close>)
  show ?thesis
  proof (rule sspec_bind [OF step], rule sspec_modify)
    show "(\<exists>gs. logged P u (effect e st') gs c) \<and> core (effect e st') = core (effect e st)" if "?R st' c" for st' c
      using that ext [OF old] ext [OF rep] keep by (fastforce simp: logged_def)
  qed
qed

end

end
