(* ===== verification/State_Transitions.thy ===== *)
theory State_Transitions
  imports State_Durability
begin

text \<open>
  Every operation of the authoritative state as a transition by at most one valid event, under faults
  and power loss, and the histories of a device that runs them, fails, restarts and goes on.
\<close>

section \<open>Operations keep the state logged\<close>

text \<open>The states one valid event away.\<close>

definition successors :: "prims \<Rightarrow> LocalState \<Rightarrow> LocalState set" where
  "successors P st = insert (core st) {core st' |e st'. apply_replayed P st e = Ok st'}"

definition settled_at :: "prims \<Rightarrow> u32 \<Rightarrow> LocalState \<Rightarrow> LocalState \<Rightarrow> slots \<Rightarrow> bool" where
  "settled_at P u st st' c \<longleftrightarrow> (\<exists>gs. logged P u st' gs c) \<and> core st' \<in> successors P st \<and> ls_identity st' = ls_identity st"

definition suspended :: "prims \<Rightarrow> u32 \<Rightarrow> LocalState \<Rightarrow> LocalState \<Rightarrow> slots \<Rightarrow> bool" where
  "suspended P u st st' c \<longleftrightarrow> core st' = core st \<and> ls_journal st' = None \<and>
     rests P u (ls_identity st) (successors P st) c"

definition keeps :: "prims \<Rightarrow> u32 \<Rightarrow> LocalState \<Rightarrow> bytes list \<Rightarrow> 'a state_op \<Rightarrow> bool" where
  "keeps P u st fs m \<longleftrightarrow> sspec False u st (ready P u st fs) m (\<lambda>_. settled_at P u st)
     (\<lambda>st' c. settled_at P u st st' c \<or> suspended P u st st' c)"

lemma core_in_successors [simp]: "core st \<in> successors P st"
  by (simp add: successors_def)

lemma core_identity: "core st = core st' \<Longrightarrow> ls_identity st = ls_identity st'"
  by (cases st; cases st') (simp add: core_def)

lemma effect_identity [simp]: "ls_identity (effect e st) = ls_identity st"
  by (cases e) simp_all

lemma logged_settled: "logged P u st fs c \<Longrightarrow> settled_at P u st st c"
  by (auto simp: settled_at_def)

lemma ready_settled: "ready P u st fs c \<Longrightarrow> settled_at P u st st c"
  by (auto simp: ready_def intro: logged_settled)

lemma rests_mono: "rests P u i V c \<Longrightarrow> V \<subseteq> V' \<Longrightarrow> rests P u i V' c"
  unfolding rests_def by blast

lemma keeps_ok: "keeps P u st fs (so_ok x)"
  unfolding keeps_def by (rule sspec_ok) (rule ready_settled)

lemma keeps_err: "keeps P u st fs (so_err e)"
  unfolding keeps_def by (rule sspec_err) (simp add: ready_settled)

lemma keeps_lift: "keeps P u st fs (so_lift r)"
  by (cases r) (use keeps_ok keeps_err in \<open>simp_all add: so_lift_def so_ok_def so_err_def keeps_def sspec_def\<close>)

lemma keeps_get: "keeps P u st fs (f st) \<Longrightarrow> keeps P u st fs (so_bind so_get f)"
  unfolding keeps_def by (rule sspec_get)

lemma keeps_bind_lift: "(\<And>x. r = Inr x \<Longrightarrow> keeps P u st fs (f x)) \<Longrightarrow> keeps P u st fs (so_bind (so_lift r) f)"
  by (cases r) (simp_all add: keeps_err)

text \<open>What follows a transition only returns: it reads nothing and changes nothing.\<close>

definition returns :: "'a state_op \<Rightarrow> bool" where
  "returns m \<longleftrightarrow> (\<forall>st d. \<exists>r. m st d = (r, st, d))"

lemma returns_simps [simp]: "returns (so_ok x)" "returns (so_err e)" "returns (so_lift r)"
  by (simp_all add: returns_def so_run)

lemma keeps_then:
  assumes "keeps P u st fs m" and "\<And>x. returns (f x)"
  shows "keeps P u st fs (so_bind m f)"
  unfolding keeps_def
proof (rule sspec_bind [OF assms(1) [unfolded keeps_def]])
  fix x st'
  show "sspec False u st' (settled_at P u st st') (f x) (\<lambda>_. settled_at P u st)
     (\<lambda>st' c. settled_at P u st st' c \<or> suspended P u st st' c)"
  proof (rule sspecI)
    fix d r st2 d2 assume "dk_uid d = u" "settled_at P u st st' (dk_cells d)" "f x st' d = (r, st2, d2)"
    moreover have "st2 = st'" "d2 = d" using calculation(3) assms(2) [of x] by (auto simp: returns_def) (metis prod.inject)+
    ultimately show "outcome_ok False u (\<lambda>x. settled_at P u st st2) (\<lambda>c. settled_at P u st st2 c \<or> suspended P u st st2 c) d (r, d2)"
      by (cases r) auto
  qed
qed

lemma effect_eq:
  "effect (Sequence g n) = (\<lambda>st. st\<lparr>ls_sequence := n, ls_event_count := saturating_add (ls_event_count st) 1\<rparr>)"
  "effect (RevocationEvent r) = (\<lambda>st. st\<lparr>ls_revocations := r, ls_event_count := saturating_add (ls_event_count st) 1\<rparr>)"
  by auto

context primitives
begin

lemma keeps_commit:
  assumes "apply_replayed P st e = Ok st1" and "encode_event P e = Ok p"
  shows "keeps P u st fs (so_bind (append_authoritative P p) (\<lambda>_. so_modify (effect e)))"
proof -
  have next_in: "core (effect e st) \<in> successors P st"
    using assms(1) apply_replayed_effect [OF assms(1)] by (auto simp: successors_def)
  then have V: "{core st, core (effect e st)} \<subseteq> successors P st" by simp
  have "settled_at P u st st' c" if "(\<exists>gs. logged P u st' gs c) \<and> core st' = core (effect e st)" for st' c
    using that next_in core_identity [of st' "effect e st"] by (simp add: settled_at_def)
  moreover have "suspended P u st st' c"
    if "core st' = core st \<and> ls_journal st' = None \<and> rests P u (ls_identity st) {core st, core (effect e st)} c" for st' c
    using that rests_mono [OF _ V] by (simp add: suspended_def)
  ultimately show ?thesis
    unfolding keeps_def by (intro sspec_weaken [OF sspec_lax [OF sspec_commit [OF assms]]]) blast+
qed

lemma keeps_compact: "keeps P u st fs (compact P)"
proof (cases "\<exists>c. ready P u st fs c")
  case False
  then show ?thesis by (simp add: keeps_def sspec_def)
next
  case True
  then have j: "ls_journal st = Some (handle_of P fs)" and st: "replay P (ls_identity st) (Some (handle_of P fs)) fs = Ok st"
    and fs: "frames_ok P fs" and free: "collision_free P st" by (auto simp: ready_def logged_def durable_def)
  obtain own ms where "authority_ok P st own ms" using True logged_authority unfolding ready_def by blast
  then obtain cs where cs: "compaction_frames P st = Ok cs"
    and rep: "\<And>k. replay P (ls_identity st) k cs = Ok (st\<lparr>ls_journal := k, ls_event_count := of_nat (length cs)\<rparr>)"
    using compaction_fits by blast
  have dist: "distinguishes P fs cs"
    using free j cs by (simp add: collision_free_def distinguishes_def handle_of_def)
  have "replay P (ls_identity st) None fs = Ok (st\<lparr>ls_journal := None\<rparr>)" by (rule replay_journal [OF st])
  then have "rests P u (ls_identity st) (successors P st) c" if "compaction_leaves P u fs cs c" for c
    unfolding rests_def using leaves_split [OF that fs dist] rep [of None] by fastforce
  then show ?thesis
    unfolding keeps_def
    by (intro sspec_weaken [OF sspec_lax [OF sspec_compact [OF j cs]]])
      (use rep in \<open>auto simp: settled_at_def suspended_def ready_def logged_def\<close>)
qed

lemma keeps_reserve: "keeps P u st fs (reserve_next_sequence P)"
proof -
  have "keeps P u st fs (so_bind (so_bind (append_authoritative P p) (\<lambda>_. so_modify (effect (Sequence (ls_generation st) n))))
      (\<lambda>_. so_ok n))"
    if "checked_add (ls_sequence st) 1 = Some n" "encode_event P (Sequence (ls_generation st) n) = Ok p" for n p
    by (rule keeps_then [OF keeps_commit]) (use that in auto)
  note this [unfolded effect_eq]
  then show ?thesis
    unfolding reserve_next_sequence_def
    by (intro keeps_get keeps_bind_lift) (simp add: so_bind_assoc result_simps del: encode_event.simps)
qed

lemma keeps_persist_revocations:
  assumes "apply_replayed P st (RevocationEvent r) = Ok st1"
  shows "keeps P u st fs (persist_revocations P r)"
  unfolding persist_revocations_def using keeps_commit [OF assms, unfolded effect_eq]
  by (intro keeps_bind_lift) (simp del: encode_event.simps)

lemma keeps_issue:
  assumes "identity_wf P (ls_identity st)"
  shows "keeps P u st fs (issue_membership P key roles nonce t1 t2)"
proof -
  let ?node = "node_from_verifying_key P key"
  let ?cert = "\<lambda>serial. \<lparr>mc_version = MEMBERSHIP_VERSION, mc_hive_id = li_hive_id (ls_identity st), mc_node_id = ?node,
    mc_device_verifying_key = key, mc_serial = serial, mc_issued_at = t1, mc_expires_at = t2, mc_roles = roles,
    mc_admission_nonce = nonce\<rparr>"
  have "keeps P u st fs (so_bind (so_bind (append_authoritative P p) (\<lambda>_. so_modify (effect (MembershipEvent m)))) (\<lambda>_. so_ok m))"
    if "length (ls_memberships st) < MAX_HIVE_MEMBERS" "bt_get (ls_memberships st) ?node = None"
      "checked_add (ls_last_membership_serial st) 1 = Some serial" "li_root (ls_identity st) = Some root"
      "sign_membership P (?cert serial) root = Ok m" "encode_event P (MembershipEvent m) = Ok p" for serial root m p
  proof (rule keeps_then [OF keeps_commit])
    have "verify_membership P m (li_root_verifying_key (ls_identity st)) = Ok ()" "sm_certificate m = ?cert serial"
      using sign_membership_verifies [OF that(5)] assms that(4) by (auto simp: identity_wf_def)
    then show "apply_replayed P st (MembershipEvent m) = Ok (effect (MembershipEvent m) st)"
      using that by (simp add: not_le)
  qed (use that in auto)
  moreover have "effect (MembershipEvent m) = (\<lambda>st. st\<lparr>ls_memberships := bt_insert ?node m (ls_memberships st),
      ls_last_membership_serial := serial, ls_event_count := saturating_add (ls_event_count st) 1\<rparr>)"
    if "sign_membership P (?cert serial) root = Ok m" for serial root m
    using sign_membership_verifies [OF that] by auto
  ultimately show ?thesis
    unfolding issue_membership_def Let_def
    by (intro keeps_get)
      (auto simp: keeps_err not_le result_simps so_bind_assoc simp del: encode_event.simps effect.simps intro!: keeps_bind_lift)
qed

lemma keeps_authorize:
  assumes "identity_wf P (ls_identity st)"
  shows "keeps P u st fs (authorize_join_request P request node roles t1 t2)"
  unfolding authorize_join_request_def Let_def
  by (auto simp: keeps_err keeps_ok keeps_issue [OF assms] split: option.splits intro!: keeps_get keeps_bind_lift)

lemma keeps_merge: "keeps P u st fs (merge_revocations P incoming)"
  unfolding merge_revocations_def Let_def
  by (auto simp: keeps_err keeps_ok result_simps not_le not_less intro!: keeps_get keeps_bind_lift keeps_then
      keeps_persist_revocations [where ?st1.0 = "effect (RevocationEvent incoming) st"])

lemma revoke_applies:
  assumes "identity_wf P (ls_identity st)" and "revocation_validate_shape (sr_list (ls_revocations st)) = Ok ()"
    and "\<not> issued_at < rl_issued_at (sr_list (ls_revocations st))" and "li_root (ls_identity st) = Some root"
    and "checked_add (rl_serial (sr_list (ls_revocations st))) 1 = Some serial"
    and "sign_revocations P \<lparr>rl_version = REVOCATION_VERSION, rl_hive_id = li_hive_id (ls_identity st), rl_serial = serial,
              rl_issued_at = issued_at, rl_revoked_nodes = sort (rl_revoked_nodes (sr_list (ls_revocations st)) @ [node_id])\<rparr>
            root = Ok r"
  shows "apply_replayed P st (RevocationEvent r) = Ok (effect (RevocationEvent r) st)"
proof -
  have r: "verify_revocations P r (li_root_verifying_key (ls_identity st)) = Ok ()"
    and list: "sr_list r = \<lparr>rl_version = REVOCATION_VERSION, rl_hive_id = li_hive_id (ls_identity st), rl_serial = serial,
      rl_issued_at = issued_at, rl_revoked_nodes = sort (rl_revoked_nodes (sr_list (ls_revocations st)) @ [node_id])\<rparr>"
    using sign_revocations_verifies [OF assms(6)] assms(1,4) by (auto simp: identity_wf_def)
  have "revocation_validate_shape (sr_list r) = Ok ()" using r by (simp add: verify_revocations_Ok revocation_wf_def)
  then have "revocation_contains r n" if "n \<in> set (rl_revoked_nodes (sr_list (ls_revocations st)))" for n
    using that list by (simp add: revocation_contains_iff)
  then show ?thesis
    using r list assms(3) checked_add_Some_less [OF assms(5)] by (auto simp: list_ex_iff not_le)
qed

lemma keeps_revoke:
  assumes "identity_wf P (ls_identity st)"
  shows "keeps P u st fs (revoke P node_id issued_at)"
proof (cases "\<exists>c. ready P u st fs c")
  case False
  then show ?thesis by (simp add: keeps_def sspec_def)
next
  case True
  then obtain own ms where "authority_ok P st own ms" using logged_authority unfolding ready_def by blast
  then have "revocation_validate_shape (sr_list (ls_revocations st)) = Ok ()"
    by (auto simp: authority_ok_def genesis_ok_def verify_revocations_Ok revocation_wf_def)
  note applies = revoke_applies [OF assms this]
  have "keeps P u st fs (so_bind (persist_revocations P r) (\<lambda>_. so_ok r))"
    if "\<not> issued_at < rl_issued_at (sr_list (ls_revocations st))" "li_root (ls_identity st) = Some root"
      "checked_add (rl_serial (sr_list (ls_revocations st))) 1 = Some serial"
      "sign_revocations P \<lparr>rl_version = REVOCATION_VERSION, rl_hive_id = li_hive_id (ls_identity st), rl_serial = serial,
         rl_issued_at = issued_at, rl_revoked_nodes = sort (rl_revoked_nodes (sr_list (ls_revocations st)) @ [node_id])\<rparr>
       root = Ok r" for root serial r
    by (rule keeps_then [OF keeps_persist_revocations [OF applies [OF that]]]) simp
  then show ?thesis
    unfolding revoke_def Let_def
    by (intro keeps_get) (auto simp: keeps_err keeps_ok result_simps intro!: keeps_bind_lift)
qed

lemma keeps_sign_record: "keeps P u st fs (sign_endpoint_record P name key claims t1 t2)"
  unfolding sign_endpoint_record_def Let_def
  by (intro keeps_get) (auto simp: keeps_err keeps_reserve intro!: keeps_bind_lift keeps_then)

end

end
