(* ===== verification/State_History.thy ===== *)
theory State_History
  imports State_Transitions
begin

text \<open>
  A device over time: it runs the public operations of its state under any faults, loses power at any
  moment, reopens, possibly in vain, and goes on. What it handed out and what its states held is
  followed along every such history.
\<close>

section \<open>Opening a directory at rest\<close>

lemma spec_lax: "spec s u I m Q E \<Longrightarrow> spec False u I m Q E"
  unfolding spec_def outcome_ok_def by (auto split: sum.splits)

lemma recovers_rests:
  "recovers P u {gs} c \<Longrightarrow> replay P identity None gs = Ok st \<Longrightarrow> core st \<in> V \<Longrightarrow> rests P u identity V c"
  unfolding recovers_def rests_def by blast

lemma logged_rests: "logged P u st fs c \<Longrightarrow> core st \<in> V \<Longrightarrow> rests P u (ls_identity st) V c"
  using recovers_rests [OF durable_recovers] replay_journal [of P _ _ fs st None] by (fastforce simp: logged_def)

lemma rests_outcome:
  "rests P u i V c \<Longrightarrow> j \<in> set (cell_outcomes (c JournalPath)) \<Longrightarrow> h \<in> set (cell_outcomes (c HeadPath)) \<Longrightarrow>
     rests P u i V (slots_of j h)"
  by (simp add: rests_def)

lemma spec_state_open:
  assumes "rests P u identity V (slots_of j h)"
  shows "spec False u (\<lambda>c. c = slots_of j h) (state_open P identity)
    (\<lambda>st c. (\<exists>gs. logged P u st gs c) \<and> core st \<in> V \<and> ls_identity st = identity) (rests P u identity V)"
    (is "spec False u ?I _ ?Q ?E")
proof -
  consider gs st where "recoverable P u gs j h" "replay P identity None gs = Ok st" "core st \<in> V"
    | fs gs where "stale P u fs gs j h"
    using assms by (auto simp: rests_def)
  then show ?thesis
  proof cases
    case (1 gs st)
    let ?st = "st\<lparr>ls_journal := Some (handle_of P gs)\<rparr>"
    have rep: "replay P identity (Some (handle_of P gs)) gs = Ok ?st" by (rule replay_journal [OF 1(2)])
    have id: "ls_identity st = identity" using replay_authority [OF 1(2)] by auto
    have "spec False u ?I (open_journal P) (\<lambda>y c. y = (handle_of P gs, gs) \<and> durable P u gs c) ?E"
      unfolding open_journal_def
      by (intro spec_map_err spec_weaken [OF spec_lax [OF spec_journal_open [OF 1(1)]]] recovers_rests [OF _ 1(2,3)])
    then show ?thesis
      unfolding state_open_def
    proof (rule spec_bind)
      show "spec False u (\<lambda>c. y = (handle_of P gs, gs) \<and> durable P u gs c)
          (case y of (journal, all_frames) \<Rightarrow> io_lift (replay P identity (Some journal) all_frames)) ?Q ?E" for y
        using rep 1(3) id by (cases y) (auto simp: spec_def io_lift_def logged_def intro!: exI [of _ gs])
    qed
  next
    case (2 fs gs)
    have "spec False u ?I (open_journal P) (\<lambda>_ _. False) ?E"
      unfolding open_journal_def
      by (intro spec_map_err spec_weaken [OF spec_open_stale [OF 2]]) (use assms in auto)
    then show ?thesis
      unfolding state_open_def by (rule spec_bind) (auto simp: spec_def)
  qed
qed

section \<open>Commands\<close>

datatype Command =
    Reserve
  | Sign PeerName TransportKeyId EndpointClaims u64 u64
  | Issue bytes32 MembershipRoles bytes32 u64 u64
  | Authorize JoinRequest NodeId MembershipRoles u64 u64
  | Revoke NodeId u64
  | Merge SignedRevocationList
  | Compact

datatype Reply =
    Reserved u64
  | Signed SignedEndpointRecord
  | Issued SignedMembership
  | Revoked SignedRevocationList
  | Merged bool
  | Compacted

fun run_command :: "prims \<Rightarrow> Command \<Rightarrow> Reply state_op" where
  "run_command P Reserve = so_bind (reserve_next_sequence P) (\<lambda>n. so_ok (Reserved n))"
| "run_command P (Sign name key claims t1 t2) =
     so_bind (sign_endpoint_record P name key claims t1 t2) (\<lambda>r. so_ok (Signed r))"
| "run_command P (Issue key roles nonce t1 t2) =
     so_bind (issue_membership P key roles nonce t1 t2) (\<lambda>m. so_ok (Issued m))"
| "run_command P (Authorize request node roles t1 t2) =
     so_bind (authorize_join_request P request node roles t1 t2) (\<lambda>m. so_ok (Issued m))"
| "run_command P (Revoke node t) = so_bind (revoke P node t) (\<lambda>r. so_ok (Revoked r))"
| "run_command P (Merge incoming) = so_bind (merge_revocations P incoming) (\<lambda>b. so_ok (Merged b))"
| "run_command P Compact = so_bind (compact P) (\<lambda>_. so_ok Compacted)"

text \<open>The endpoint sequence numbers a reply hands out.\<close>

fun numbers :: "Reply \<Rightarrow> u64 list" where
  "numbers (Reserved n) = [n]"
| "numbers (Signed r) = [er_sequence (se_record r)]"
| "numbers _ = []"

definition handed_out :: "StateError + Reply \<Rightarrow> u64 list" where
  "handed_out r = (case r of Inl _ \<Rightarrow> [] | Inr x \<Rightarrow> numbers x)"

context primitives
begin

lemma keeps_command:
  "identity_wf P (ls_identity st) \<Longrightarrow> keeps P u st fs (run_command P c)"
  by (cases c) (auto intro!: keeps_then keeps_reserve keeps_sign_record keeps_issue keeps_authorize keeps_revoke
      keeps_merge keeps_compact)

end

text \<open>Without a journal handle every operation only reads.\<close>

definition idle :: "'a state_op \<Rightarrow> bool" where
  "idle m \<longleftrightarrow> (\<forall>st d. ls_journal st = None \<longrightarrow> (\<exists>r. m st d = (r, st, d)))"

lemma idle_simps [simp]: "idle (so_ok x)" "idle (so_err e)" "idle (so_lift r)" "idle so_get"
  by (simp_all add: idle_def so_run)

lemma idle_bind: "idle m \<Longrightarrow> (\<And>x. idle (f x)) \<Longrightarrow> idle (so_bind m f)"
  unfolding idle_def
proof (intro allI impI)
  fix st :: LocalState and d
  assume m: "\<forall>st d. ls_journal st = None \<longrightarrow> (\<exists>r. m st d = (r, st, d))"
    and f: "\<And>x. \<forall>st d. ls_journal st = None \<longrightarrow> (\<exists>r. f x st d = (r, st, d))" and st: "ls_journal st = None"
  obtain r where "m st d = (r, st, d)" using m st by blast
  then show "\<exists>r. so_bind m f st d = (r, st, d)" using f st by (cases r) (simp_all add: so_bind_def)
qed

lemma idle_append: "ls_journal st = None \<Longrightarrow> append_authoritative P p st d = (Err ReadOnlySnapshot, st, d)"
  by (simp add: append_authoritative_def compact_if_needed_def journal_mut_def is_journal_error_def so_bind_def
      so_catch_def so_get_def so_lift_def so_ok_def so_err_def)

lemma idle_append_then: "idle (so_bind (append_authoritative P p) f)"
  by (simp add: idle_def so_bind_def idle_append)

lemma idle_journal_mut_then: "idle (so_bind journal_mut f)"
  by (simp add: idle_def so_bind_def journal_mut_def so_get_def so_lift_def)

lemma idle_persist: "idle (persist_revocations P r)"
  unfolding persist_revocations_def by (intro idle_bind idle_append_then) simp

lemmas idle_intros = idle_bind idle_append_then idle_journal_mut_then idle_persist

lemma idle_command: "idle (run_command P c)"
  by (cases c) (auto simp: reserve_next_sequence_def sign_endpoint_record_def issue_membership_def Let_def
      authorize_join_request_def revoke_def merge_revocations_def compact_def split: option.splits intro!: idle_intros)

section \<open>Numbers handed out\<close>

text \<open>Operations that may replace or drop the journal but leave the rest of the state.\<close>

definition steady :: "'a state_op \<Rightarrow> bool" where
  "steady m \<longleftrightarrow> (\<forall>st d r st' d'. m st d = (r, st', d') \<longrightarrow> core st' = core st)"

lemma steady_simps [simp]: "steady (so_ok x)" "steady (so_err e)" "steady (so_lift r)" "steady so_get" "steady (so_attempt m)"
  by (auto simp: steady_def so_run so_attempt_def split: prod.splits)

lemma steady_bind: "steady m \<Longrightarrow> (\<And>x. steady (f x)) \<Longrightarrow> steady (so_bind m f)"
  unfolding steady_def so_bind_def by (auto split: prod.splits sum.splits) (metis+)

lemma steady_catch: "steady m \<Longrightarrow> steady (so_catch m)"
  unfolding steady_def so_catch_def by (auto split: prod.splits)

lemma steady_modify: "(\<And>st. core (f st) = core st) \<Longrightarrow> steady (so_modify f)"
  by (simp add: steady_def so_modify_def)

lemma steady_journal [simp]: "steady journal_mut" "steady take_journal" "steady (set_journal j)"
  by (auto simp: journal_mut_def take_journal_def set_journal_def intro!: steady_bind steady_modify)

lemma steady_compact: "steady (compact P)"
  unfolding compact_def by (auto split: sum.splits intro!: steady_bind steady_modify)

lemma steady_append: "steady (append_authoritative P p)"
  unfolding append_authoritative_def compact_if_needed_def append_or_compact_def retry_append_def
  by (auto intro!: steady_bind steady_catch steady_compact split: sum.splits)

lemma reserve_number:
  assumes "reserve_next_sequence P st d = (Ok n, st', d')"
  shows "ls_sequence st < n \<and> ls_sequence st' = n"
  using assms checked_add_Some_less [of "ls_sequence st" 1 n] unfolding reserve_next_sequence_def
  by (cases "checked_add (ls_sequence st) 1") (auto simp: so_bind_def so_run split: sum.splits prod.splits)

lemma sign_number:
  assumes "sign_endpoint_record P name key claims t1 t2 st d = (Ok r, st', d')"
  shows "ls_sequence st < er_sequence (se_record r) \<and> ls_sequence st' = er_sequence (se_record r)"
proof -
  have "er_sequence (canonicalize_candidates x) = er_sequence x" for x by (simp add: canonicalize_candidates_def)
  moreover have "se_record y = canonicalize_candidates x" if "sign_endpoint P x k = Ok y" for x k y
    using that by (auto simp: sign_endpoint_def Let_def result_simps split: if_splits)
  ultimately show ?thesis
    using assms unfolding sign_endpoint_record_def Let_def
    by (auto simp: so_bind_lift so_bind_def so_run result_simps split: sum.splits prod.splits if_splits dest!: reserve_number)
qed

lemma command_number:
  "run_command P c st d = (r, st', d') \<Longrightarrow> n \<in> set (handed_out r) \<Longrightarrow>
     handed_out r = [n] \<and> ls_sequence st < n \<and> ls_sequence st' = n"
  by (cases c) (auto simp: handed_out_def so_bind_def so_run split: sum.splits prod.splits
      dest: reserve_number sign_number)

section \<open>Histories\<close>

text \<open>A later state of one device: no number taken back, no member or revocation lost.\<close>

definition extends_state :: "LocalState \<Rightarrow> LocalState \<Rightarrow> bool" where
  "extends_state s t \<longleftrightarrow> ls_identity t = ls_identity s \<and> ls_sequence s \<le> ls_sequence t \<and>
     ls_last_membership_serial s \<le> ls_last_membership_serial t \<and>
     (\<forall>n m. bt_get (ls_memberships s) n = Some m \<longrightarrow> bt_get (ls_memberships t) n = Some m) \<and>
     set (rl_revoked_nodes (sr_list (ls_revocations s))) \<subseteq> set (rl_revoked_nodes (sr_list (ls_revocations t))) \<and>
     rl_serial (sr_list (ls_revocations s)) \<le> rl_serial (sr_list (ls_revocations t))"

lemma extends_refl [simp]: "extends_state s s"
  by (simp add: extends_state_def)

lemma extends_trans: "extends_state s t \<Longrightarrow> extends_state t v \<Longrightarrow> extends_state s v"
  unfolding extends_state_def by (auto intro: order_trans)

lemma extends_sequence: "extends_state s t \<Longrightarrow> ls_sequence s \<le> ls_sequence t"
  by (simp add: extends_state_def)

lemma extends_core [simp]: "extends_state (core s) t = extends_state s t" "extends_state s (core t) = extends_state s t"
  by (simp_all add: extends_state_def core_def)

lemma apply_extends:
  assumes "apply_replayed P st e = Ok st'"
  shows "extends_state st st'"
proof (cases e)
  case (Sequence g n)
  then show ?thesis using assms checked_add_Some_less [of "ls_sequence st" 1 n]
    by (auto simp: extends_state_def result_simps split: if_splits)
next
  case (MembershipEvent m)
  then show ?thesis
    using assms checked_add_Some_less [of "ls_last_membership_serial st" 1 "mc_serial (sm_certificate m)"]
    by (auto simp: extends_state_def result_simps split: if_splits)
next
  case (RevocationEvent r)
  then show ?thesis using assms
    by (auto simp: extends_state_def result_simps verify_revocations_Ok revocation_wf_def revocation_contains_iff
        list_ex_iff not_le split: if_splits)
qed (use assms in auto)

lemma successors_extend: "v \<in> successors P st \<Longrightarrow> extends_state st v"
  by (auto simp: successors_def apply_extends)

text \<open>
  The states seen so far, the numbers handed out, the running state and the directory. A device starts
  from a logged state; it runs a command under some schedule of faults; it loses power, running or not;
  it reopens what is left, again under faults. The numbers of a command that fails are not handed out.
\<close>

inductive history ::
  "prims \<Rightarrow> u32 \<Rightarrow> LocalIdentity \<Rightarrow> LocalState list \<Rightarrow> u64 list \<Rightarrow> LocalState option \<Rightarrow> slots \<Rightarrow> bool"
  for P u identity where
  start: "logged P u st fs c \<Longrightarrow> ls_identity st = identity \<Longrightarrow> history P u identity [core st] [] (Some st) c"
| run: "history P u identity tr ns (Some st) (dk_cells d) \<Longrightarrow> collision_free P st \<Longrightarrow> dk_uid d = u \<Longrightarrow>
    run_command P cmd st d = (r, st', d') \<Longrightarrow>
    history P u identity (tr @ [core st']) (ns @ handed_out r) (Some st') (dk_cells d')"
| power_loss: "history P u identity tr ns m c \<Longrightarrow> j \<in> set (cell_outcomes (c JournalPath)) \<Longrightarrow>
    h \<in> set (cell_outcomes (c HeadPath)) \<Longrightarrow> history P u identity tr ns None (slots_of j h)"
| reopen: "history P u identity tr ns None (slots_of j h) \<Longrightarrow> dk_cells d = slots_of j h \<Longrightarrow> dk_uid d = u \<Longrightarrow>
    state_open P identity d = (Ok st, d') \<Longrightarrow>
    history P u identity (tr @ [core st]) ns (Some st) (dk_cells d')"
| reopen_fails: "history P u identity tr ns None (slots_of j h) \<Longrightarrow> dk_cells d = slots_of j h \<Longrightarrow> dk_uid d = u \<Longrightarrow>
    state_open P identity d = (Err e, d') \<Longrightarrow> history P u identity tr ns None (dk_cells d')"

text \<open>A state above everything seen and handed out.\<close>

definition above :: "LocalState list \<Rightarrow> u64 list \<Rightarrow> LocalState \<Rightarrow> bool" where
  "above tr ns v \<longleftrightarrow> (\<forall>s \<in> set tr. extends_state s v) \<and> (\<forall>n \<in> set ns. n \<le> ls_sequence v)"

lemma above_extends: "above tr ns s \<Longrightarrow> extends_state s t \<Longrightarrow> above tr ns t"
  unfolding above_def using extends_trans extends_sequence order_trans by blast

lemma above_core [simp]: "above tr ns (core s) = above tr ns s"
  by (simp add: above_def) (simp add: core_def)

lemma above_seen: "above tr ns s \<Longrightarrow> above (tr @ [core s]) ns s"
  by (simp add: above_def)

definition on_disk :: "prims \<Rightarrow> u32 \<Rightarrow> LocalIdentity \<Rightarrow> LocalState list \<Rightarrow> u64 list \<Rightarrow> slots \<Rightarrow> bool" where
  "on_disk P u identity tr ns c \<longleftrightarrow> (\<exists>V. rests P u identity V c \<and> (\<forall>v \<in> V. above tr ns v))"

definition sound_history ::
  "prims \<Rightarrow> u32 \<Rightarrow> LocalIdentity \<Rightarrow> LocalState list \<Rightarrow> u64 list \<Rightarrow> LocalState option \<Rightarrow> slots \<Rightarrow> bool" where
  "sound_history P u identity tr ns m c \<longleftrightarrow> sorted_wrt extends_state tr \<and> sorted_wrt (<) ns \<and>
     (case m of
        None \<Rightarrow> on_disk P u identity tr ns c
      | Some st \<Rightarrow> ls_identity st = identity \<and> above tr ns st \<and> core st \<in> set tr \<and>
          ((\<exists>fs. logged P u st fs c) \<or> ls_journal st = None \<and> on_disk P u identity tr ns c))"

lemma sorted_snoc: "sorted_wrt R (xs @ [x]) \<longleftrightarrow> sorted_wrt R xs \<and> (\<forall>y \<in> set xs. R y x)"
  by (auto simp: sorted_wrt_append)

lemma on_disk_seen:
  assumes "on_disk P u identity tr ns c" and "\<And>v. above tr ns v \<Longrightarrow> above tr' ns' v"
  shows "on_disk P u identity tr' ns' c"
  using assms unfolding on_disk_def by blast

text \<open>The numbers of one command continue the strictly increasing list.\<close>

lemma numbers_increase:
  assumes "run_command P cmd st d = (r, st', d')" and "above tr ns st" and "sorted_wrt (<) ns" and "extends_state st st'"
  shows "sorted_wrt (<) (ns @ handed_out r)" and "above tr (ns @ handed_out r) st'"
proof -
  have st': "above tr ns st'" using assms(2,4) by (rule above_extends)
  consider "handed_out r = []" | n where "handed_out r = [n]" "ls_sequence st < n" "ls_sequence st' = n"
    using command_number [OF assms(1), of "hd (handed_out r)"] by (cases "handed_out r") simp_all
  then have "sorted_wrt (<) (ns @ handed_out r) \<and> above tr (ns @ handed_out r) st'"
  proof cases
    case 1
    then show ?thesis using assms(3) st' by simp
  next
    case (2 n)
    then show ?thesis using assms(2,3) st' by (auto simp: sorted_snoc above_def)
  qed
  then show "sorted_wrt (<) (ns @ handed_out r)" and "above tr (ns @ handed_out r) st'" by simp_all
qed

context primitives
begin

lemma command_outcome:
  assumes "identity_wf P (ls_identity st)" and "logged P (dk_uid d) st fs (dk_cells d)" and "collision_free P st"
    and "run_command P cmd st d = (r, st', d')"
  shows "dk_uid d' = dk_uid d"
    "settled_at P (dk_uid d) st st' (dk_cells d') \<or> \<not> is_ok r \<and> suspended P (dk_uid d) st st' (dk_cells d')"
proof -
  have "outcome_ok False (dk_uid d) (\<lambda>_. settled_at P (dk_uid d) st st')
      (\<lambda>c. settled_at P (dk_uid d) st st' c \<or> suspended P (dk_uid d) st st' c) d (r, d')"
    by (rule sspecD [OF keeps_command [OF assms(1), unfolded keeps_def] refl])
      (use assms in \<open>auto simp: ready_def\<close>)
  then show "dk_uid d' = dk_uid d"
    "settled_at P (dk_uid d) st st' (dk_cells d') \<or> \<not> is_ok r \<and> suspended P (dk_uid d) st st' (dk_cells d')"
    by (cases r; auto)+
qed

lemma sound_run:
  assumes wf: "identity_wf P identity" and sound: "sound_history P (dk_uid d) identity tr ns (Some st) (dk_cells d)"
    and "collision_free P st" and run: "run_command P cmd st d = (r, st', d')"
  shows "sound_history P (dk_uid d) identity (tr @ [core st']) (ns @ handed_out r) (Some st') (dk_cells d')"
proof -
  let ?u = "dk_uid d" and ?ns = "ns @ handed_out r"
  have inv: "sorted_wrt extends_state tr" "sorted_wrt (<) ns" "ls_identity st = identity" "above tr ns st"
    and seen: "core st \<in> set tr" using sound by (simp_all add: sound_history_def)
  have close: "sound_history P ?u identity (tr @ [core st']) ?ns (Some st') (dk_cells d')"
    if ext: "extends_state st st'" and disk: "(\<exists>fs. logged P ?u st' fs (dk_cells d')) \<or>
      ls_journal st' = None \<and> on_disk P ?u identity (tr @ [core st']) ?ns (dk_cells d')"
  proof -
    note num = numbers_increase [OF run inv(4,2) ext]
    have "sorted_wrt extends_state (tr @ [core st'])"
      using inv(1) num(2) by (auto simp: sorted_snoc above_def)
    then show ?thesis
      using num above_seen [OF num(2)] disk inv(3) ext by (simp add: sound_history_def extends_state_def)
  qed
  consider (logged) fs where "logged P ?u st fs (dk_cells d)"
    | (idle) "ls_journal st = None" "on_disk P ?u identity tr ns (dk_cells d)"
    using sound by (auto simp: sound_history_def)
  then show ?thesis
  proof cases
    case logged
    have "identity_wf P (ls_identity st)" using wf inv(3) by simp
    from command_outcome(2) [OF this logged assms(3) run]
    consider "settled_at P ?u st st' (dk_cells d')" | e where "r = Inl e" "suspended P ?u st st' (dk_cells d')"
      by (cases r) auto
    then show ?thesis
    proof cases
      case 1
      then have "extends_state st st'" using successors_extend [of "core st'" P st] by (simp add: settled_at_def)
      then show ?thesis using 1 by (intro close) (auto simp: settled_at_def)
    next
      case (2 e)
      then have same: "core st' = core st" by (simp add: suspended_def)
      have "extends_state st st'" using extends_core(2) [of st st'] same by simp
      moreover have "above (tr @ [core st']) ?ns v" if "v \<in> successors P st" for v
        using above_extends [OF above_seen [OF inv(4)] successors_extend [OF that]] 2(1) same
        by (simp add: handed_out_def)
      ultimately show ?thesis using 2 inv(3) by (intro close) (auto simp: suspended_def on_disk_def)
    qed
  next
    case idle
    obtain r1 where "run_command P cmd st d = (r1, st, d)" using idle_command idle(1) unfolding idle_def by blast
    then have same: "st' = st" "d' = d" using run by simp_all
    then have none: "handed_out r = []" using command_number [OF run, of "hd (handed_out r)"] by (cases "handed_out r") simp_all
    have "above (tr @ [core st]) ns v" if v: "above tr ns v" for v
    proof -
      have "extends_state (core st) v" using v seen unfolding above_def by blast
      then show ?thesis using v by (simp add: above_def)
    qed
    then have "on_disk P ?u identity (tr @ [core st]) ns (dk_cells d)" by (rule on_disk_seen [OF idle(2)])
    then show ?thesis using idle(1) same none by (intro close) simp_all
  qed
qed


lemma sound_open:
  assumes "sound_history P (dk_uid d) identity tr ns None (slots_of j h)" and "dk_cells d = slots_of j h"
    and "state_open P identity d = (r, d')"
  shows "r = Ok st \<Longrightarrow> sound_history P (dk_uid d) identity (tr @ [core st]) ns (Some st) (dk_cells d')"
    and "r = Err e \<Longrightarrow> sound_history P (dk_uid d) identity tr ns None (dk_cells d')"
proof -
  let ?u = "dk_uid d"
  obtain V where V: "rests P ?u identity V (slots_of j h)" "\<forall>v \<in> V. above tr ns v" and tr: "sorted_wrt extends_state tr" "sorted_wrt (<) ns"
    using assms(1) by (auto simp: sound_history_def on_disk_def)
  have out: "outcome_ok False ?u (\<lambda>st c. (\<exists>gs. logged P ?u st gs c) \<and> core st \<in> V \<and> ls_identity st = identity)
      (rests P ?u identity V) d (r, d')"
    using specD [OF spec_state_open [OF V(1)] refl] assms(2,3) by metis
  show "sound_history P ?u identity (tr @ [core st]) ns (Some st) (dk_cells d')" if "r = Ok st"
  proof -
    have st: "\<exists>gs. logged P ?u st gs (dk_cells d')" "core st \<in> V" "ls_identity st = identity" using out that by auto
    have "above tr ns st" using V(2) st(2) above_core by blast
    then show ?thesis using st tr above_seen by (auto simp: sound_history_def sorted_snoc above_def)
  qed
  show "sound_history P ?u identity tr ns None (dk_cells d')" if "r = Err e"
    using out that V(2) tr by (auto simp: sound_history_def on_disk_def)
qed

lemma history_sound:
  assumes "history P u identity tr ns m c" and wf: "identity_wf P identity"
  shows "sound_history P u identity tr ns m c"
  using assms(1)
proof induction
  case (start st fs c)
  then show ?case by (auto simp: sound_history_def above_def)
next
  case (run tr ns st d cmd r st' d')
  then show ?case using sound_run [OF wf, of d tr ns st cmd r st' d'] by simp
next
  case (power_loss tr ns m c j h)
  have "on_disk P u identity tr ns c"
  proof (cases m)
    case (Some st)
    then have st: "ls_identity st = identity" "above tr ns st" "(\<exists>fs. logged P u st fs c) \<or> on_disk P u identity tr ns c"
      using power_loss.IH by (auto simp: sound_history_def)
    then have "\<forall>v \<in> {core st}. above tr ns v" by simp
    then show ?thesis using st logged_rests [of P u st _ c "{core st}"] unfolding on_disk_def by blast
  qed (use power_loss.IH in \<open>simp add: sound_history_def\<close>)
  then have "on_disk P u identity tr ns (slots_of j h)"
    using rests_outcome [OF _ power_loss.hyps(2,3)] unfolding on_disk_def by blast
  then show ?case using power_loss.IH by (simp add: sound_history_def)
next
  case (reopen tr ns j h d st d')
  then show ?case using sound_open(1) [of d identity tr ns j h] by simp
next
  case (reopen_fails tr ns j h d e d')
  then show ?case using sound_open(2) [of d identity tr ns j h] by simp
qed

end

end
