(* ===== verification/State_Creation.thy ===== *)
theory State_Creation
  imports State_History
begin

text \<open>
  How a state comes to be: founding a hive and joining one both commit a single genesis event, as a
  whole or not at all, and what they commit opens to the state they promise.
\<close>

section \<open>Genesis\<close>

context primitives
begin

lemma genesis_replays:
  assumes "genesis_ok P identity founder revocations" and "encode_event P (Genesis founder revocations) = Ok g"
  shows "replay P identity j [g] = Ok (genesis_state identity founder revocations j)"
proof -
  have "event_wf P (Genesis founder revocations)"
    using assms(1) by (auto simp: genesis_ok_def verify_membership_Ok verify_revocations_Ok)
  then have "decode_event P g = Ok (Genesis founder revocations)" using assms(2) decode_encode_event by blast
  then show ?thesis using replay_Cons [OF _ assms(1)] by simp
qed

lemma genesis_logged:
  assumes "genesis_ok P identity founder revocations" and "encode_event P (Genesis founder revocations) = Ok g"
    and "durable P u [g] c"
  shows "logged P u (genesis_state identity founder revocations (Some (handle_of P [g]))) [g] c"
  using genesis_replays [OF assms(1,2)] assms(3) by (simp add: logged_def genesis_state_def)

lemma genesis_frame_ok:
  assumes "genesis_ok P identity founder revocations" and "encode_event P (Genesis founder revocations) = Ok g"
  shows "frames_ok P [g]"
proof -
  have "event_wf P (Genesis founder revocations)"
    using assms(1) by (auto simp: genesis_ok_def verify_membership_Ok verify_revocations_Ok)
  then have "g \<noteq> []" "length g \<le> 9300" using encode_event_ok assms(2) by fastforce+
  then show ?thesis by (simp add: frames_ok_def payload_ok_def MAX_FRAME_BYTES_def length_journal_image)
qed

text \<open>Compacting a fresh state only adds the checkpoint, so the journal is a prefix of its compaction.\<close>

lemma genesis_collision_free:
  assumes "genesis_ok P identity founder revocations" and "encode_event P (Genesis founder revocations) = Ok g"
  shows "collision_free P (genesis_state identity founder revocations (Some (handle_of P [g])))"
proof -
  let ?st = "genesis_state identity founder revocations (Some (handle_of P [g]))"
  obtain l where "compaction_frames P ?st = Ok [g, l]"
    using assms unfolding compaction_frames_def
    by (auto simp: genesis_state_def genesis_ok_def local_membership_def bt_values_def signed_checkpoint_def Let_def)
  moreover have "\<not> collides P (journal_image P (take n [g, l])) (journal_image P [g])" if n: "n \<le> 2" for n l
  proof -
    consider "n = 0" | "n = 1" | "n = 2" using n by linarith
    then show ?thesis by cases (simp_all add: collides_def length_journal_image numeral_2_eq_2)
  qed
  ultimately show ?thesis by (simp add: collision_free_def genesis_state_def handle_of_def)
qed

end

section \<open>Founding\<close>

definition founding_certificate :: "prims \<Rightarrow> LocalIdentity \<Rightarrow> u64 \<Rightarrow> MembershipCertificate" where
  "founding_certificate P identity now =
     \<lparr>mc_version = MEMBERSHIP_VERSION, mc_hive_id = li_hive_id identity,
      mc_node_id = device_node_id P (li_device identity),
      mc_device_verifying_key = device_verifying_key P (li_device identity), mc_serial = 1,
      mc_issued_at = now, mc_expires_at = saturating_add now MAX_MEMBERSHIP_LIFETIME_SECONDS,
      mc_roles = roles_or ROLE_DEVICE ROLE_INTRODUCER, mc_admission_nonce = 0\<rparr>"

lemma founding_lifetime:
  fixes now :: u64
  assumes "now \<noteq> - 1"
  shows "now < saturating_add now MAX_MEMBERSHIP_LIFETIME_SECONDS"
    "saturating_sub (saturating_add now MAX_MEMBERSHIP_LIFETIME_SECONDS) now \<le> MAX_MEMBERSHIP_LIFETIME_SECONDS"
proof -
  have "unat now \<noteq> 2 ^ 64 - 1"
    using assms by (auto simp: word_unat_eq_iff unsigned_minus_1_eq_mask mask_eq_exp_minus_1)
  then show "now < saturating_add now MAX_MEMBERSHIP_LIFETIME_SECONDS"
    "saturating_sub (saturating_add now MAX_MEMBERSHIP_LIFETIME_SECONDS) now \<le> MAX_MEMBERSHIP_LIFETIME_SECONDS"
    using unat_less [of now]
    by (auto simp: word_less_nat_alt word_le_nat_alt unat_saturating_add unat_saturating_sub
        MAX_MEMBERSHIP_LIFETIME_SECONDS_def)
qed

context primitives
begin

lemma founding_genesis:
  assumes "identity_wf P identity" and "li_root identity = Some root" and "now \<noteq> - 1"
  obtains founder revocations g where
    "sign_membership P (founding_certificate P identity now) root = Ok founder"
    "empty_revocations P root now = Ok revocations"
    "encode_event P (Genesis founder revocations) = Ok g" "genesis_ok P identity founder revocations"
    "sm_certificate founder = founding_certificate P identity now"
proof -
  let ?c = "founding_certificate P identity now"
  have hive: "li_hive_id identity = root_hive_id P root" "li_root_verifying_key identity = root_verifying_key P root"
    using assms(1,2) by (auto simp: identity_wf_def root_hive_id_def)
  have "membership_validate_shape P ?c = Ok ()"
    using founding_lifetime [OF assms(3)]
    by (simp add: membership_validate_shape_def founding_certificate_def device_node_id_def roles_from_bits_def
        roles_contains_def roles_or_def ROLE_DEVICE_def ROLE_INTRODUCER_def ROLES_KNOWN_BITS_def ROLE_CONTROL_RELAY_def
        not_le not_less)
  then obtain founder where founder: "sign_membership P ?c root = Ok founder"
    using hive by (auto simp: sign_membership_def founding_certificate_def)
  obtain revocations where revocations: "empty_revocations P root now = Ok revocations"
    by (auto simp: empty_revocations_def sign_revocations_def encode_list_def revocation_validate_shape_def
        REVOCATION_VERSION_def MAX_REVOKED_NODES_def)
  have ok: "genesis_ok P identity founder revocations"
    using sign_membership_verifies [OF founder] sign_revocations_verifies [OF revocations [unfolded empty_revocations_def]]
    by (simp add: genesis_ok_def hive founding_certificate_def)
  then have "event_wf P (Genesis founder revocations)"
    by (auto simp: genesis_ok_def verify_membership_Ok verify_revocations_Ok)
  then obtain g where "encode_event P (Genesis founder revocations) = Ok g" using encode_event_ok by blast
  then show ?thesis using that founder revocations ok sign_membership_verifies [OF founder] by blast
qed


lemma spec_genesis_append:
  assumes "genesis_ok P identity founder revocations" and "encode_event P (Genesis founder revocations) = Ok g"
  shows "spec True u (durable P u []) (journal_append P g (handle_of P []))
    (\<lambda>y c. y = handle_of P [g] \<and> durable P u [g] c) (recovers P u {[], [g]})"
  using spec_journal_append [of P "[]" g u] genesis_frame_ok [OF assms] by simp

lemma spec_found_hive:
  assumes "li_root identity = Some root" and "sign_membership P (founding_certificate P identity now) root = Ok founder"
    and "empty_revocations P root now = Ok revocations" and g: "encode_event P (Genesis founder revocations) = Ok g"
    and ok: "genesis_ok P identity founder revocations"
  shows "spec True u (durable P u []) (found_hive P identity (handle_of P []) now)
    (\<lambda>st c. st = genesis_state identity founder revocations (Some (handle_of P [g])) \<and> durable P u [g] c)
    (recovers P u {[], [g]})"
proof -
  have cert: "sm_certificate founder = founding_certificate P identity now"
    using sign_membership_verifies [OF assms(2)] by simp
  then have "mc_serial (sm_certificate founder) = 1" by (simp add: founding_certificate_def)
  then have run: "found_hive P identity (handle_of P []) now =
      io_bind (io_map_err StateError.Journal (journal_append P g (handle_of P []))) (\<lambda>journal.
        io_ok (genesis_state identity founder revocations (Some journal)))"
    using assms unfolding found_hive_def Let_def founding_certificate_def [symmetric]
    by (simp add: genesis_state_def)
  show ?thesis
    unfolding run
    by (rule spec_bind [OF spec_map_err [OF spec_genesis_append [OF ok g]]]) (auto simp: spec_def io_ok_def)
qed

section \<open>Joining\<close>

lemma joined_genesis_ok:
  assumes "verify_for_pending P b pending now = Ok key"
  shows "genesis_ok P (joined_identity P pending key) (jb_membership b) (jb_revocations b)"
  using verify_for_pending_Ok [OF assms]
  by (auto simp: genesis_ok_def joined_identity_def verify_membership_Ok membership_wf_def membership_validate_shape_def
      device_node_id_def split: if_splits)

lemma spec_join_genesis:
  assumes accepted: "verify_for_pending P b pending now = Ok key"
    and "membership_validate_time (sm_certificate (jb_membership b)) now = Ok ()"
    and g: "encode_event P (Genesis (jb_membership b) (jb_revocations b)) = Ok g"
    and rec: "recoverable P u fs j h" and fs: "fs \<in> {[], [g]}"
  shows "spec True u (\<lambda>c. c = slots_of j h) (join_genesis P b pending now)
    (\<lambda>y c. y = key \<and> durable P u [g] c) (recovers P u {[], [g]})" (is "spec True u ?I _ ?Q ?E")
proof -
  note ok = joined_genesis_ok [OF accepted]
  let ?rest = "\<lambda>(journal, all_frames). io_bind (case all_frames of
      [] \<Rightarrow> io_bind (io_map_err StateError.Journal (journal_append P g journal)) (\<lambda>_. io_ok ())
    | [only] \<Rightarrow> if only = g then io_ok () else io_err InvalidGenesis
    | _ \<Rightarrow> io_err InvalidGenesis) (\<lambda>_. io_ok key)"
  have opened: "spec True u ?I (open_journal P) (\<lambda>y c. y = (handle_of P fs, fs) \<and> durable P u fs c) ?E"
    unfolding open_journal_def
    by (rule spec_map_err [OF spec_weaken [OF spec_journal_open [OF rec]]]) (use fs recovers_mono in auto)
  have append: "spec True u (durable P u [])
      (io_bind (io_bind (io_map_err StateError.Journal (journal_append P g (handle_of P []))) (\<lambda>_. io_ok ())) (\<lambda>_. io_ok key)) ?Q ?E"
    unfolding io_bind_assoc io_bind_simps
    by (rule spec_bind [OF spec_map_err [OF spec_genesis_append [OF ok g]]]) (auto simp: spec_def io_ok_def)
  have "spec True u (\<lambda>c. y = (handle_of P fs, fs) \<and> durable P u fs c) (?rest y) ?Q ?E" for y
    using fs append by (cases y) (auto simp: spec_def io_ok_def)
  then show ?thesis
    using assms(2) accepted g unfolding join_genesis_def by (simp add: spec_bind [OF opened])
qed

end

end
