(* ===== verification/State_Properties.thy ===== *)
theory State_Properties
  imports State_Creation
begin

text \<open>
  The promises of the authoritative state, stated over its operations: what a device hands out over a
  whole history with faults and power losses, how the state in memory follows the journal, and what
  founding, joining and admission establish.
\<close>

section \<open>A device to evaluate on\<close>

definition sample_root :: RootIdentity where
  "sample_root = \<lparr>root_seed = 1\<rparr>"

definition sample_identity :: LocalIdentity where
  "sample_identity = \<lparr>li_root = Some sample_root, li_root_verifying_key = root_verifying_key reference_prims sample_root,
     li_device = \<lparr>device_seed = 2\<rparr>, li_hive_id = root_hive_id reference_prims sample_root\<rparr>"

lemma sample_wf [simp]: "identity_wf reference_prims sample_identity" "li_root sample_identity = Some sample_root"
  by (simp_all add: identity_wf_def sample_identity_def root_hive_id_def)

text \<open>The state of a founded hive, with its only frame.\<close>

lemma sample_state:
  obtains founder revocations g where
    "encode_event reference_prims (Genesis founder revocations) = Ok g"
    "genesis_ok reference_prims sample_identity founder revocations"
    "logged reference_prims 0 (genesis_state sample_identity founder revocations (Some (handle_of reference_prims [g]))) [g]
       (dk_cells (journal_disk reference_prims 0 [g] []))"
    "collision_free reference_prims (genesis_state sample_identity founder revocations (Some (handle_of reference_prims [g])))"
    "sm_certificate founder = founding_certificate reference_prims sample_identity 1000"
    "sr_list revocations = \<lparr>rl_version = REVOCATION_VERSION, rl_hive_id = root_hive_id reference_prims sample_root, rl_serial = 0,
       rl_issued_at = 1000, rl_revoked_nodes = []\<rparr>"
proof -
  obtain founder revocations g where made: "encode_event reference_prims (Genesis founder revocations) = Ok g"
    "genesis_ok reference_prims sample_identity founder revocations"
    "sm_certificate founder = founding_certificate reference_prims sample_identity 1000"
    "empty_revocations reference_prims sample_root 1000 = Ok revocations"
    by (rule reference.founding_genesis [OF sample_wf, of 1000]) auto
  then have "durable reference_prims 0 [g] (dk_cells (journal_disk reference_prims 0 [g] []))"
    by (intro journal_disk_durable reference.genesis_frame_ok)
  moreover have "sr_list revocations = \<lparr>rl_version = REVOCATION_VERSION, rl_hive_id = root_hive_id reference_prims sample_root,
      rl_serial = 0, rl_issued_at = 1000, rl_revoked_nodes = []\<rparr>"
    using reference.sign_revocations_verifies [OF made(4) [unfolded empty_revocations_def]] by simp
  ultimately show ?thesis
    using that [OF made(1,2) _ _ made(3)] reference.genesis_logged [OF made(2,1)] reference.genesis_collision_free [OF made(2,1)] by blast
qed

section \<open>Reserving\<close>

lemma sspec_any:
  assumes "sspec True u st I m Q E"
  shows "sspec s u st I m Q E"
proof (rule sspecI)
  fix d r st' d' assume "dk_uid d = u" "I (dk_cells d)" "m st d = (r, st', d')"
  then have "outcome_ok True u (\<lambda>x. Q x st') (E st') d (r, d')" by (rule sspecD [OF assms])
  then show "outcome_ok s u (\<lambda>x. Q x st') (E st') d (r, d')" by (cases r) auto
qed

lemma open_rests:
  assumes "rests P u identity V (dk_cells d)" and "dk_uid d = u" and "d2 \<in> set (crash_states d)"
    and "state_open P identity d2 = (Ok st, d3)"
  shows "core st \<in> V"
proof -
  obtain j h where jh: "j \<in> set (cell_outcomes (dk_cells d JournalPath))" "h \<in> set (cell_outcomes (dk_cells d HeadPath))"
    and d2: "dk_cells d2 = slots_of j h" "dk_uid d2 = u"
    using assms(2) by (auto intro: crash_state_slots [OF assms(3)])
  have "outcome_ok False u (\<lambda>st c. (\<exists>gs. logged P u st gs c) \<and> core st \<in> V \<and> ls_identity st = identity)
      (rests P u identity V) d2 (state_open P identity d2)"
    by (rule specD [OF spec_state_open [OF rests_outcome [OF assms(1) jh]] d2(2,1)])
  then show ?thesis using assms(4) by simp
qed

context primitives
begin

lemma sspec_reserve:
  "sspec (ls_sequence st \<noteq> - 1) u st (ready P u st fs) (reserve_next_sequence P)
    (\<lambda>n st' c. n = ls_sequence st + 1 \<and> (\<exists>gs. logged P u st' gs c) \<and> core st' = core (st\<lparr>ls_sequence := ls_sequence st + 1\<rparr>))
    (\<lambda>st' c. core st' = core st \<and>
       rests P u (ls_identity st) {core st, core (st\<lparr>ls_sequence := ls_sequence st + 1\<rparr>)} c)"
  (is "sspec ?s u st ?I _ ?Q ?E")
proof (cases "checked_add (ls_sequence st) 1")
  case None
  then have "\<not> ?s"
    using unat_less [of "ls_sequence st"]
    by (simp add: checked_add_def word_unat_eq_iff unsigned_minus_1_eq_mask mask_eq_exp_minus_1 split: if_splits)
  moreover have "?I c \<Longrightarrow> ?E st c" for c by (auto simp: ready_def intro: logged_rests)
  ultimately show ?thesis
    unfolding reserve_next_sequence_def using None by (intro sspec_get) (auto intro: sspec_err)
next
  case (Some n)
  then have n: "n = ls_sequence st + 1" by (auto simp: checked_add_def split: if_splits)
  let ?e = "Sequence (ls_generation st) n"
  define p where "p = projr (encode_event P ?e)"
  have p: "encode_event P ?e = Ok p" by (simp add: p_def)
  have app: "apply_replayed P st ?e = Ok (effect ?e st)" using Some by simp
  have core: "core (effect ?e st) = core (st\<lparr>ls_sequence := ls_sequence st + 1\<rparr>)" by (simp add: core_def n)
  have commit: "sspec ?s u st ?I (so_bind (append_authoritative P p) (\<lambda>_. so_modify (effect ?e)))
      (\<lambda>_ st' c. (\<exists>gs. logged P u st' gs c) \<and> core st' = core (st\<lparr>ls_sequence := ls_sequence st + 1\<rparr>)) ?E"
    by (rule sspec_weaken [OF sspec_any [OF sspec_commit [OF app p, of u fs, unfolded core]]]) auto
  have "sspec ?s u st ?I (so_bind (so_bind (append_authoritative P p) (\<lambda>_. so_modify (effect ?e))) (\<lambda>_. so_ok n)) ?Q ?E"
    by (rule sspec_bind [OF commit]) (auto simp: n intro: sspec_ok)
  then show ?thesis
    unfolding reserve_next_sequence_def so_bind_assoc effect_eq
    by (intro sspec_get) (simp add: Some p so_bind_assoc del: encode_event.simps)
qed

lemma reserve_outcome:
  assumes "logged P (dk_uid d) st fs (dk_cells d)" and "collision_free P st"
    and "reserve_next_sequence P st d = (r, st', d')"
  shows "outcome_ok (ls_sequence st \<noteq> - 1) (dk_uid d) (\<lambda>n. \<lambda>c. n = ls_sequence st + 1 \<and>
      (\<exists>gs. logged P (dk_uid d) st' gs c) \<and> core st' = core (st\<lparr>ls_sequence := ls_sequence st + 1\<rparr>))
      (\<lambda>c. core st' = core st \<and> rests P (dk_uid d) (ls_identity st) {core st, core (st\<lparr>ls_sequence := ls_sequence st + 1\<rparr>)} c) d (r, d')"
  by (rule sspecD [OF sspec_reserve [of st "dk_uid d" fs] refl _ assms(3)]) (simp add: ready_def assms(1,2))

end

text \<open>
  C21. Reserving without faults returns the successor of the last sequence number, and the state that
  holds it is the replay of what is then durably in the journal.
\<close>

theorem reserve_succeeds:
  assumes "primitives P" and "logged P (dk_uid d) st fs (dk_cells d)" and "collision_free P st"
    and "ls_sequence st \<noteq> - 1" and "dk_faults d = []"
  shows "\<exists>st' d' gs. reserve_next_sequence P st d = (Ok (ls_sequence st + 1), st', d') \<and>
    logged P (dk_uid d) st' gs (dk_cells d') \<and> core st' = core (st\<lparr>ls_sequence := ls_sequence st + 1\<rparr>)"
proof -
  obtain r st' d' where run: "reserve_next_sequence P st d = (r, st', d')" by (cases "reserve_next_sequence P st d") auto
  note primitives.reserve_outcome [OF assms(1-3) run]
  then show ?thesis using run assms(4,5) by (cases r) auto
qed

theorem reserve_succeeds_witness:
  "\<exists>st fs. logged reference_prims 0 st fs (dk_cells (journal_disk reference_prims 0 fs [])) \<and>
     (\<exists>st' d'. reserve_next_sequence reference_prims st (journal_disk reference_prims 0 fs []) = (Ok 1, st', d'))"
proof -
  obtain founder revocations g where
    l: "logged reference_prims 0 (genesis_state sample_identity founder revocations (Some (handle_of reference_prims [g]))) [g]
       (dk_cells (journal_disk reference_prims 0 [g] []))"
    and f: "collision_free reference_prims (genesis_state sample_identity founder revocations (Some (handle_of reference_prims [g])))"
    by (rule sample_state)
  let ?st = "genesis_state sample_identity founder revocations (Some (handle_of reference_prims [g]))"
  have "ls_sequence ?st = 0" by (simp add: genesis_state_def)
  then show ?thesis
    using reserve_succeeds [OF reference.primitives_axioms, of "journal_disk reference_prims 0 [g] []" ?st "[g]"] l f by auto
qed

text \<open>
  C22. A reservation that fails leaves the sequence number in memory as it was, whatever call failed;
  and whatever a power loss then leaves, a state that opens again holds that number or its successor.
\<close>

theorem reserve_fails:
  assumes "primitives P" and "logged P (dk_uid d) st fs (dk_cells d)" and "collision_free P st"
    and "reserve_next_sequence P st d = (Err e, st', d')"
  shows "core st' = core st \<and> (\<forall>d2 \<in> set (crash_states d'). \<forall>st2 d3. state_open P (ls_identity st) d2 = (Ok st2, d3) \<longrightarrow>
    core st2 = core st \<or> core st2 = core (st\<lparr>ls_sequence := ls_sequence st + 1\<rparr>))"
proof -
  note primitives.reserve_outcome [OF assms]
  then have "rests P (dk_uid d) (ls_identity st) {core st, core (st\<lparr>ls_sequence := ls_sequence st + 1\<rparr>)} (dk_cells d')"
    and "dk_uid d' = dk_uid d" and "core st' = core st" by simp_all
  then show ?thesis using open_rests [of P "dk_uid d" "ls_identity st"] by blast
qed

theorem reserve_fails_witness:
  "\<exists>st fs e st' d'. logged reference_prims 0 st fs (dk_cells (journal_disk reference_prims 0 fs [])) \<and>
     reserve_next_sequence reference_prims st (journal_disk reference_prims 0 fs [Some 0]) = (Err e, st', d') \<and>
     core st' = core st"
proof -
  obtain founder revocations g where
    l: "logged reference_prims 0 (genesis_state sample_identity founder revocations (Some (handle_of reference_prims [g]))) [g]
       (dk_cells (journal_disk reference_prims 0 [g] []))"
    and f: "collision_free reference_prims (genesis_state sample_identity founder revocations (Some (handle_of reference_prims [g])))"
    by (rule sample_state)
  let ?st = "genesis_state sample_identity founder revocations (Some (handle_of reference_prims [g]))"
  let ?d = "journal_disk reference_prims 0 [g] [Some 0]"
  have "\<exists>e st' d'. reserve_next_sequence reference_prims ?st ?d = (Err e, st', d')"
    by (simp add: reserve_next_sequence_def genesis_state_def checked_add_def append_authoritative_def compact_if_needed_def
        journal_mut_def journal_byte_len_def sys_def io_map_err_def observe_def syscall_def pop_fault_def so_bind_def so_catch_def
        so_attempt_def so_get_def so_lift_def so_ok_def so_err_def is_journal_error_def take_journal_def so_modify_def)
  moreover have "dk_cells ?d = dk_cells (journal_disk reference_prims 0 [g] [])" by (simp add: journal_disk_def)
  ultimately show ?thesis
    using reserve_fails [OF reference.primitives_axioms, of ?d ?st "[g]"] l f by fastforce
qed

section \<open>Histories\<close>

text \<open>
  C1. No endpoint sequence number is ever handed out twice. Over any history of a device, with any
  commands, failing system calls, power losses and failed restarts, the numbers it reserved or signed
  records with strictly increase.
\<close>

theorem sequence_never_reused:
  assumes "primitives P" and "identity_wf P identity" and "history P u identity tr ns m c"
  shows "sorted_wrt (<) ns"
  using primitives.history_sound [OF assms(1,3,2)] by (simp add: sound_history_def)


lemma sample_reserved:
  obtains st g st' d' where "logged reference_prims 0 st [g] (dk_cells (journal_disk reference_prims 0 [g] []))"
    "collision_free reference_prims st" "ls_identity st = sample_identity"
    "run_command reference_prims Reserve st (journal_disk reference_prims 0 [g] []) = (Ok (Reserved 1), st', d')"
proof -
  let ?P = reference_prims
  obtain founder revocations g where
    l: "logged ?P 0 (genesis_state sample_identity founder revocations (Some (handle_of ?P [g]))) [g]
       (dk_cells (journal_disk ?P 0 [g] []))"
    and f: "collision_free ?P (genesis_state sample_identity founder revocations (Some (handle_of ?P [g])))"
    by (rule sample_state)
  let ?st = "genesis_state sample_identity founder revocations (Some (handle_of ?P [g]))" and ?d = "journal_disk ?P 0 [g] []"
  have st: "ls_identity ?st = sample_identity" "ls_sequence ?st = 0" by (simp_all add: genesis_state_def)
  obtain r st' d' where run: "reserve_next_sequence ?P ?st ?d = (r, st', d')" by (cases "reserve_next_sequence ?P ?st ?d") auto
  note reference.reserve_outcome [OF _ f run, of "[g]"]
  then have "r = Ok 1" using l by (cases r) (simp_all add: st)
  then have "run_command ?P Reserve ?st ?d = (Ok (Reserved 1), st', d')" using run by (simp add: so_bind_def so_ok_def)
  then show ?thesis using that [OF l f st(1)] by blast
qed

lemma sample_history:
  "\<exists>st st' c. history reference_prims 0 sample_identity [core st, core st'] [1] None c"
proof -
  obtain st g st' d' where l: "logged reference_prims 0 st [g] (dk_cells (journal_disk reference_prims 0 [g] []))"
    and f: "collision_free reference_prims st" and i: "ls_identity st = sample_identity"
    and run: "run_command reference_prims Reserve st (journal_disk reference_prims 0 [g] []) = (Ok (Reserved 1), st', d')"
    by (rule sample_reserved)
  from history.run [OF history.start [OF l i] f _ run]
  have "history reference_prims 0 sample_identity [core st, core st'] [1] (Some st') (dk_cells d')" by (simp add: handed_out_def)
  then show ?thesis using history.power_loss cell_outcomes_now by blast
qed

theorem sequence_never_reused_witness:
  "\<exists>tr m c. history reference_prims 0 sample_identity tr [1] m c \<and> sorted_wrt (<) [1 :: u64]"
  using sample_history sequence_never_reused [OF reference.primitives_axioms sample_wf(1)] by blast


section \<open>Memory and journal\<close>

lemma members_lookup: "bt_get (members own ms) n = Some m \<Longrightarrow> m \<in> set (own # ms) \<and> node_of m = n"
proof (induction ms rule: rev_induct)
  case Nil
  then show ?case by (auto simp: members_def split: if_splits)
next
  case (snoc x ms)
  then show ?case by (auto split: if_splits)
qed

lemma authority_serials:
  assumes "authority_ok P st own ms"
  shows "m \<in> set (own # ms) \<Longrightarrow> serial_of m \<le> ls_last_membership_serial st" and "inj_on serial_of (set (own # ms))"
proof -
  let ?s = "unat (serial_of own)"
  have serials: "map (unat \<circ> serial_of) ms = [Suc ?s..<Suc (?s + length ms)]"
    and last: "unat (ls_last_membership_serial st) = ?s + length ms"
    using assms by (simp_all add: authority_ok_def)
  then have "map (unat \<circ> serial_of) (own # ms) = [?s..<Suc (?s + length ms)]" by (simp add: upt_conv_Cons del: upt_Suc)
  then have all: "(unat \<circ> serial_of) ` set (own # ms) = {?s..<Suc (?s + length ms)}" "distinct (map (unat \<circ> serial_of) (own # ms))"
    by (metis set_map set_upt, metis distinct_upt)
  show "serial_of m \<le> ls_last_membership_serial st" if "m \<in> set (own # ms)"
  proof -
    have "(unat \<circ> serial_of) m \<in> {?s..<Suc (?s + length ms)}" using that unfolding all(1) [symmetric] by (rule imageI)
    then show ?thesis using last by (simp add: word_le_nat_alt)
  qed
  have "inj_on (unat \<circ> serial_of) (set (own # ms))" using all(2) distinct_map by blast
  then show "inj_on serial_of (set (own # ms))" by (rule inj_on_imageI2)
qed

text \<open>
  C2. Every operation is one step of the replay. Started on the replay of its journal and run under any
  faults, an operation ends on the replay of the journal as it then is, which is the state before it or
  that state after one more valid event; or it fails, leaves the state as it was and gives up the
  journal. After any power loss a state that opens is again the one before or one valid event later.
\<close>

theorem commands_refine_log:
  assumes "primitives P" and "identity_wf P (ls_identity st)" and "logged P (dk_uid d) st fs (dk_cells d)"
    and "collision_free P st" and "run_command P cmd st d = (r, st', d')"
  shows "((\<exists>gs. logged P (dk_uid d) st' gs (dk_cells d') \<and> core st' \<in> successors P st) \<or>
      \<not> is_ok r \<and> core st' = core st \<and> ls_journal st' = None) \<and>
    (\<forall>d2 \<in> set (crash_states d'). \<forall>st2 d3. state_open P (ls_identity st) d2 = (Ok st2, d3) \<longrightarrow> core st2 \<in> successors P st)"
proof -
  note out = primitives.command_outcome [OF assms]
  have "rests P (dk_uid d) (ls_identity st) (successors P st) (dk_cells d')"
    using out(2) logged_rests [of P "dk_uid d" st' _ "dk_cells d'" "successors P st"]
    by (auto simp: settled_at_def suspended_def)
  then have "core st2 \<in> successors P st"
    if "d2 \<in> set (crash_states d')" "state_open P (ls_identity st) d2 = (Ok st2, d3)" for d2 st2 d3
    using open_rests out(1) that by blast
  then show ?thesis using out(2) by (auto simp: settled_at_def suspended_def)
qed

theorem commands_refine_log_witness:
  "\<exists>st g st' d'. run_command reference_prims Reserve st (journal_disk reference_prims 0 [g] []) = (Ok (Reserved 1), st', d') \<and>
     (\<exists>gs. logged reference_prims 0 st' gs (dk_cells d'))"
proof -
  obtain st g st' d' where l: "logged reference_prims 0 st [g] (dk_cells (journal_disk reference_prims 0 [g] []))"
    and f: "collision_free reference_prims st" and i: "ls_identity st = sample_identity"
    and run: "run_command reference_prims Reserve st (journal_disk reference_prims 0 [g] []) = (Ok (Reserved 1), st', d')"
    by (rule sample_reserved)
  have "identity_wf reference_prims (ls_identity st)" by (simp add: i)
  from commands_refine_log [OF reference.primitives_axioms this _ f run, of "[g]"] l
  have "\<exists>gs. logged reference_prims 0 st' gs (dk_cells d')" by auto
  then show ?thesis using run by blast
qed

text \<open>
  C14. Compaction changes the representation and nothing else. Every replayed state compacts, the new
  frames replay to the same state with the new count of events, and they stay below the size at which
  compaction is due.
\<close>

theorem compaction_preserves_state:
  assumes "primitives P" and "replay P identity j fs = Ok st"
  shows "\<exists>cs. compaction_frames P st = Ok cs \<and>
    replay P identity j cs = Ok (st\<lparr>ls_event_count := of_nat (length cs)\<rparr>) \<and>
    length (journal_image P cs) < unat AUTHORITATIVE_COMPACTION_THRESHOLD_BYTES"
proof -
  obtain own ms where st: "authority_ok P st own ms" "ls_identity st = identity" "ls_journal st = j"
    using replay_authority [OF assms(2)] by blast
  have "st\<lparr>ls_journal := j\<rparr> = st" using st(3) by simp
  then show ?thesis
    using primitives.compaction_fits [OF assms(1) st(1)] st(2)
    by (auto simp: AUTHORITATIVE_COMPACTION_THRESHOLD_BYTES_def dest!: spec [of _ j])
qed

theorem compaction_preserves_state_witness:
  "\<exists>g st cs. replay reference_prims sample_identity None [g] = Ok st \<and> compaction_frames reference_prims st = Ok cs \<and>
     replay reference_prims sample_identity None cs = Ok (st\<lparr>ls_event_count := of_nat (length cs)\<rparr>)"
proof -
  obtain founder revocations g where made: "encode_event reference_prims (Genesis founder revocations) = Ok g"
    "genesis_ok reference_prims sample_identity founder revocations"
    by (rule sample_state)
  from compaction_preserves_state [OF reference.primitives_axioms reference.genesis_replays [OF made(2,1), of None]]
  show ?thesis using reference.genesis_replays [OF made(2,1), of None] by blast
qed

text \<open>
  C10. Whatever journal a state was replayed from, it holds the device's own membership, at most 256
  members in key order, each filed under its own node, certified by the root of the hive and carrying a
  serial of its own up to the last one recorded, and a revocation list signed by that root.
\<close>

theorem replay_invariant:
  assumes "replay P identity j fs = Ok st"
  shows "(\<exists>own. local_membership P st = Some own \<and>
      mc_device_verifying_key (sm_certificate own) = device_verifying_key P (li_device identity)) \<and>
    bt_ok (ls_memberships st) \<and> length (ls_memberships st) \<le> MAX_HIVE_MEMBERS \<and>
    (\<forall>n m. bt_get (ls_memberships st) n = Some m \<longrightarrow> mc_node_id (sm_certificate m) = n \<and>
      verify_membership P m (li_root_verifying_key identity) = Ok () \<and>
      mc_serial (sm_certificate m) \<le> ls_last_membership_serial st) \<and>
    (\<forall>n m n' m'. bt_get (ls_memberships st) n = Some m \<and> bt_get (ls_memberships st) n' = Some m' \<and>
      mc_serial (sm_certificate m) = mc_serial (sm_certificate m') \<longrightarrow> n = n') \<and>
    verify_revocations P (ls_revocations st) (li_root_verifying_key identity) = Ok ()"
proof -
  obtain own ms where ok: "authority_ok P st own ms" and id: "ls_identity st = identity"
    using replay_authority [OF assms] by blast
  have genesis: "genesis_ok P identity own (ls_revocations st)" and mem: "ls_memberships st = members own ms"
    and dist: "distinct (map node_of (own # ms))" and len: "length ms < MAX_HIVE_MEMBERS"
    and each: "\<forall>m \<in> set ms. verify_membership P m (li_root_verifying_key identity) = Ok ()"
    using ok id by (simp_all add: authority_ok_def)
  have own: "local_membership P st = Some own"
    using genesis members_own [OF dist] by (simp add: local_membership_def id mem genesis_ok_def)
  have get: "m \<in> set (own # ms) \<and> node_of m = n" if "bt_get (ls_memberships st) n = Some m" for n m
    using that members_lookup unfolding mem by blast
  note serials = authority_serials [OF ok]
  have "verify_membership P m (li_root_verifying_key identity) = Ok ()" if "m \<in> set (own # ms)" for m
    using that each genesis by (auto simp: genesis_ok_def)
  moreover have "n = n'" if "bt_get (ls_memberships st) n = Some m" "bt_get (ls_memberships st) n' = Some m'"
    "serial_of m = serial_of m'" for n m n' m'
    using get [OF that(1)] get [OF that(2)] inj_onD [OF serials(2) that(3)] by auto
  moreover have "length (ls_memberships st) \<le> MAX_HIVE_MEMBERS" using len by (simp add: mem length_members [OF dist])
  moreover have "bt_ok (ls_memberships st)" by (simp add: mem bt_ok_members)
  moreover have "mc_device_verifying_key (sm_certificate own) = device_verifying_key P (li_device identity)"
    "verify_revocations P (ls_revocations st) (li_root_verifying_key identity) = Ok ()"
    using genesis by (simp_all add: genesis_ok_def)
  ultimately show ?thesis using own get serials(1) by blast
qed

theorem replay_invariant_witness:
  "\<exists>g st. replay reference_prims sample_identity None [g] = Ok st \<and> length (ls_memberships st) \<le> MAX_HIVE_MEMBERS \<and>
     local_membership reference_prims st \<noteq> None"
proof -
  obtain founder revocations g where made: "encode_event reference_prims (Genesis founder revocations) = Ok g"
    "genesis_ok reference_prims sample_identity founder revocations"
    by (rule sample_state)
  note rep = reference.genesis_replays [OF made(2,1), of None]
  from replay_invariant [OF rep] show ?thesis using rep by blast
qed

lemma sign_record_signs:
  assumes "sign_endpoint_record P name key claims t1 t2 st d = (Ok s, st', d')" and "local_membership P st = Some own"
  obtains r where "sign_endpoint P r (li_device (ls_identity st)) = Ok s" "er_hive_id r = li_hive_id (ls_identity st)"
    "er_node_id r = device_node_id P (li_device (ls_identity st))" "er_expires_at r \<le> mc_expires_at (sm_certificate own)"
    "capabilities_contains (er_capabilities r) CAPABILITY_INTRODUCER \<longrightarrow> roles_contains (mc_roles (sm_certificate own)) ROLE_INTRODUCER"
    "capabilities_contains (er_capabilities r) CAPABILITY_CONTROL_RELAY \<longrightarrow> roles_contains (mc_roles (sm_certificate own)) ROLE_CONTROL_RELAY"
proof -
  let ?r = "\<lambda>n. canonicalize_candidates \<lparr>er_protocol_version =
      if cm_services claims = [] then ENDPOINT_RECORD_VERSION_V2 else ENDPOINT_RECORD_VERSION,
    er_hive_id = li_hive_id (ls_identity st), er_node_id = device_node_id P (li_device (ls_identity st)),
    er_display_name = Some name, er_transport_key_id = key, er_generation = ls_generation st, er_sequence = n,
    er_issued_at = t1, er_expires_at = t2, er_candidates = cm_candidates claims,
    er_capabilities = cm_capabilities claims, er_services = cm_services claims\<rparr>"
  have "t2 \<le> mc_expires_at (sm_certificate own)"
    "capabilities_contains (cm_capabilities claims) CAPABILITY_INTRODUCER \<longrightarrow> roles_contains (mc_roles (sm_certificate own)) ROLE_INTRODUCER"
    "capabilities_contains (cm_capabilities claims) CAPABILITY_CONTROL_RELAY \<longrightarrow> roles_contains (mc_roles (sm_certificate own)) ROLE_CONTROL_RELAY"
    using assms unfolding sign_endpoint_record_def Let_def by (auto simp: so_run not_less split: if_splits)
  moreover have "\<exists>n. sign_endpoint P (?r n) (li_device (ls_identity st)) = Ok s"
    using assms unfolding sign_endpoint_record_def Let_def
    by (simp add: so_run so_bind_lift so_bind_def split: if_splits sum.splits prod.splits) (auto simp: result_simps)
  ultimately show ?thesis using that by (auto simp: canonicalize_candidates_def)
qed

text \<open>
  C19. A record the state signs is one every peer accepts: it is authorized by the device's own
  membership under the root of the hive, at every moment both are in force.
\<close>

theorem signed_record_authorized:
  assumes "primitives P" and "replay P identity j fs = Ok st"
    and "sign_endpoint_record P name key claims issued_at expires_at st d = (Ok s, st', d')"
    and "endpoint_validate_time (se_record s) now = Ok ()"
  shows "\<exists>own. local_membership P st = Some own \<and>
    (membership_validate_time (sm_certificate own) now = Ok () \<longrightarrow>
      verify_authorized P s own (li_root_verifying_key identity) now = Ok ())"
proof -
  obtain own ms where ok: "authority_ok P st own ms" and id: "ls_identity st = identity"
    using replay_authority [OF assms(2)] by blast
  have genesis: "genesis_ok P identity own (ls_revocations st)" and dist: "distinct (map node_of (own # ms))"
    and mem: "ls_memberships st = members own ms" using ok id by (simp_all add: authority_ok_def)
  have own: "local_membership P st = Some own"
    using genesis members_own [OF dist] by (simp add: local_membership_def id mem genesis_ok_def)
  obtain r where sign: "sign_endpoint P r (li_device identity) = Ok s" and r: "er_hive_id r = li_hive_id identity"
    "er_node_id r = device_node_id P (li_device identity)" "er_expires_at r \<le> mc_expires_at (sm_certificate own)"
    "capabilities_contains (er_capabilities r) CAPABILITY_INTRODUCER \<longrightarrow> roles_contains (mc_roles (sm_certificate own)) ROLE_INTRODUCER"
    "capabilities_contains (er_capabilities r) CAPABILITY_CONTROL_RELAY \<longrightarrow> roles_contains (mc_roles (sm_certificate own)) ROLE_CONTROL_RELAY"
    by (rule sign_record_signs [OF assms(3) own]) (simp add: id)
  note ed = primitives.axioms(2) [OF assms(1)]
  have "verify_endpoint P s (device_verifying_key P (li_device identity)) = Ok ()" "se_record s = canonicalize_candidates r"
    using ed25519.sign_endpoint_verifies [OF ed sign] by simp_all
  then show ?thesis
    using own r genesis assms(4) ed25519.device_key_valid [OF ed]
    by (auto simp: verify_authorized_Ok canonicalize_candidates_def genesis_ok_def)
qed

theorem signed_record_authorized_witness:
  "\<exists>st s st' d d'. sign_endpoint_record reference_prims (PeerName ''node'') (TransportKeyId 3)
       \<lparr>cm_candidates = [], cm_capabilities = CAPABILITY_INTRODUCER, cm_services = []\<rparr> 1000 2000 st d = (Ok s, st', d') \<and>
     (\<exists>own. local_membership reference_prims st = Some own \<and>
        verify_authorized reference_prims s own (li_root_verifying_key sample_identity) 1500 = Ok ())"
proof -
  let ?P = reference_prims and ?c = "\<lparr>cm_candidates = [], cm_capabilities = CAPABILITY_INTRODUCER, cm_services = []\<rparr> :: EndpointClaims"
  obtain founder revocations g where made: "encode_event ?P (Genesis founder revocations) = Ok g"
      "genesis_ok ?P sample_identity founder revocations"
    and l: "logged ?P 0 (genesis_state sample_identity founder revocations (Some (handle_of ?P [g]))) [g]
       (dk_cells (journal_disk ?P 0 [g] []))"
    and f: "collision_free ?P (genesis_state sample_identity founder revocations (Some (handle_of ?P [g])))"
    and cert: "sm_certificate founder = founding_certificate ?P sample_identity 1000"
    by (rule sample_state)
  define st d where defs: "st = genesis_state sample_identity founder revocations (Some (handle_of ?P [g]))" "d = journal_disk ?P 0 [g] []"
  have rep: "replay ?P sample_identity (Some (handle_of ?P [g])) [g] = Ok st"
    unfolding defs by (rule reference.genesis_replays [OF made(2,1)])
  have st: "ls_identity st = sample_identity" "ls_sequence st = 0" "ls_generation st = 0" by (simp_all add: defs genesis_state_def)
  have own: "local_membership ?P st = Some founder"
    using made(2) by (simp add: local_membership_def defs genesis_state_def genesis_ok_def)
  obtain r st' d' where run: "reserve_next_sequence ?P st d = (r, st', d')" by (cases "reserve_next_sequence ?P st d") auto
  have "logged ?P (dk_uid d) st [g] (dk_cells d)" "collision_free ?P st" using l f by (simp_all add: defs)
  from reference.reserve_outcome [OF this run] have r: "r = Ok 1" by (cases r) (simp_all add: st defs(2))
  define x where "x = canonicalize_candidates \<lparr>er_protocol_version = ENDPOINT_RECORD_VERSION_V2, er_hive_id = li_hive_id sample_identity,
    er_node_id = device_node_id ?P (li_device sample_identity), er_display_name = Some (PeerName ''node''),
    er_transport_key_id = TransportKeyId 3, er_generation = 0, er_sequence = 1, er_issued_at = 1000, er_expires_at = 2000,
    er_candidates = [], er_capabilities = CAPABILITY_INTRODUCER, er_services = []\<rparr>"
  have canon: "canonicalize_candidates x = x" by (simp add: x_def canonicalize_idem)
  have "er_candidates x = []" "er_services x = []" "er_display_name x = Some (PeerName ''node'')" "er_issued_at x = 1000"
    "er_expires_at x = 2000" "er_protocol_version x = ENDPOINT_RECORD_VERSION_V2" "er_sequence x = 1"
    "er_node_id x = device_node_id ?P (li_device sample_identity)" "er_capabilities x = CAPABILITY_INTRODUCER"
    by (simp_all add: x_def canonicalize_candidates_def sort_dedup_def)
  note x = this
  have shape: "endpoint_validate_shape x = Ok ()" unfolding endpoint_validate_shape_def x by code_simp
  have "peer_name_new ''node'' = Ok (PeerName ''node'')" by code_simp
  then have "wire_record x" by (intro validated_wire_record [OF shape]) (simp_all add: claims_typed_def x)
  then obtain bs where "encode_endpoint_record ?P x = Ok bs" using reference.encode_endpoint_record_ok by blast
  then obtain s where sign: "sign_endpoint ?P x (li_device sample_identity) = Ok s" and s: "se_record s = x"
    using shape by (auto simp: sign_endpoint_def canon x Let_def signature_domain_def ENDPOINT_RECORD_VERSION_V1_def ENDPOINT_RECORD_VERSION_V2_def)
  have rights: "roles_contains (roles_or ROLE_DEVICE ROLE_INTRODUCER) ROLE_INTRODUCER"
    "\<not> capabilities_contains CAPABILITY_INTRODUCER CAPABILITY_CONTROL_RELAY"
    by (simp_all add: roles_contains_def roles_or_def ROLE_DEVICE_def ROLE_INTRODUCER_def capabilities_contains_def
        CAPABILITY_INTRODUCER_def CAPABILITY_CONTROL_RELAY_def)
  have expiry: "saturating_add 1000 MAX_MEMBERSHIP_LIFETIME_SECONDS = 1000 + MAX_MEMBERSHIP_LIFETIME_SECONDS"
    by (simp add: saturating_add_def MAX_MEMBERSHIP_LIFETIME_SECONDS_def)
  then have live: "\<not> saturating_add 1000 MAX_MEMBERSHIP_LIFETIME_SECONDS < 2000" "\<not> saturating_add 1000 MAX_MEMBERSHIP_LIFETIME_SECONDS < 1500"
    by (simp_all add: MAX_MEMBERSHIP_LIFETIME_SECONDS_def)
  have signed: "sign_endpoint_record ?P (PeerName ''node'') (TransportKeyId 3) ?c 1000 2000 st d = (Ok s, st', d')"
    using shape sign run r
    by (simp add: sign_endpoint_record_def own cert founding_certificate_def rights live st checked_add_def so_bind_def so_run x_def Let_def)
  have "endpoint_validate_time (se_record s) 1500 = Ok ()" 
    by (simp add: endpoint_validate_time_def s x saturating_add_def MAX_FUTURE_SKEW_SECONDS_def)
  moreover have "membership_validate_time (sm_certificate founder) 1500 = Ok ()"
    by (simp add: membership_validate_time_def cert founding_certificate_def live)
  ultimately have "verify_authorized ?P s founder (li_root_verifying_key sample_identity) 1500 = Ok ()"
    using signed_record_authorized [OF reference.primitives_axioms rep signed] own by simp
  then show ?thesis using signed own by blast
qed

end
