(* ===== verification/State_Joining.thy ===== *)
theory State_Joining
  imports State_Properties
begin

text \<open>
  Becoming a member: founding a hive, admitting a request, and joining with the bundle that answers
  it, each followed through faults and power loss to the state that opens afterwards.
\<close>

section \<open>Founding\<close>

lemma open_logged:
  assumes "logged P (dk_uid d) st fs (dk_cells d)" and "d2 \<in> set (crash_states d)"
  shows "\<exists>d3. state_open P (ls_identity st) d2 = (Ok st, d3)"
proof -
  have dur: "durable P (dk_uid d) fs (dk_cells d)" and rep: "replay P (ls_identity st) (Some (handle_of P fs)) fs = Ok st"
    using assms(1) by (auto simp: logged_def)
  then obtain d3 where "journal_open P d2 = (Ok (handle_of P fs, fs), d3)"
    using open_after_crash [OF durable_recovers [OF dur] refl assms(2)] by auto
  then show ?thesis using rep by (auto simp: state_open_Ok)
qed



section \<open>Joining\<close>


section \<open>Admission\<close>

lemma issue_member:
  assumes "issue_membership P key roles nonce t1 t2 st d = (Ok m, st', d')"
  shows "mc_device_verifying_key (sm_certificate m) = key \<and> mc_admission_nonce (sm_certificate m) = nonce \<and>
    bt_get (ls_memberships st') (node_from_verifying_key P key) = Some m"
proof -
  have sign: "sm_certificate s = c" if "sign_membership P c root = Ok s" for c root s
    using that by (auto simp: sign_membership_def result_simps split: if_splits)
  show ?thesis
    using assms unfolding issue_membership_def Let_def
    by (auto simp: so_bind_lift so_bind_def so_run result_simps split: if_splits sum.splits prod.splits dest!: sign)
qed

lemma authorize_member:
  assumes "authorize_join_request P request node roles t1 t2 st d = (Ok m, st', d')"
  shows "verify_join_request P request = Ok (jr_device_verifying_key request) \<and>
    node = node_from_verifying_key P (jr_device_verifying_key request) \<and>
    mc_device_verifying_key (sm_certificate m) = jr_device_verifying_key request \<and>
    mc_admission_nonce (sm_certificate m) = jr_nonce request \<and> bt_get (ls_memberships st') node = Some m"
proof -
  obtain key where key: "verify_join_request P request = Ok key" "node = node_from_verifying_key P key"
    using assms unfolding authorize_join_request_def Let_def
    by (auto simp: so_bind_lift so_run result_simps split: sum.splits if_splits)
  then have eq: "key = jr_device_verifying_key request" by (simp add: verify_join_request_Ok)
  show ?thesis
  proof (cases "bt_get (ls_memberships st) node")
    case None
    then have "issue_membership P key roles (jr_nonce request) t1 t2 st d = (Ok m, st', d')"
      using assms key unfolding authorize_join_request_def Let_def by (simp add: so_bind_lift)
    then show ?thesis using issue_member key eq by blast
  next
    case (Some x)
    then have "x = m" "st' = st" "mc_device_verifying_key (sm_certificate x) = jr_device_verifying_key request"
      "mc_admission_nonce (sm_certificate x) = jr_nonce request"
      using assms key unfolding authorize_join_request_def Let_def by (auto simp: so_bind_lift so_run split: if_splits)
    then show ?thesis using Some key eq by simp
  qed
qed

context primitives
begin

lemma commit_succeeds:
  assumes "apply_replayed P st e = Ok st1" and "encode_event P e = Ok p" and "logged P (dk_uid d) st fs (dk_cells d)"
    and "collision_free P st" and "dk_faults d = []"
  shows "\<exists>st' d' gs. so_bind (append_authoritative P p) (\<lambda>_. so_modify (effect e)) st d = (Ok (), st', d') \<and>
    logged P (dk_uid d) st' gs (dk_cells d') \<and> core st' = core (effect e st)"
proof -
  obtain r st' d' where run: "so_bind (append_authoritative P p) (\<lambda>_. so_modify (effect e)) st d = (r, st', d')"
    by (cases "so_bind (append_authoritative P p) (\<lambda>_. so_modify (effect e)) st d") auto
  have "ready P (dk_uid d) st fs (dk_cells d)" using assms(3,4) by (simp add: ready_def)
  from sspecD [OF sspec_commit [OF assms(1,2)] refl this run] show ?thesis using run assms(5) by (cases r) auto
qed

lemma issue_succeeds:
  assumes "identity_wf P (ls_identity st)" and "li_root (ls_identity st) = Some root"
    and room: "length (ls_memberships st) < MAX_HIVE_MEMBERS" "\<not> revocation_contains (ls_revocations st) (node_from_verifying_key P key)"
      "bt_get (ls_memberships st) (node_from_verifying_key P key) = None"
    and serial: "checked_add (ls_last_membership_serial st) 1 = Some serial"
    and sign: "sign_membership P \<lparr>mc_version = MEMBERSHIP_VERSION, mc_hive_id = li_hive_id (ls_identity st),
      mc_node_id = node_from_verifying_key P key, mc_device_verifying_key = key, mc_serial = serial, mc_issued_at = t1,
      mc_expires_at = t2, mc_roles = roles, mc_admission_nonce = nonce\<rparr> root = Ok m"
    and st: "logged P (dk_uid d) st fs (dk_cells d)" "collision_free P st" "dk_faults d = []"
  shows "\<exists>st' d' gs. issue_membership P key roles nonce t1 t2 st d = (Ok m, st', d') \<and>
    logged P (dk_uid d) st' gs (dk_cells d') \<and> core st' = core (effect (MembershipEvent m) st)"
proof -
  have cert: "verify_membership P m (li_root_verifying_key (ls_identity st)) = Ok ()" "mc_serial (sm_certificate m) = serial"
    "mc_node_id (sm_certificate m) = node_from_verifying_key P key"
    using sign_membership_verifies [OF sign] assms(1,2) by (auto simp: identity_wf_def)
  then have app: "apply_replayed P st (MembershipEvent m) = Ok (effect (MembershipEvent m) st)"
    using room serial by (simp add: not_le)
  obtain p where p: "encode_event P (MembershipEvent m) = Ok p" using encode_event_ok [OF apply_replayed_wf [OF app]] by blast
  have eff: "effect (MembershipEvent m) = (\<lambda>st. st\<lparr>ls_memberships := bt_insert (node_from_verifying_key P key) m (ls_memberships st),
      ls_last_membership_serial := serial, ls_event_count := saturating_add (ls_event_count st) 1\<rparr>)"
    using cert by (intro ext) simp
  obtain st' d' gs where run: "so_bind (append_authoritative P p) (\<lambda>_. so_modify (effect (MembershipEvent m))) st d = (Ok (), st', d')"
    and after: "logged P (dk_uid d) st' gs (dk_cells d')" "core st' = core (effect (MembershipEvent m) st)"
    using commit_succeeds [OF app p st] by blast
  have "issue_membership P key roles nonce t1 t2 st d =
      so_bind (so_bind (append_authoritative P p) (\<lambda>_. so_modify (effect (MembershipEvent m)))) (\<lambda>_. so_ok m) st d"
    unfolding issue_membership_def Let_def so_bind_assoc eff
    using room serial sign p assms(2) by (simp add: not_le del: encode_event.simps)
  also have "\<dots> = (Ok m, st', d')" using run by (simp only: so_bind_def [of "so_bind _ _"]) (simp add: so_ok_def)
  finally show ?thesis using after by blast
qed

end

lemma authorized_bundle_accepted:
  assumes "primitives P"
    and "authorize_join_request P (create_join_request P pending) node roles t1 t2 st d = (Ok m, st', d')"
    and "join_bundle_new P root m (ls_revocations st') t = Ok b" and "t \<noteq> - 1" and "now \<le> jb_expires_at b"
    and "\<not> revocation_contains (ls_revocations st') node"
  shows "verify_for_pending P b pending now = Ok (root_verifying_key P root) \<and>
    authorize_join_request P (create_join_request P pending) node roles' t1' t2' st' d'' = (Ok m, st', d'')"
proof -
  let ?r = "create_join_request P pending"
  have req: "jr_device_verifying_key ?r = device_verifying_key P (pi_device pending)" "jr_nonce ?r = pi_request_nonce pending"
    by (simp_all add: create_join_request_def Let_def)
  note m = authorize_member [OF assms(2)]
  have made: "verify_membership P m (root_verifying_key P root) = Ok ()"
    "verify_revocations P (ls_revocations st') (root_verifying_key P root) = Ok ()"
    using join_bundle_new_Ok [OF assms(3)] by simp_all
  have "mc_node_id (sm_certificate m) = node"
    using made(1) m by (auto simp: verify_membership_Ok membership_wf_def membership_validate_shape_def split: if_splits)
  then have "mc_node_id (sm_certificate m) \<notin> set (rl_revoked_nodes (sr_list (ls_revocations st')))"
    using assms(6) made(2) revocation_contains_iff by (auto simp: verify_revocations_Ok revocation_wf_def)
  then have "verify_for_pending P b pending now = Ok (root_verifying_key P root)"
    using ed25519.join_bundle_accepted [OF primitives.axioms(2) [OF assms(1)] assms(3,4) _ _ _ assms(5)] m req by simp
  moreover have "authorize_join_request P ?r node roles' t1' t2' st' d'' = (Ok m, st', d'')"
    using m unfolding authorize_join_request_def Let_def by (auto simp: so_bind_lift so_run)
  ultimately show ?thesis ..
qed


section \<open>A computer that joins\<close>

definition sample_pending :: PendingIdentity where
  "sample_pending = \<lparr>pi_device = \<lparr>device_seed = 5\<rparr>, pi_request_nonce = 7\<rparr>"

lemma sample_admission:
  obtains st d m st' d' b where
    "authorize_join_request reference_prims (create_join_request reference_prims sample_pending)
       (node_from_verifying_key reference_prims 5) ROLE_DEVICE 1000 2000 st d = (Ok m, st', d')"
    "join_bundle_new reference_prims sample_root m (ls_revocations st') 1000 = Ok b" "1500 \<le> jb_expires_at b"
    "\<not> revocation_contains (ls_revocations st') (node_from_verifying_key reference_prims 5)"
    "mc_expires_at (sm_certificate (jb_membership b)) = 2000"
proof -
  let ?P = reference_prims and ?node = "node_from_verifying_key reference_prims 5"
  obtain founder revocations g where made: "encode_event ?P (Genesis founder revocations) = Ok g"
      "genesis_ok ?P sample_identity founder revocations"
    and l: "logged ?P 0 (genesis_state sample_identity founder revocations (Some (handle_of ?P [g]))) [g]
       (dk_cells (journal_disk ?P 0 [g] []))"
    and f: "collision_free ?P (genesis_state sample_identity founder revocations (Some (handle_of ?P [g])))"
    and cert: "sm_certificate founder = founding_certificate ?P sample_identity 1000"
    and rv: "sr_list revocations = \<lparr>rl_version = REVOCATION_VERSION, rl_hive_id = root_hive_id ?P sample_root, rl_serial = 0,
       rl_issued_at = 1000, rl_revoked_nodes = []\<rparr>"
    by (rule sample_state)
  define st d where defs: "st = genesis_state sample_identity founder revocations (Some (handle_of ?P [g]))" "d = journal_disk ?P 0 [g] []"
  let ?c = "\<lparr>mc_version = MEMBERSHIP_VERSION, mc_hive_id = li_hive_id sample_identity, mc_node_id = ?node,
    mc_device_verifying_key = 5, mc_serial = 2, mc_issued_at = 1000, mc_expires_at = 2000, mc_roles = ROLE_DEVICE,
    mc_admission_nonce = 7\<rparr>"
  have "membership_validate_shape ?P ?c = Ok ()"
    by (simp add: membership_validate_shape_def saturating_sub_def MAX_MEMBERSHIP_LIFETIME_SECONDS_def roles_contains_def
        roles_from_bits_def ROLE_DEVICE_def ROLES_KNOWN_BITS_def ROLE_INTRODUCER_def ROLE_CONTROL_RELAY_def)
  then obtain m where sign: "sign_membership ?P ?c sample_root = Ok m"
    by (auto simp: sign_membership_def sample_identity_def)
  have founder: "mc_node_id (sm_certificate founder) = node_from_verifying_key ?P 2"
    by (simp add: cert founding_certificate_def sample_identity_def device_node_id_def device_verifying_key_def)
  have other: "?node \<noteq> node_from_verifying_key ?P 2" using sample_nodes_distinct [of 5 2] by auto
  have rv_ok: "verify_revocations ?P revocations (root_verifying_key ?P sample_root) = Ok ()"
    using made(2) by (simp add: genesis_ok_def sample_identity_def)
  then have "revocation_validate_shape (sr_list revocations) = Ok ()" by (simp add: verify_revocations_Ok revocation_wf_def)
  then have "\<not> revocation_contains revocations ?node" using rv by (simp add: revocation_contains_iff)
  then have st: "ls_identity st = sample_identity" "checked_add (ls_last_membership_serial st) 1 = Some 2"
    "length (ls_memberships st) < MAX_HIVE_MEMBERS" "bt_get (ls_memberships st) ?node = None"
    "\<not> revocation_contains (ls_revocations st) ?node" "ls_revocations st = revocations"
    using other founder
    by (simp_all add: defs genesis_state_def cert founding_certificate_def checked_add_def MAX_HIVE_MEMBERS_def)
  have at: "logged ?P (dk_uid d) st [g] (dk_cells d)" "collision_free ?P st" "dk_faults d = []" using l f by (simp_all add: defs)
  obtain st' d' where issue: "issue_membership ?P 5 ROLE_DEVICE 7 1000 2000 st d = (Ok m, st', d')"
    and after: "core st' = core (effect (MembershipEvent m) st)"
    using reference.issue_succeeds [of st sample_root 5 2 1000 2000 ROLE_DEVICE 7 m d "[g]"] st sign at by auto
  have "ls_revocations st' = revocations"
    using arg_cong [OF after, of ls_revocations] st(6) by (simp add: core_def)
  have req: "jr_device_verifying_key (create_join_request ?P sample_pending) = 5" "jr_nonce (create_join_request ?P sample_pending) = 7"
    by (simp_all add: create_join_request_def sample_pending_def Let_def device_verifying_key_def)
  obtain key where "verify_join_request ?P (create_join_request ?P sample_pending) = Ok key"
    using reference.create_join_request_wf by (auto simp: request_wf_def is_ok_iff)
  then have "verify_join_request ?P (create_join_request ?P sample_pending) = Ok 5"
    using iffD1 [OF verify_join_request_Ok, of ?P "create_join_request ?P sample_pending" key] req(1) by auto
  then have auth: "authorize_join_request ?P (create_join_request ?P sample_pending) ?node ROLE_DEVICE 1000 2000 st d = (Ok m, st', d')"
    using issue st(4) req unfolding authorize_join_request_def Let_def by (simp add: so_bind_lift)
  have m_ok: "verify_membership ?P m (root_verifying_key ?P sample_root) = Ok ()" "sm_certificate m = ?c"
    using reference.sign_membership_verifies [OF sign] by simp_all
  obtain a b where "encode_signed_membership ?P m = Ok a" "encode_signed_revocations ?P revocations = Ok b"
    using m_ok(1) rv_ok reference.encode_signed_membership_ok [of m] reference.encode_signed_revocations_ok [of revocations]
    by (auto simp: verify_membership_Ok membership_wf_def verify_revocations_Ok)
  then obtain b where b: "join_bundle_new ?P sample_root m revocations 1000 = Ok b" "jb_expires_at b = saturating_add 1000 MAX_BUNDLE_LIFETIME_SECONDS"
    "jb_membership b = m"
    using m_ok rv_ok rv by (auto simp: join_bundle_new_def bundle_payload_def Let_def)
  have "(1500 :: u64) \<le> saturating_add 1000 MAX_BUNDLE_LIFETIME_SECONDS"
    by (simp add: saturating_add_def MAX_BUNDLE_LIFETIME_SECONDS_def)
  then show ?thesis
    using that [OF auth] b m_ok(2) st(5,6) \<open>ls_revocations st' = revocations\<close> by simp
qed



end
