(* ===== verification/Network.thy ===== *)
theory Network
  imports Candidate
begin

text \<open>
  Local interfaces and the order of dialing (\<^verbatim>\<open>network.rs\<close>). The interface table and the answer of the
  kernel to "is there a route" are arguments.
\<close>

section \<open>The orders of addresses\<close>

instantiation SocketAddr :: linorder
begin

definition less_eq_SocketAddr :: "SocketAddr \<Rightarrow> SocketAddr \<Rightarrow> bool" where
  "less_eq_SocketAddr a b = (socket_key a \<le> socket_key b)"

definition less_SocketAddr :: "SocketAddr \<Rightarrow> SocketAddr \<Rightarrow> bool" where
  "less_SocketAddr a b = (socket_key a < socket_key b)"

instance
  by standard (auto simp: less_eq_SocketAddr_def less_SocketAddr_def intro: socket_key_inject)

end

fun ip_key :: "IpAddr \<Rightarrow> nat \<times> nat" where
  "ip_key (V4 ip) = (0, unat ip)"
| "ip_key (V6 ip) = (1, unat ip)"

lemma ip_key_inject: "ip_key a = ip_key b \<Longrightarrow> a = b"
  by (cases a; cases b) (simp_all add: word_unat_eq_iff)

instantiation IpAddr :: linorder
begin

definition less_eq_IpAddr :: "IpAddr \<Rightarrow> IpAddr \<Rightarrow> bool" where
  "less_eq_IpAddr a b = (ip_key a \<le> ip_key b)"

definition less_IpAddr :: "IpAddr \<Rightarrow> IpAddr \<Rightarrow> bool" where
  "less_IpAddr a b = (ip_key a < ip_key b)"

instance
  by standard (auto simp: less_eq_IpAddr_def less_IpAddr_def intro: ip_key_inject)

end

section \<open>Interfaces\<close>

definition MAX_DIAL_CANDIDATES_PER_ROUND :: nat where "MAX_DIAL_CANDIDATES_PER_ROUND = 4"

datatype InterfaceNetwork = InterfaceNetwork (in_address: IpAddr) (in_netmask: IpAddr)

fun network_contains :: "InterfaceNetwork \<Rightarrow> IpAddr \<Rightarrow> bool" where
  "network_contains (InterfaceNetwork (V4 loc) (V4 netmask)) (V4 peer) = (and loc netmask = and peer netmask)"
| "network_contains (InterfaceNetwork (V6 loc) (V6 netmask)) (V6 peer) = (and loc netmask = and peer netmask)"
| "network_contains _ _ = False"

datatype NetworkError = Enumeration

text \<open>One row of the interface table, with the addresses \<^verbatim>\<open>ip_from_storage\<close> reads from it.\<close>

record InterfaceAddress =
  ia_name :: string
  ia_up :: bool
  ia_loopback :: bool
  ia_address :: "IpAddr option"
  ia_netmask :: "IpAddr option"

fun same_family :: "IpAddr \<Rightarrow> IpAddr \<Rightarrow> bool" where
  "same_family (V4 _) (V4 _) = True"
| "same_family (V6 _) (V6 _) = True"
| "same_family _ _ = False"

definition VIRTUAL_PREFIXES :: "string list" where
  "VIRTUAL_PREFIXES =
     [''anpi'', ''awdl'', ''cni'', ''docker'', ''dummy'', ''flannel'', ''gif'', ''ifb'', ''ipsec'', ''kube'',
      ''llw'', ''nan'', ''p2p'', ''podman'', ''stf'', ''tailscale'', ''tap'', ''tun'', ''utun'', ''veth'',
      ''virbr'', ''wg'', ''zt'']"

definition starts_with :: "string \<Rightarrow> string \<Rightarrow> bool" where
  "starts_with s p = (take (length p) s = p)"

definition is_automatic_interface :: "string \<Rightarrow> bool" where
  "is_automatic_interface name = (\<not> list_ex (starts_with name) VIRTUAL_PREFIXES)"

definition usable_interface :: "bool \<Rightarrow> InterfaceAddress \<Rightarrow> (IpAddr \<times> IpAddr) option" where
  "usable_interface automatic i =
     (if \<not> ia_up i then None
      else if automatic \<and> (ia_loopback i \<or> \<not> is_automatic_interface (ia_name i)) then None
      else case ia_address i of
        None \<Rightarrow> None
      | Some address \<Rightarrow>
          (case ia_netmask i of
             None \<Rightarrow> None
           | Some netmask \<Rightarrow>
               if is_unspecified address \<or> is_multicast address \<or> \<not> same_family address netmask then None
               else Some (address, netmask)))"

definition enumerate_interfaces ::
  "bool \<Rightarrow> NetworkError + InterfaceAddress list \<Rightarrow> NetworkError + InterfaceNetwork list" where
  "enumerate_interfaces automatic table =
     rbind table (\<lambda>rows.
       let networks = sort (remdups (List.map_filter (usable_interface automatic) rows)) in
       Ok (map (\<lambda>(address, netmask). InterfaceNetwork address netmask) networks))"

definition interface_networks :: "NetworkError + InterfaceAddress list \<Rightarrow> NetworkError + InterfaceNetwork list" where
  "interface_networks = enumerate_interfaces False"

definition automatic_interface_networks ::
  "NetworkError + InterfaceAddress list \<Rightarrow> NetworkError + InterfaceNetwork list" where
  "automatic_interface_networks = enumerate_interfaces True"

definition is_on_link :: "NetworkError + InterfaceAddress list \<Rightarrow> IpAddr \<Rightarrow> bool" where
  "is_on_link table remote =
     (case interface_networks table of
        Inr networks \<Rightarrow> list_ex (\<lambda>n. network_contains n remote) networks
      | Inl _ \<Rightarrow> False)"

section \<open>Routes and the order of dialing\<close>

definition ip_is_loopback :: "IpAddr \<Rightarrow> bool" where
  "ip_is_loopback ip = (case ip of V4 a \<Rightarrow> v4_is_loopback a | V6 a \<Rightarrow> v6_is_loopback a)"

definition v6_link_local :: "IpAddr \<Rightarrow> bool" where
  "v6_link_local ip = (case ip of V4 _ \<Rightarrow> False | V6 a \<Rightarrow> v6_is_unicast_link_local a)"

fun carries_family :: "IpAddr \<Rightarrow> IpAddr \<Rightarrow> bool" where
  "carries_family (V4 loc) (V4 _) =
     (\<not> is_unspecified (V4 loc) \<and> \<not> v4_is_loopback loc \<and> \<not> v4_is_link_local loc)"
| "carries_family (V6 loc) (V6 _) =
     (\<not> is_unspecified (V6 loc) \<and> \<not> v6_is_loopback loc \<and> \<not> v6_is_unicast_link_local loc)"
| "carries_family _ _ = False"

definition candidate_has_route :: "(SocketAddr \<Rightarrow> bool) \<Rightarrow> EndpointCandidate \<Rightarrow> InterfaceNetwork list \<Rightarrow> bool" where
  "candidate_has_route route c networks =
     (let remote = socket_ip (ec_address c) in
      if ip_is_loopback remote \<or> v6_link_local remote
      then list_ex (\<lambda>n. network_contains n remote) networks \<and> route (ec_address c)
      else list_ex (\<lambda>n. carries_family (in_address n) remote) networks \<and> route (ec_address c))"

definition address_is_route_compatible :: "(SocketAddr \<Rightarrow> bool) \<Rightarrow> SocketAddr \<Rightarrow> InterfaceNetwork list \<Rightarrow> bool" where
  "address_is_route_compatible route address networks =
     (case (case candidate_new Local QuicV1 address of
              Inr c \<Rightarrow> Ok c
            | Inl _ \<Rightarrow> candidate_new Reflexive QuicV1 address) of
        Inr c \<Rightarrow> candidate_has_route route c networks
      | Inl _ \<Rightarrow> False)"

fun position :: "('a \<Rightarrow> bool) \<Rightarrow> 'a list \<Rightarrow> nat option" where
  "position p [] = None"
| "position p (x # xs) = (if p x then Some 0 else map_option Suc (position p xs))"

definition preferred_local :: "EndpointCandidate list \<Rightarrow> InterfaceNetwork list \<Rightarrow> nat option" where
  "preferred_local candidates networks =
     position (\<lambda>c. ec_kind c = Local \<and> list_ex (\<lambda>n. network_contains n (socket_ip (ec_address c))) networks) candidates"

fun kind_rank :: "CandidateKind \<Rightarrow> nat" where
  "kind_rank OwnedRelay = 1"
| "kind_rank Mapped = 2"
| "kind_rank Reflexive = 3"
| "kind_rank Direct = 4"
| "kind_rank Local = 5"

definition dial_key ::
  "(SocketAddr \<Rightarrow> bool) \<Rightarrow> EndpointCandidate list \<Rightarrow> InterfaceNetwork list \<Rightarrow> nat \<Rightarrow> bool \<times> nat \<times> nat" where
  "dial_key route candidates networks i =
     (\<not> candidate_has_route route (candidates ! i) networks,
      if Some i = preferred_local candidates networks then 0 else kind_rank (ec_kind (candidates ! i)),
      i)"

text \<open>
  The keys are distinct, so the order in which \<^verbatim>\<open>sort_unstable_by_key\<close> leaves equal keys does not matter.
  Every index of the loop is in range, so the defaults for a missing candidate are never taken.
\<close>

definition candidate_dial_order ::
  "(SocketAddr \<Rightarrow> bool) \<Rightarrow> EndpointCandidate list \<Rightarrow> InterfaceNetwork list \<Rightarrow> nat list" where
  "candidate_dial_order route candidates networks =
     sort_key (dial_key route candidates networks) [0..<length candidates]"

section \<open>Lemmas\<close>

lemma position_Some: "position p xs = Some i \<Longrightarrow> i < length xs \<and> p (xs ! i) \<and> (\<forall>j < i. \<not> p (xs ! j))"
proof (induction xs arbitrary: i)
  case (Cons x xs)
  then show ?case by (cases i) (auto simp: less_Suc_eq_0_disj split: if_splits)
qed simp

lemma position_None: "position p xs = None \<longleftrightarrow> (\<forall>x \<in> set xs. \<not> p x)"
  by (induction xs) auto

lemma inj_dial_key: "inj_on (dial_key route candidates networks) A"
  by (rule inj_onI) (simp add: dial_key_def)

lemma sorted_dial_order: "sorted (map (dial_key route cs ns) (candidate_dial_order route cs ns))"
  by (simp add: candidate_dial_order_def)

lemma set_dial_order [simp]: "set (candidate_dial_order route cs ns) = {..<length cs}"
  and distinct_dial_order: "distinct (candidate_dial_order route cs ns)"
  and length_dial_order [simp]: "length (candidate_dial_order route cs ns) = length cs"
  by (auto simp: candidate_dial_order_def)

lemma dial_order_before:
  assumes "i < j" and "j < length cs"
  shows "dial_key route cs ns (candidate_dial_order route cs ns ! i) < dial_key route cs ns (candidate_dial_order route cs ns ! j)"
proof -
  let ?xs = "candidate_dial_order route cs ns"
  have "dial_key route cs ns (?xs ! i) \<le> dial_key route cs ns (?xs ! j)"
    using sorted_nth_mono [OF sorted_dial_order, of i j route cs ns] assms by simp
  moreover have "?xs ! i \<noteq> ?xs ! j" using assms distinct_dial_order [of route cs ns] by (simp add: nth_eq_iff_index_eq)
  then have "dial_key route cs ns (?xs ! i) \<noteq> dial_key route cs ns (?xs ! j)" by (simp add: dial_key_def)
  ultimately show ?thesis by simp
qed

end
