(* ===== verification/Contact.thy ===== *)
theory Contact
  imports Endpoint_Signing Revocation
begin

text \<open>
  Member contacts (\<^verbatim>\<open>contact.rs\<close>): a root-signed membership with a device-signed endpoint record, their
  bounded canonical encoding, and their authorization at the current time or at the time of issue.
\<close>

definition MAX_CONTACT_BYTES :: nat where
  "MAX_CONTACT_BYTES = MAX_SIGNED_MEMBERSHIP_BYTES + MAX_SIGNED_ENDPOINT_RECORD_BYTES + 128"
definition CONTACT_VERSION :: u16 where "CONTACT_VERSION = 1"
definition CONTACT_FIELDS :: u64 where "CONTACT_FIELDS = 3"

record PeerContact =
  pc_membership :: SignedMembership
  pc_endpoint :: SignedEndpointRecord

datatype ContactError = Oversized | InvalidShape | Encode | Decode | Membership | Record | NonCanonical

definition verify_contact :: "prims \<Rightarrow> PeerContact \<Rightarrow> bytes32 \<Rightarrow> u64 \<Rightarrow> ContactError + unit" where
  "verify_contact P c root_key now =
     map_err (\<lambda>_. ContactError.Record) (verify_authorized P (pc_endpoint c) (pc_membership c) root_key now)"

definition verify_historical :: "prims \<Rightarrow> PeerContact \<Rightarrow> bytes32 \<Rightarrow> ContactError + unit" where
  "verify_historical P c root_key = verify_contact P c root_key (er_issued_at (se_record (pc_endpoint c)))"

definition encode_contact :: "prims \<Rightarrow> PeerContact \<Rightarrow> ContactError + bytes" where
  "encode_contact P c =
     rbind (map_err (\<lambda>_. ContactError.Membership) (encode_signed_membership P (pc_membership c))) (\<lambda>membership.
     rbind (map_err (\<lambda>_. ContactError.Record) (encode_signed_endpoint_record P (pc_endpoint c))) (\<lambda>endpoint.
       let output =
         enc_array P CONTACT_FIELDS @
         enc_u16 P CONTACT_VERSION @
         enc_bytes P membership @
         enc_bytes P endpoint in
       if length output > MAX_CONTACT_BYTES then Err ContactError.Oversized
       else Ok output))"

definition decode_contact :: "prims \<Rightarrow> bytes \<Rightarrow> ContactError + PeerContact" where
  "decode_contact P input =
     (if length input > MAX_CONTACT_BYTES then Err ContactError.Oversized
      else rbind (ok_or ContactError.Decode (dec_array P input)) (\<lambda>(n, d).
        if n \<noteq> Some CONTACT_FIELDS then Err ContactError.InvalidShape
        else rbind (ok_or ContactError.Decode (dec_u16 P d)) (\<lambda>(version, d).
        if version \<noteq> CONTACT_VERSION then Err ContactError.InvalidShape
        else rbind (ok_or ContactError.Decode (dec_bytes P d)) (\<lambda>(membership_bytes, d).
        if length membership_bytes > MAX_SIGNED_MEMBERSHIP_BYTES then Err ContactError.Oversized
        else rbind (ok_or ContactError.Decode (dec_bytes P d)) (\<lambda>(endpoint_bytes, d).
        if length endpoint_bytes > MAX_SIGNED_ENDPOINT_RECORD_BYTES then Err ContactError.Oversized
        else if d \<noteq> [] then Err ContactError.NonCanonical
        else
          rbind (map_err (\<lambda>_. ContactError.Membership) (decode_signed_membership P membership_bytes)) (\<lambda>membership.
          rbind (map_err (\<lambda>_. ContactError.Record) (decode_signed_endpoint_record P endpoint_bytes)) (\<lambda>endpoint.
            let contact = \<lparr>pc_membership = membership, pc_endpoint = endpoint\<rparr> in
            rbind (encode_contact P contact) (\<lambda>again.
              if again \<noteq> input then Err ContactError.NonCanonical else Ok contact))))))))"

section \<open>Lemmas\<close>

definition contact_wf :: "prims \<Rightarrow> PeerContact \<Rightarrow> bool" where
  "contact_wf P c \<longleftrightarrow> membership_wf P (pc_membership c) \<and> wire_signed (pc_endpoint c)"

lemma contact_eta [simp]: "\<lparr>pc_membership = pc_membership c, pc_endpoint = pc_endpoint c\<rparr> = c"
  by simp

lemma verify_contact_Ok:
  "verify_contact P c root now = Ok () \<longleftrightarrow>
     verify_authorized P (pc_endpoint c) (pc_membership c) root now = Ok ()"
  by (simp add: verify_contact_def result_simps)

lemma decode_contact_canonical:
  "decode_contact P bs = Ok c \<Longrightarrow> encode_contact P c = Ok bs \<and> contact_wf P c"
  by (auto simp: decode_contact_def contact_wf_def result_simps Let_def
      dest: decode_signed_membership_canonical decode_signed_endpoint_canonical split: prod.splits if_splits)

context minicbor
begin

lemma encode_signed_endpoint_ok:
  assumes "wire_signed s"
  shows "\<exists>bs. encode_signed_endpoint_record P s = Ok bs \<and> length bs \<le> 740"
proof -
  obtain payload where payload: "encode_endpoint_record P (se_record s) = Ok payload" "length payload \<le> 660"
    using encode_endpoint_record_ok assms by (auto simp: wire_signed_def)
  then have "length (enc_bytes P payload) \<le> 663" using length_enc_bytes_u16 [of payload] by simp
  then show ?thesis
    using length_enc_array(1) [of 3] length_enc_u16 [of WIRE_ENVELOPE_VERSION]
      length_enc_bytes_u8 [of "se_signature s"] assms payload
    by (simp add: encode_signed_endpoint_record_def wire_signed_def Let_def MAX_SIGNED_ENDPOINT_RECORD_BYTES_def)
qed

text \<open>Every contact fits the budget: the encoder never reports an oversized contact.\<close>

lemma encode_contact_ok:
  assumes "contact_wf P c"
  shows "\<exists>bs. encode_contact P c = Ok bs \<and> length bs \<le> 1000"
proof -
  obtain m e where m: "encode_signed_membership P (pc_membership c) = Ok m" "length m \<le> 250"
    and e: "encode_signed_endpoint_record P (pc_endpoint c) = Ok e" "length e \<le> 740"
    using encode_signed_membership_ok encode_signed_endpoint_ok assms by (fastforce simp: contact_wf_def membership_wf_def)
  then show ?thesis
    using length_enc_array(1) [of CONTACT_FIELDS] length_enc_u16 [of CONTACT_VERSION]
      length_enc_bytes_u8 [of m] length_enc_bytes_u16 [of e]
    by (simp add: encode_contact_def Let_def MAX_CONTACT_BYTES_def MAX_SIGNED_MEMBERSHIP_BYTES_def
        MAX_SIGNED_ENDPOINT_RECORD_BYTES_def CONTACT_FIELDS_def)
qed

lemma decode_encode_contact:
  assumes "contact_wf P c" and "encode_contact P c = Ok bs"
  shows "decode_contact P bs = Ok c"
proof -
  obtain m where m: "encode_signed_membership P (pc_membership c) = Ok m" "length m \<le> 250"
    using encode_signed_membership_ok assms(1) by (auto simp: contact_wf_def membership_wf_def)
  obtain e where e: "encode_signed_endpoint_record P (pc_endpoint c) = Ok e" "length e \<le> 740"
    using encode_signed_endpoint_ok assms(1) by (auto simp: contact_wf_def)
  have bs: "bs = enc_array P CONTACT_FIELDS @ enc_u16 P CONTACT_VERSION @ enc_bytes P m @ enc_bytes P e"
    "length bs \<le> MAX_CONTACT_BYTES"
    using assms(2) m e by (auto simp: encode_contact_def Let_def split: if_splits)
  have "decode_signed_membership P m = Ok (pc_membership c)" "decode_signed_endpoint_record P e = Ok (pc_endpoint c)"
    using assms(1) m(1) e(1) by (auto simp: contact_wf_def intro: decode_encode_signed_membership decode_encode_signed_endpoint)
  then show ?thesis
    using assms(2) bs m(2) e(2)
    by (simp add: decode_contact_def cbor_simps Let_def MAX_SIGNED_MEMBERSHIP_BYTES_def
        MAX_SIGNED_ENDPOINT_RECORD_BYTES_def)
qed

end

sublocale minicbor \<subseteq> contact_codec: canonical_codec
  "encode_contact P" "decode_contact P" "contact_wf P"
  by unfold_locales (blast dest: decode_encode_contact decode_contact_canonical)+

end
