(* ===== verification/Reachability.thy ===== *)
theory Reachability
  imports Contact
begin

text \<open>
  Reachability claims (\<^verbatim>\<open>reachability.rs\<close>): a short-lived statement of one member about the address of
  another or of its own gateway, its canonical encoding, its signature and its verification.
\<close>

definition MAX_REACHABILITY_CLAIM_BYTES :: nat where "MAX_REACHABILITY_CLAIM_BYTES = 2 * 1024"
definition MAX_REACHABILITY_CLAIMS :: nat where "MAX_REACHABILITY_CLAIMS = 16"
definition MAX_CLAIM_LIFETIME_SECONDS :: u64 where "MAX_CLAIM_LIFETIME_SECONDS = 10 * 60"
definition CLAIM_FUTURE_SKEW_SECONDS :: u64 where "CLAIM_FUTURE_SKEW_SECONDS = 5 * 60"
definition CLAIM_VERSION :: u16 where "CLAIM_VERSION = 1"
definition CLAIM_FIELDS :: u64 where "CLAIM_FIELDS = 12"
definition PAYLOAD_FIELDS :: u64 where "PAYLOAD_FIELDS = 11"
definition CLAIM_DOMAIN :: bytes where "CLAIM_DOMAIN = ascii ''supgang/reachability-claim/v1'' @ [0]"

datatype ReachabilitySource = Gateway | PeerObserved

datatype ReachabilityError =
  InvalidShape | InvalidAddress | AuthorityMismatch | Membership | Expired | Signature | Encoding | Oversized

fun source_code :: "ReachabilitySource \<Rightarrow> u8" where
  "source_code Gateway = 1"
| "source_code PeerObserved = 2"

definition source_try_from :: "u8 \<Rightarrow> ReachabilityError + ReachabilitySource" where
  "source_try_from v =
     (if v = 1 then Ok Gateway else if v = 2 then Ok PeerObserved else Err ReachabilityError.InvalidShape)"

record ReachabilityClaim =
  rc_hive_id :: HiveId
  rc_subject :: NodeId
  rc_reporter :: NodeId
  rc_reporter_membership :: SignedMembership
  rc_address :: SocketAddr
  rc_source :: ReachabilitySource
  rc_issued_at :: u64
  rc_expires_at :: u64
  rc_signature :: bytes

definition claim_candidate :: "ReachabilityClaim \<Rightarrow> ReachabilityError + EndpointCandidate" where
  "claim_candidate c =
     map_err (\<lambda>_. InvalidAddress)
       (case rc_source c of
          Gateway \<Rightarrow> candidate_new Mapped QuicV1 (rc_address c)
        | PeerObserved \<Rightarrow>
            (case candidate_new Reflexive QuicV1 (rc_address c) of
               Inr x \<Rightarrow> Ok x
             | Inl _ \<Rightarrow> candidate_new Local QuicV1 (rc_address c)))"

definition claim_validate_shape :: "ReachabilityClaim \<Rightarrow> ReachabilityError + unit" where
  "claim_validate_shape c =
     (if rc_expires_at c \<le> rc_issued_at c
        \<or> saturating_sub (rc_expires_at c) (rc_issued_at c) > MAX_CLAIM_LIFETIME_SECONDS
        \<or> mc_node_id (sm_certificate (rc_reporter_membership c)) \<noteq> rc_reporter c
      then Err ReachabilityError.InvalidShape
      else if rc_source c = Gateway \<and> rc_reporter c \<noteq> rc_subject c then Err ReachabilityError.AuthorityMismatch
      else if rc_source c = PeerObserved \<and> rc_reporter c = rc_subject c then Err ReachabilityError.AuthorityMismatch
      else rbind (claim_candidate c) (\<lambda>_. Ok ()))"

fun encode_address :: "IpAddr \<Rightarrow> u8 \<times> bytes" where
  "encode_address (V4 ip) = (4, be_bytes ip)"
| "encode_address (V6 ip) = (6, be_bytes ip)"

definition decode_address :: "u8 \<Rightarrow> bytes \<Rightarrow> u16 \<Rightarrow> ReachabilityError + SocketAddr" where
  "decode_address family bs port =
     (if family = 4
      then rbind (ok_or ReachabilityError.InvalidShape (try_array bs)) (\<lambda>ip. Ok (socket_new (V4 ip) port))
      else if family = 6
      then rbind (ok_or ReachabilityError.InvalidShape (try_array bs)) (\<lambda>ip. Ok (socket_new (V6 ip) port))
      else Err ReachabilityError.InvalidShape)"

definition encode_payload_with_fields :: "prims \<Rightarrow> ReachabilityClaim \<Rightarrow> u64 \<Rightarrow> ReachabilityError + bytes" where
  "encode_payload_with_fields P c n =
     rbind (map_err (\<lambda>_. ReachabilityError.Membership) (encode_signed_membership P (rc_reporter_membership c))) (\<lambda>membership.
       case encode_address (socket_ip (rc_address c)) of (family, address) \<Rightarrow>
         Ok (enc_array P n @
             enc_u16 P CLAIM_VERSION @
             enc_u8 P (source_code (rc_source c)) @
             enc_bytes P (be_bytes (hive_bytes (rc_hive_id c))) @
             enc_bytes P (be_bytes (node_bytes (rc_subject c))) @
             enc_bytes P (be_bytes (node_bytes (rc_reporter c))) @
             enc_bytes P membership @
             enc_u8 P family @
             enc_bytes P address @
             enc_u16 P (socket_port (rc_address c)) @
             enc_u64 P (rc_issued_at c) @
             enc_u64 P (rc_expires_at c)))"

definition encode_payload :: "prims \<Rightarrow> ReachabilityClaim \<Rightarrow> ReachabilityError + bytes" where
  "encode_payload P c = encode_payload_with_fields P c PAYLOAD_FIELDS"

definition encode_claim :: "prims \<Rightarrow> ReachabilityClaim \<Rightarrow> ReachabilityError + bytes" where
  "encode_claim P c =
     rbind (encode_payload_with_fields P c CLAIM_FIELDS) (\<lambda>payload.
       let output = payload @ enc_bytes P (rc_signature c) in
       if length output > MAX_REACHABILITY_CLAIM_BYTES then Err ReachabilityError.Oversized else Ok output)"

definition claim_read_fixed :: "prims \<Rightarrow> bytes \<Rightarrow> ReachabilityError + (bytes32 \<times> bytes)" where
  "claim_read_fixed P d =
     rbind (ok_or ReachabilityError.InvalidShape (dec_bytes P d)) (\<lambda>(bs, d).
     rbind (ok_or ReachabilityError.InvalidShape (try_array bs)) (\<lambda>w. Ok (w, d)))"

definition decode_claim :: "prims \<Rightarrow> bytes \<Rightarrow> ReachabilityError + ReachabilityClaim" where
  "decode_claim P input =
     (if input = [] \<or> length input > MAX_REACHABILITY_CLAIM_BYTES then Err ReachabilityError.Oversized
      else rbind (ok_or ReachabilityError.InvalidShape (dec_array P input)) (\<lambda>(n, d).
        if n \<noteq> Some CLAIM_FIELDS then Err ReachabilityError.InvalidShape
        else rbind (ok_or ReachabilityError.InvalidShape (dec_u16 P d)) (\<lambda>(version, d).
        if version \<noteq> CLAIM_VERSION then Err ReachabilityError.InvalidShape
        else rbind (ok_or ReachabilityError.InvalidShape (dec_u8 P d)) (\<lambda>(code, d).
          rbind (source_try_from code) (\<lambda>source.
          rbind (claim_read_fixed P d) (\<lambda>(hive_id, d).
          rbind (claim_read_fixed P d) (\<lambda>(subject, d).
          rbind (claim_read_fixed P d) (\<lambda>(reporter, d).
          rbind (ok_or ReachabilityError.InvalidShape (dec_bytes P d)) (\<lambda>(membership_bytes, d).
          rbind (map_err (\<lambda>_. ReachabilityError.Membership) (decode_signed_membership P membership_bytes)) (\<lambda>membership.
          rbind (ok_or ReachabilityError.InvalidShape (dec_u8 P d)) (\<lambda>(family, d).
          rbind (ok_or ReachabilityError.InvalidShape (dec_bytes P d)) (\<lambda>(address_bytes, d).
          rbind (ok_or ReachabilityError.InvalidShape (dec_u16 P d)) (\<lambda>(port, d).
          rbind (decode_address family address_bytes port) (\<lambda>address.
          rbind (ok_or ReachabilityError.InvalidShape (dec_u64 P d)) (\<lambda>(issued_at, d).
          rbind (ok_or ReachabilityError.InvalidShape (dec_u64 P d)) (\<lambda>(expires_at, d).
          rbind (ok_or ReachabilityError.InvalidShape (dec_bytes P d)) (\<lambda>(signature, d).
            if d \<noteq> [] then Err ReachabilityError.InvalidShape
            else let claim =
              \<lparr>rc_hive_id = HiveId hive_id, rc_subject = NodeId subject, rc_reporter = NodeId reporter,
               rc_reporter_membership = membership, rc_address = address, rc_source = source,
               rc_issued_at = issued_at, rc_expires_at = expires_at, rc_signature = signature\<rparr> in
              rbind (claim_validate_shape claim) (\<lambda>_.
              rbind (encode_claim P claim) (\<lambda>again.
                if again \<noteq> input then Err ReachabilityError.InvalidShape else Ok claim)))))))))))))))))))"

definition sign_claim ::
  "prims \<Rightarrow> SignedMembership \<Rightarrow> DeviceIdentity \<Rightarrow> NodeId \<Rightarrow> SocketAddr \<Rightarrow> ReachabilitySource \<Rightarrow> u64 \<Rightarrow>
     ReachabilityError + ReachabilityClaim" where
  "sign_claim P reporter_membership reporter subject address source issued_at =
     (let claim =
        \<lparr>rc_hive_id = mc_hive_id (sm_certificate reporter_membership), rc_subject = subject,
         rc_reporter = device_node_id P reporter, rc_reporter_membership = reporter_membership,
         rc_address = address, rc_source = source, rc_issued_at = issued_at,
         rc_expires_at = saturating_add issued_at MAX_CLAIM_LIFETIME_SECONDS, rc_signature = []\<rparr> in
      rbind (claim_validate_shape claim) (\<lambda>_.
      rbind (encode_payload P claim) (\<lambda>payload.
        Ok (claim\<lparr>rc_signature := be_bytes (device_sign_domain P reporter CLAIM_DOMAIN payload)\<rparr>))))"

definition verify_claim :: "prims \<Rightarrow> ReachabilityClaim \<Rightarrow> bytes32 \<Rightarrow> u64 \<Rightarrow> ReachabilityError + unit" where
  "verify_claim P c root_key now =
     rbind (claim_validate_shape c) (\<lambda>_.
     rbind (map_err (\<lambda>_. ReachabilityError.Membership) (verify_membership P (rc_reporter_membership c) root_key)) (\<lambda>_.
     rbind (map_err (\<lambda>_. ReachabilityError.Membership)
         (membership_validate_time (sm_certificate (rc_reporter_membership c)) now)) (\<lambda>_.
       if rc_hive_id c \<noteq> hive_from_root_verifying_key P root_key
         \<or> mc_hive_id (sm_certificate (rc_reporter_membership c)) \<noteq> rc_hive_id c
         \<or> mc_node_id (sm_certificate (rc_reporter_membership c)) \<noteq> rc_reporter c
       then Err ReachabilityError.AuthorityMismatch
       else if rc_expires_at c < now \<or> rc_issued_at c > saturating_add now CLAIM_FUTURE_SKEW_SECONDS
       then Err ReachabilityError.Expired
       else let key = mc_device_verifying_key (sm_certificate (rc_reporter_membership c)) in
         if \<not> ed_valid_key P key then Err ReachabilityError.Membership
         else rbind (ok_or ReachabilityError.Signature (try_array (rc_signature c))) (\<lambda>signature.
         rbind (encode_payload P c) (\<lambda>payload.
           if verify_domain P key CLAIM_DOMAIN payload signature then Ok ()
           else Err ReachabilityError.Signature)))))"

section \<open>Lemmas\<close>

definition claim_wf :: "prims \<Rightarrow> ReachabilityClaim \<Rightarrow> bool" where
  "claim_wf P c \<longleftrightarrow>
     claim_validate_shape c = Ok () \<and> membership_wf P (rc_reporter_membership c) \<and> wire_address (rc_address c)"

lemma claim_eta [simp]:
  "\<lparr>rc_hive_id = rc_hive_id c, rc_subject = rc_subject c, rc_reporter = rc_reporter c,
    rc_reporter_membership = rc_reporter_membership c, rc_address = rc_address c, rc_source = rc_source c,
    rc_issued_at = rc_issued_at c, rc_expires_at = rc_expires_at c, rc_signature = rc_signature c\<rparr> = c"
  by simp

lemma source_try_from_code [simp]: "source_try_from (source_code s) = Ok s"
  by (cases s) (simp_all add: source_try_from_def)

lemma decode_encode_address:
  "wire_address a \<Longrightarrow> encode_address (socket_ip a) = (family, bs) \<Longrightarrow> decode_address family bs (socket_port a) = Ok a"
  by (cases a) (auto simp: decode_address_def)

lemma decode_address_wire: "decode_address family bs port = Ok a \<Longrightarrow> wire_address a"
  by (auto simp: decode_address_def result_simps split: if_splits)

lemma length_encode_address: "encode_address ip = (family, bs) \<Longrightarrow> length bs \<le> 16"
  by (cases ip) auto

lemma decode_claim_canonical: "decode_claim P bs = Ok c \<Longrightarrow> encode_claim P c = Ok bs \<and> claim_wf P c"
  by (auto simp: decode_claim_def claim_wf_def result_simps Let_def
      dest: decode_signed_membership_canonical decode_address_wire split: prod.splits if_splits)

lemma verify_claim_Ok:
  "verify_claim P c root_key now = Ok () \<longleftrightarrow>
     claim_validate_shape c = Ok () \<and> verify_membership P (rc_reporter_membership c) root_key = Ok () \<and>
     membership_validate_time (sm_certificate (rc_reporter_membership c)) now = Ok () \<and>
     rc_hive_id c = hive_from_root_verifying_key P root_key \<and>
     mc_node_id (sm_certificate (rc_reporter_membership c)) = rc_reporter c \<and>
     now \<le> rc_expires_at c \<and> rc_issued_at c \<le> saturating_add now CLAIM_FUTURE_SKEW_SECONDS \<and>
     ed_valid_key P (mc_device_verifying_key (sm_certificate (rc_reporter_membership c))) \<and>
     length (rc_signature c) = 64 \<and>
     (\<exists>payload. encode_payload P c = Ok payload \<and>
        verify_domain P (mc_device_verifying_key (sm_certificate (rc_reporter_membership c))) CLAIM_DOMAIN payload
          (be_word (rc_signature c)))"
  by (auto simp: verify_claim_def result_simps Let_def try_array_def verify_membership_Ok not_less split: if_splits)

context minicbor
begin

lemma claim_read_fixed_enc [simp]: "claim_read_fixed P (enc_bytes P (be_bytes (w :: bytes32)) @ r) = Ok (w, r)"
  by (simp add: claim_read_fixed_def)

lemma decode_encode_claim:
  assumes "claim_wf P c" and "encode_claim P c = Ok bs"
  shows "decode_claim P bs = Ok c"
proof -
  obtain family address where a: "encode_address (socket_ip (rc_address c)) = (family, address)"
    by (cases "encode_address (socket_ip (rc_address c))")
  obtain m where m: "encode_signed_membership P (rc_reporter_membership c) = Ok m" "length m \<le> 250"
    using encode_signed_membership_ok assms(1) by (auto simp: claim_wf_def membership_wf_def)
  obtain payload where payload: "encode_payload_with_fields P c CLAIM_FIELDS = Ok payload"
    "bs = payload @ enc_bytes P (rc_signature c)" "length bs \<le> MAX_REACHABILITY_CLAIM_BYTES"
    using assms(2) by (auto simp: encode_claim_def result_simps Let_def split: if_splits)
  have "length (rc_signature c) < 2 ^ 64"
    using length_enc_bytes_ge [of "rc_signature c"] payload(2,3) by (simp add: MAX_REACHABILITY_CLAIM_BYTES_def)
  moreover have "bs \<noteq> []"
    using payload(1,2) m a by (auto simp: encode_payload_with_fields_def enc_array_nonempty)
  moreover have "decode_signed_membership P m = Ok (rc_reporter_membership c)"
    using assms(1) m(1) by (auto simp: claim_wf_def intro: decode_encode_signed_membership)
  moreover have "decode_address family address (socket_port (rc_address c)) = Ok (rc_address c)"
    using assms(1) a by (simp add: claim_wf_def decode_encode_address)
  moreover have "claim_validate_shape c = Ok ()" using assms(1) by (simp add: claim_wf_def)
  moreover have "length address < 2 ^ 64" using length_encode_address [OF a] by simp
  ultimately show ?thesis
    using assms(2) payload m a
    by (auto simp: decode_claim_def encode_payload_with_fields_def cbor_simps Let_def)
qed

end

sublocale minicbor \<subseteq> claim_codec: canonical_codec
  "encode_claim P" "decode_claim P" "claim_wf P"
  by unfold_locales (blast dest: decode_encode_claim decode_claim_canonical)+

context primitives
begin

text \<open>A claim a member signs is one every peer accepts for as long as it lasts.\<close>

lemma sign_claim_verifies:
  assumes "sign_claim P m reporter subject address source t = Ok c"
    and "verify_membership P m root_key = Ok ()" and "mc_device_verifying_key (sm_certificate m) = device_verifying_key P reporter"
    and "membership_validate_time (sm_certificate m) now = Ok ()"
    and "t \<le> saturating_add now CLAIM_FUTURE_SKEW_SECONDS" and "now \<le> rc_expires_at c"
  shows "verify_claim P c root_key now = Ok ()"
proof -
  have "claim_candidate (x\<lparr>rc_signature := s\<rparr>) = claim_candidate x" for x s
    by (simp add: claim_candidate_def split: ReachabilitySource.split sum.split)
  then have [simp]: "encode_payload P (x\<lparr>rc_signature := s\<rparr>) = encode_payload P x"
    "claim_validate_shape (x\<lparr>rc_signature := s\<rparr>) = claim_validate_shape x" for x s
    by (simp_all add: encode_payload_def encode_payload_with_fields_def claim_validate_shape_def)
  obtain x payload where x: "claim_validate_shape x = Ok ()" "encode_payload P x = Ok payload"
    and c: "c = x\<lparr>rc_signature := be_bytes (device_sign_domain P reporter CLAIM_DOMAIN payload)\<rparr>"
    and f: "rc_hive_id x = mc_hive_id (sm_certificate m)" "rc_reporter x = device_node_id P reporter"
      "rc_reporter_membership x = m" "rc_issued_at x = t"
    using assms(1) by (auto simp: sign_claim_def result_simps Let_def)
  have "mc_node_id (sm_certificate m) = rc_reporter x"
    using x(1) f(3) by (auto simp: claim_validate_shape_def split: if_splits)
  then show ?thesis
    using assms(2-6) x f c
    by (simp add: verify_claim_Ok verify_membership_Ok device_signature_verifies device_key_valid)
qed

end

end
