(* ===== verification/Route_History.thy ===== *)
theory Route_History
  imports Network State_Event Stateful Reachability
begin

text \<open>
  Routes that worked (\<^verbatim>\<open>peer_directory/route_history.rs\<close>): per peer a bounded list of locally signed
  attestations, newest first, kept in a journal of its own. \<^verbatim>\<open>serde_json\<close> and \<^verbatim>\<open>hex\<close> are arguments.
\<close>

datatype PeerDirectoryError =
    Storage StorageError
  | Journal JournalError
  | ReadOnlySnapshot
  | Contact ContactError
  | Revocation RevocationError
  | RevocationRollback
  | RevocationEquivocation
  | LocalNode
  | Reachability ReachabilityError
  | DirectoryFull
  | Equivocation
  | GenerationTransitionRequired
  | Revoked
  | InvalidHistoryLimit
  | InvalidRouteHistory

definition ROUTE_DOMAIN :: bytes where "ROUTE_DOMAIN = ascii ''supgang/local-successful-route/v1'' @ [0]"
definition ROUTE_MAX_FRAME :: nat where "ROUTE_MAX_FRAME = 768"
definition COMPACT_AFTER :: u64 where "COMPACT_AFTER = 1024 * 1024"

record Route =
  rt_peer :: NodeId
  rt_pin :: TransportKeyId
  rt_address :: SocketAddr
  rt_local_ip :: "IpAddr option"
  rt_observed_at :: u64

record Attestation =
  at_route :: Route
  at_recorder_key :: bytes32
  at_signature :: string

record RouteHistory =
  rh_records :: "(NodeId, Attestation list) btree_map"
  rh_journal :: "Journal option"
  rh_limit :: nat
  rh_compact_at :: u64

section \<open>What the program calls of other libraries\<close>

record text_codecs =
  route_to_json :: "Route \<Rightarrow> bytes option"
  attestation_to_json :: "Attestation \<Rightarrow> bytes option"
  attestation_from_json :: "bytes \<Rightarrow> Attestation option"
  hex_encode :: "bytes \<Rightarrow> string"
  hex_decode :: "string \<Rightarrow> bytes option"

text \<open>
  JSON text of a value reads back as the value. The text of a socket address leaves out the flow label,
  so the law speaks of addresses without one.
\<close>

fun plain_address :: "SocketAddr \<Rightarrow> bool" where
  "plain_address (SocketV4 _ _) = True"
| "plain_address (SocketV6 _ _ flow _) = (flow = 0)"

locale text_formats =
  fixes J :: text_codecs
  assumes from_to_json:
      "plain_address (rt_address (at_route a)) \<Longrightarrow> attestation_to_json J a = Some bs \<Longrightarrow> attestation_from_json J bs = Some a"
    and json_nonempty: "attestation_to_json J a = Some bs \<Longrightarrow> bs \<noteq> []"
    and hex_decode_encode: "hex_decode J (hex_encode J bs) = Some bs"

section \<open>Attestations\<close>

definition is_private :: "SocketAddr \<Rightarrow> bool" where
  "is_private address = is_ok (candidate_new Local QuicV1 address)"

definition route_validate :: "Route \<Rightarrow> PeerDirectoryError + unit" where
  "route_validate r =
     (let valid = is_ok (case candidate_new Local QuicV1 (rt_address r) of
              Inr c \<Rightarrow> Ok c
            | Inl _ \<Rightarrow> candidate_new Reflexive QuicV1 (rt_address r)) in
      if \<not> valid \<or> rt_address r \<noteq> canonical_socket_address (rt_address r) \<or> rt_observed_at r = 0
        \<or> (is_private (rt_address r) \<and> rt_local_ip r = None)
      then Err InvalidRouteHistory else Ok ())"

definition attestation_verify :: "prims \<Rightarrow> text_codecs \<Rightarrow> NodeId \<Rightarrow> Attestation \<Rightarrow> PeerDirectoryError + unit" where
  "attestation_verify P J loc a =
     rbind (route_validate (at_route a)) (\<lambda>_.
       if \<not> ed_valid_key P (at_recorder_key a) then Err InvalidRouteHistory
       else
         rbind (ok_or InvalidRouteHistory (hex_decode J (at_signature a))) (\<lambda>decoded.
         rbind (ok_or InvalidRouteHistory (try_array decoded)) (\<lambda>signature.
         rbind (ok_or InvalidRouteHistory (route_to_json J (at_route a))) (\<lambda>bs.
           if node_from_verifying_key P (at_recorder_key a) \<noteq> loc \<or> rt_peer (at_route a) = loc
             \<or> \<not> verify_domain P (at_recorder_key a) ROUTE_DOMAIN bs signature
           then Err InvalidRouteHistory else Ok ()))))"

section \<open>The history\<close>

type_synonym 'a route_op = "(RouteHistory, PeerDirectoryError, 'a) sio"

definition route_history_empty :: "nat \<Rightarrow> RouteHistory" where
  "route_history_empty limit =
     \<lparr>rh_records = [], rh_journal = None, rh_limit = limit, rh_compact_at = COMPACT_AFTER\<rparr>"

definition same_route :: "Attestation \<Rightarrow> Attestation \<Rightarrow> bool" where
  "same_route a b \<longleftrightarrow> rt_address (at_route a) = rt_address (at_route b) \<and> rt_pin (at_route a) = rt_pin (at_route b) \<and>
     rt_local_ip (at_route a) = rt_local_ip (at_route b)"

definition route_insert :: "RouteHistory \<Rightarrow> Attestation \<Rightarrow> PeerDirectoryError + RouteHistory" where
  "route_insert h a =
     (let peer = rt_peer (at_route a) in
      if bt_get (rh_records h) peer = None \<and> length (rh_records h) \<ge> MAX_HIVE_MEMBERS - 1 then Err DirectoryFull
      else
        let records = (case bt_get (rh_records h) peer of None \<Rightarrow> [] | Some rs \<Rightarrow> rs);
            records = filter (\<lambda>old. \<not> same_route old a) records;
            records = take (rh_limit h) (a # records) in
        Ok (h\<lparr>rh_records := bt_insert peer records (rh_records h)\<rparr>))"

definition route_addresses :: "RouteHistory \<Rightarrow> NodeId \<Rightarrow> TransportKeyId \<Rightarrow> InterfaceNetwork list \<Rightarrow> SocketAddr list" where
  "route_addresses h peer pin networks =
     map (\<lambda>a. rt_address (at_route a))
       (filter (\<lambda>a. rt_pin (at_route a) = pin \<and>
            (case rt_local_ip (at_route a) of
               None \<Rightarrow> True
             | Some ip \<Rightarrow> list_ex (\<lambda>n. in_address n = ip) networks))
          (case bt_get (rh_records h) peer of None \<Rightarrow> [] | Some rs \<Rightarrow> rs))"

definition route_frames :: "text_codecs \<Rightarrow> RouteHistory \<Rightarrow> PeerDirectoryError + bytes list" where
  "route_frames J h =
     try_map (\<lambda>a. ok_or InvalidRouteHistory (attestation_to_json J a)) (concat (map rev (bt_values (rh_records h))))"

definition route_compact_if_needed :: "prims \<Rightarrow> text_codecs \<Rightarrow> unit route_op" where
  "route_compact_if_needed P J =
     so_bind so_get (\<lambda>h.
     so_bind (so_lift (ok_or ReadOnlySnapshot (rh_journal h))) (\<lambda>journal.
     so_bind (so_attempt (journal_byte_len journal)) (\<lambda>outcome.
       case outcome of
         Inl error \<Rightarrow> so_err (PeerDirectoryError.Journal error)
       | Inr len \<Rightarrow>
           if len < unat (rh_compact_at h) then so_ok ()
           else
             so_bind (so_lift (route_frames J h)) (\<lambda>frames.
             so_bind (so_attempt (journal_compact P frames journal)) (\<lambda>outcome.
               case outcome of
                 Inl error \<Rightarrow> so_err (PeerDirectoryError.Journal error)
               | Inr journal \<Rightarrow>
                   so_bind (so_modify (\<lambda>h. h\<lparr>rh_journal := Some journal\<rparr>)) (\<lambda>_.
                   so_bind (so_attempt (journal_byte_len journal)) (\<lambda>outcome.
                     case outcome of
                       Inl error \<Rightarrow> so_err (PeerDirectoryError.Journal error)
                     | Inr len \<Rightarrow>
                         so_modify (\<lambda>h. h\<lparr>rh_compact_at := saturating_add (of_nat len) COMPACT_AFTER\<rparr>))))))))"

fun replay_routes :: "prims \<Rightarrow> text_codecs \<Rightarrow> NodeId \<Rightarrow> RouteHistory \<Rightarrow> bytes list \<Rightarrow> PeerDirectoryError + RouteHistory" where
  "replay_routes P J loc h [] = Ok h"
| "replay_routes P J loc h (f # fs) =
     (if length f > ROUTE_MAX_FRAME then Err InvalidRouteHistory
      else
        rbind (ok_or InvalidRouteHistory (attestation_from_json J f)) (\<lambda>a.
        rbind (attestation_verify P J loc a) (\<lambda>_.
        rbind (route_insert h a) (\<lambda>h. replay_routes P J loc h fs))))"

definition route_history_open ::
  "prims \<Rightarrow> text_codecs \<Rightarrow> NodeId \<Rightarrow> nat \<Rightarrow> bool \<Rightarrow> (PeerDirectoryError, RouteHistory) io" where
  "route_history_open P J loc limit read_only =
     io_bind (if read_only
       then (\<lambda>d. case journal_read P d of
           (Inr frames, d) \<Rightarrow> (Ok (None, frames), d)
         | (Inl error, d) \<Rightarrow>
             if error = JournalError.Io NotFound then (Ok (None, []), d) else (Err (PeerDirectoryError.Journal error), d))
       else io_bind (io_map_err PeerDirectoryError.Journal (journal_open P)) (\<lambda>(journal, frames). io_ok (Some journal, frames)))
     (\<lambda>(journal, frames).
     io_bind (io_lift (replay_routes P J loc ((route_history_empty limit)\<lparr>rh_journal := journal\<rparr>) frames)) (\<lambda>h d.
       if read_only then (Ok h, d)
       else case route_compact_if_needed P J h d of
         (Inl error, _, d) \<Rightarrow> (Err error, d)
       | (Inr _, h, d) \<Rightarrow> (Ok h, d)))"

text \<open>The end of \<^verbatim>\<open>remember\<close>: the attestation is appended, inserted, and the journal compacted when it is due.\<close>

definition route_append :: "prims \<Rightarrow> text_codecs \<Rightarrow> Attestation \<Rightarrow> bytes \<Rightarrow> unit route_op" where
  "route_append P J a encoded =
     so_bind so_get (\<lambda>h.
     so_bind (so_lift (ok_or ReadOnlySnapshot (rh_journal h))) (\<lambda>journal.
     so_bind (so_attempt (journal_append P encoded journal)) (\<lambda>outcome.
       case outcome of
         Inl error \<Rightarrow> so_err (PeerDirectoryError.Journal error)
       | Inr journal \<Rightarrow>
           so_bind (so_modify (\<lambda>h. h\<lparr>rh_journal := Some journal\<rparr>)) (\<lambda>_.
           so_bind so_get (\<lambda>h.
           so_bind (so_lift (route_insert h a)) (\<lambda>h.
           so_bind (so_modify (\<lambda>_. h)) (\<lambda>_.
             route_compact_if_needed P J)))))))"

definition route_remember ::
  "prims \<Rightarrow> text_codecs \<Rightarrow> DeviceIdentity \<Rightarrow> NodeId \<Rightarrow> TransportKeyId \<Rightarrow> SocketAddr \<Rightarrow> IpAddr option \<Rightarrow> u64 \<Rightarrow> unit route_op" where
  "route_remember P J device peer pin address local_ip now =
     (let address = canonical_socket_address address;
          private = is_private address in
      if private \<and> local_ip = None then so_ok ()
      else
        let route = \<lparr>rt_peer = peer, rt_pin = pin, rt_address = address,
              rt_local_ip = (if private then local_ip else None), rt_observed_at = now\<rparr> in
        so_bind (so_lift (route_validate route)) (\<lambda>_.
        so_bind so_get (\<lambda>h.
          if list_ex (\<lambda>a. rt_address (at_route a) = address \<and> rt_pin (at_route a) = pin
               \<and> rt_local_ip (at_route a) = rt_local_ip route
               \<and> saturating_sub now (rt_observed_at (at_route a)) < 3600)
             (case bt_get (rh_records h) peer of None \<Rightarrow> [] | Some rs \<Rightarrow> rs)
          then so_ok ()
          else
            so_bind (so_lift (ok_or InvalidRouteHistory (route_to_json J route))) (\<lambda>bs.
            let a = \<lparr>at_route = route, at_recorder_key = device_verifying_key P device,
                  at_signature = hex_encode J (be_bytes (device_sign_domain P device ROUTE_DOMAIN bs))\<rparr> in
            so_bind (so_lift (attestation_verify P J (device_node_id P device) a)) (\<lambda>_.
            so_bind (so_lift (ok_or InvalidRouteHistory (attestation_to_json J a))) (\<lambda>encoded.
              if length encoded > ROUTE_MAX_FRAME then so_err InvalidRouteHistory
              else if bt_get (rh_records h) peer = None \<and> length (rh_records h) \<ge> MAX_HIVE_MEMBERS - 1 then so_err DirectoryFull
              else route_append P J a encoded))))))"

end
