(* ===== verification/Peer_Directory.thy ===== *)
theory Peer_Directory
  imports Route_History
begin

text \<open>
  The directory of peers (\<^verbatim>\<open>peer_directory.rs\<close>, \<^verbatim>\<open>peer_directory/import_batch.rs\<close> and
  \<^verbatim>\<open>peer_directory/reachability.rs\<close>): the newest contact of every peer with its history and the evidence of
  equivocation, kept in a journal, and short-lived reachability claims kept in memory. The directory's
  journal and that of the routes are two files; an operation takes the disk of the one it uses. What
  \<^verbatim>\<open>validate_directory\<close> answers and the interface table are arguments.
\<close>

definition PEER_COMPACTION_THRESHOLD_BYTES :: u64 where "PEER_COMPACTION_THRESHOLD_BYTES = 8 * 1024 * 1024"
definition DEFAULT_ADDRESS_HISTORY :: nat where "DEFAULT_ADDRESS_HISTORY = 16"
definition MIN_ADDRESS_HISTORY :: nat where "MIN_ADDRESS_HISTORY = 8"
definition MAX_ADDRESS_HISTORY :: nat where "MAX_ADDRESS_HISTORY = 64"
definition USIZE_MAX :: nat where "USIZE_MAX = 2 ^ 64 - 1"
definition MAX_PAGE_CONTACTS :: nat where "MAX_PAGE_CONTACTS = 8"
definition MAX_CLAIMS_PER_REPORTER :: nat where "MAX_CLAIMS_PER_REPORTER = 4"

datatype ImportDecision = AcceptedFirst | AcceptedNewer | Duplicate | RejectedStale

record PeerEntry =
  pe_current :: PeerContact
  pe_history :: "PeerContact list"
  pe_conflict :: "PeerContact option"

record PeerDialHint =
  dh_contact :: PeerContact
  dh_addresses :: "SocketAddr list"

type_synonym claim_key = "NodeId \<times> SocketAddr \<times> NodeId"

record PeerDirectory =
  pd_root_key :: bytes32
  pd_local_node :: NodeId
  pd_entries :: "(NodeId, PeerEntry) btree_map"
  pd_revocations :: SignedRevocationList
  pd_reachability :: "(claim_key, ReachabilityClaim) btree_map"
  pd_routes :: RouteHistory
  pd_history_address_limit :: nat
  pd_journal :: "Journal option"

type_synonym 'a dir_op = "(PeerDirectory, PeerDirectoryError, 'a) sio"

definition is_conflicted :: "PeerEntry \<Rightarrow> bool" where
  "is_conflicted e = (pe_conflict e \<noteq> None)"

abbreviation contact_record :: "PeerContact \<Rightarrow> EndpointRecord" where
  "contact_record c \<equiv> se_record (pc_endpoint c)"

abbreviation contact_node :: "PeerContact \<Rightarrow> NodeId" where
  "contact_node c \<equiv> er_node_id (contact_record c)"

section \<open>Addresses seen\<close>

text \<open>\<^verbatim>\<open>filter(|address| seen.insert(*address)).take(limit)\<close>: the set grows by the addresses taken.\<close>

fun take_unseen :: "SocketAddr list \<Rightarrow> SocketAddr set \<Rightarrow> nat \<Rightarrow> SocketAddr list \<times> SocketAddr set" where
  "take_unseen [] seen n = ([], seen)"
| "take_unseen (a # as) seen n =
     (if n = 0 then ([], seen)
      else if a \<in> seen then take_unseen as seen n
      else case take_unseen as (insert a seen) (n - 1) of (xs, seen) \<Rightarrow> (a # xs, seen))"

definition dialable :: "bool \<Rightarrow> PeerContact \<Rightarrow> SocketAddr list" where
  "dialable current c =
     map ec_address (filter (\<lambda>x. ec_kind x \<noteq> Reflexive \<and> (current \<or> ec_kind x \<noteq> Local)) (er_candidates (contact_record c)))"

definition unique_addresses :: "PeerContact \<Rightarrow> SocketAddr set \<Rightarrow> nat \<Rightarrow> bool \<Rightarrow> SocketAddr list \<times> SocketAddr set" where
  "unique_addresses c seen limit current = take_unseen (dialable current c) seen limit"

definition dial_state_changed :: "PeerContact \<Rightarrow> PeerContact \<Rightarrow> bool" where
  "dial_state_changed previous current \<longleftrightarrow>
     er_transport_key_id (contact_record previous) \<noteq> er_transport_key_id (contact_record current)
     \<or> er_candidates (contact_record previous) \<noteq> er_candidates (contact_record current)"

fun retain_history :: "nat \<Rightarrow> SocketAddr set \<Rightarrow> PeerContact list \<Rightarrow> PeerContact list" where
  "retain_history limit retained [] = []"
| "retain_history limit retained (c # cs) =
     (let remaining = limit - card retained in
      if remaining = 0 then retain_history limit retained cs
      else case unique_addresses c retained remaining False of (xs, retained) \<Rightarrow>
        if xs \<noteq> [] then c # retain_history limit retained cs else retain_history limit retained cs)"

definition trim_history :: "PeerEntry \<Rightarrow> nat \<Rightarrow> PeerEntry" where
  "trim_history e limit = e\<lparr>pe_history := retain_history limit {} (pe_history e)\<rparr>"

definition validate_history_limit :: "nat \<Rightarrow> PeerDirectoryError + unit" where
  "validate_history_limit limit =
     (if \<not> (MIN_ADDRESS_HISTORY \<le> limit \<and> limit \<le> MAX_ADDRESS_HISTORY) then Err InvalidHistoryLimit else Ok ())"

section \<open>Compaction and persistence\<close>

definition directory_journal_mut :: "Journal dir_op" where
  "directory_journal_mut = so_bind so_get (\<lambda>D. so_lift (ok_or ReadOnlySnapshot (pd_journal D)))"

definition entry_contacts :: "PeerEntry \<Rightarrow> PeerContact list" where
  "entry_contacts e =
     rev (pe_history e) @ [pe_current e] @ (case pe_conflict e of None \<Rightarrow> [] | Some c \<Rightarrow> [c])"

definition canonical_frames :: "prims \<Rightarrow> PeerDirectory \<Rightarrow> PeerDirectoryError + bytes list" where
  "canonical_frames P D =
     try_map (\<lambda>c. map_err PeerDirectoryError.Contact (encode_contact P c))
       (concat (map entry_contacts (bt_values (pd_entries D))))"

definition canonical_frame_count :: "PeerDirectory \<Rightarrow> nat" where
  "canonical_frame_count D =
     fold (\<lambda>e n. n + 1 + length (pe_history e) + (if pe_conflict e \<noteq> None then 1 else 0)) (bt_values (pd_entries D)) 0"

definition directory_compact :: "prims \<Rightarrow> unit dir_op" where
  "directory_compact P =
     so_bind so_get (\<lambda>D.
     so_bind (so_lift (canonical_frames P D)) (\<lambda>frames.
     so_bind directory_journal_mut (\<lambda>journal.
     so_bind (so_attempt (journal_compact P frames journal)) (\<lambda>outcome.
       case outcome of
         Inl error \<Rightarrow> so_err (PeerDirectoryError.Journal error)
       | Inr journal \<Rightarrow> so_modify (\<lambda>D. D\<lparr>pd_journal := Some journal\<rparr>)))))"

definition directory_compact_if_needed :: "prims \<Rightarrow> unit dir_op" where
  "directory_compact_if_needed P =
     so_bind directory_journal_mut (\<lambda>journal.
     so_bind (so_attempt (journal_byte_len journal)) (\<lambda>outcome.
       case outcome of
         Inl error \<Rightarrow> so_err (PeerDirectoryError.Journal error)
       | Inr len \<Rightarrow>
           if len \<ge> unat PEER_COMPACTION_THRESHOLD_BYTES then directory_compact P else so_ok ()))"

text \<open>
  Appending frames; a full journal is compacted and tried once more. \<^verbatim>\<open>persist_contact\<close> appends one frame,
  \<^verbatim>\<open>import_page\<close> a batch.
\<close>

definition directory_append :: "prims \<Rightarrow> (Journal \<Rightarrow> (JournalError, Journal) io) \<Rightarrow> unit dir_op" where
  "directory_append P run =
     so_bind directory_journal_mut (\<lambda>journal.
     so_bind (so_attempt (run journal)) (\<lambda>outcome.
       case outcome of
         Inr journal \<Rightarrow> so_modify (\<lambda>D. D\<lparr>pd_journal := Some journal\<rparr>)
       | Inl error \<Rightarrow>
           if error = JournalFull then
             so_bind (directory_compact P) (\<lambda>_.
             so_bind directory_journal_mut (\<lambda>journal.
             so_bind (so_attempt (run journal)) (\<lambda>outcome.
               case outcome of
                 Inr journal \<Rightarrow> so_modify (\<lambda>D. D\<lparr>pd_journal := Some journal\<rparr>)
               | Inl error \<Rightarrow> so_err (PeerDirectoryError.Journal error))))
           else so_err (PeerDirectoryError.Journal error)))"

definition persist_contact :: "prims \<Rightarrow> PeerContact \<Rightarrow> unit dir_op" where
  "persist_contact P contact =
     so_bind (so_lift (map_err PeerDirectoryError.Contact (encode_contact P contact))) (\<lambda>encoded.
     so_bind (directory_compact_if_needed P) (\<lambda>_.
       directory_append P (journal_append P encoded)))"

section \<open>Merging contacts\<close>

definition set_entry :: "NodeId \<Rightarrow> PeerEntry \<Rightarrow> unit dir_op" where
  "set_entry node e = so_modify (\<lambda>D. D\<lparr>pd_entries := bt_insert node e (pd_entries D)\<rparr>)"

definition get_entry :: "NodeId \<Rightarrow> PeerEntry dir_op" where
  "get_entry node = so_bind so_get (\<lambda>D. so_lift (ok_or DirectoryFull (bt_get (pd_entries D) node)))"

definition supersede :: "PeerContact \<Rightarrow> nat \<Rightarrow> PeerEntry \<Rightarrow> PeerEntry" where
  "supersede contact limit entry =
     (let previous = pe_current entry;
          entry = entry\<lparr>pe_current := contact\<rparr> in
      if dial_state_changed previous contact
      then trim_history (entry\<lparr>pe_history := previous # pe_history entry\<rparr>) limit
      else entry)"

definition apply_contact :: "prims \<Rightarrow> PeerContact \<Rightarrow> bool \<Rightarrow> ImportDecision dir_op" where
  "apply_contact P contact persist =
     so_bind so_get (\<lambda>D.
     let node_id = contact_node contact;
         save = (if persist then persist_contact P contact else so_ok ()) in
     if node_id = pd_local_node D then so_err LocalNode
     else
       case decide (map_option (\<lambda>e. pc_endpoint (pe_current e)) (bt_get (pd_entries D) node_id)) (pc_endpoint contact) of
         AcceptFirst \<Rightarrow>
           if length (pd_entries D) \<ge> MAX_HIVE_MEMBERS - 1 then so_err DirectoryFull
           else
             so_bind save (\<lambda>_.
             so_bind (set_entry node_id \<lparr>pe_current = contact, pe_history = [], pe_conflict = None\<rparr>) (\<lambda>_.
               so_ok AcceptedFirst))
       | AcceptNewer \<Rightarrow>
           so_bind (get_entry node_id) (\<lambda>entry.
             if is_conflicted entry then so_err PeerDirectoryError.Equivocation
             else
               so_bind save (\<lambda>_.
               so_bind (get_entry node_id) (\<lambda>entry.
               so_bind (set_entry node_id (supersede contact (pd_history_address_limit D) entry)) (\<lambda>_.
                 so_ok AcceptedNewer))))
       | MergeDecision.Duplicate \<Rightarrow> so_ok ImportDecision.Duplicate
       | RejectStale \<Rightarrow> so_ok RejectedStale
       | MergeDecision.Equivocation \<Rightarrow>
           so_bind (get_entry node_id) (\<lambda>entry.
             if is_conflicted entry
             then if persist then so_err PeerDirectoryError.Equivocation else so_ok RejectedStale
             else
               so_bind save (\<lambda>_.
               so_bind (get_entry node_id) (\<lambda>entry.
               so_bind (set_entry node_id (entry\<lparr>pe_conflict := Some contact\<rparr>)) (\<lambda>_.
                 if persist then so_err PeerDirectoryError.Equivocation else so_ok RejectedStale))))
       | MergeDecision.GenerationTransitionRequired \<Rightarrow> so_err PeerDirectoryError.GenerationTransitionRequired)"

definition import_contact :: "prims \<Rightarrow> PeerContact \<Rightarrow> u64 \<Rightarrow> ImportDecision dir_op" where
  "import_contact P contact now =
     so_bind so_get (\<lambda>D.
     so_bind (so_lift (map_err PeerDirectoryError.Contact (verify_contact P contact (pd_root_key D) now))) (\<lambda>_.
       if revocation_contains (pd_revocations D) (contact_node contact) then so_err Revoked
       else
         so_bind (so_catch (apply_contact P contact True)) (\<lambda>result.
         so_bind (directory_compact_if_needed P) (\<lambda>_.
           so_lift result))))"

section \<open>Pages\<close>

definition contact_version :: "PeerContact \<Rightarrow> u64 \<times> u64" where
  "contact_version c = (er_generation (contact_record c), er_sequence (contact_record c))"

definition coalesce :: "PeerContact list \<Rightarrow> PeerContact \<Rightarrow> PeerContact list" where
  "coalesce values contact =
     (case values of
        [] \<Rightarrow> [contact]
      | current # _ \<Rightarrow>
          if contact_version contact < contact_version current then values
          else if contact_version contact = contact_version current
          then if contact \<notin> set values \<and> length values < 2 then values @ [contact] else values
          else [contact])"

definition coalesced_candidates :: "prims \<Rightarrow> PeerDirectory \<Rightarrow> PeerContact list \<Rightarrow> u64 \<Rightarrow> PeerContact list" where
  "coalesced_candidates P D contacts now =
     concat (bt_values (fold (\<lambda>contact newest.
       let node_id = contact_node contact in
       if node_id = pd_local_node D \<or> revocation_contains (pd_revocations D) node_id
         \<or> \<not> is_ok (verify_contact P contact (pd_root_key D) now)
       then newest
       else bt_insert node_id
         (coalesce (case bt_get newest node_id of None \<Rightarrow> [] | Some values \<Rightarrow> values) contact) newest)
       (take (MAX_PAGE_CONTACTS + 1) contacts) []))"

definition page_preview :: "PeerDirectory \<Rightarrow> PeerDirectory" where
  "page_preview D =
     D\<lparr>pd_journal := None, pd_routes := route_history_empty (pd_history_address_limit D)\<rparr>"

text \<open>The preview never persists: the disk is handed through unchanged.\<close>

fun preview_contacts :: "prims \<Rightarrow> PeerContact list \<Rightarrow> PeerDirectory \<Rightarrow> disk \<Rightarrow> PeerContact list \<times> PeerDirectory" where
  "preview_contacts P [] preview d = ([], preview)"
| "preview_contacts P (c # cs) preview d =
     (case apply_contact P c False preview d of (_, after, _) \<Rightarrow>
        case preview_contacts P cs after d of (accepted, final) \<Rightarrow>
          (if pd_entries after \<noteq> pd_entries preview then c # accepted else accepted, final))"

definition import_page :: "prims \<Rightarrow> PeerContact list \<Rightarrow> u64 \<Rightarrow> bool dir_op" where
  "import_page P contacts now D d =
     (let candidates = coalesced_candidates P D contacts now in
      if candidates = [] then (Ok False, D, d)
      else case preview_contacts P candidates (page_preview D) d of (accepted, preview) \<Rightarrow>
        if accepted = [] then (Ok False, D, d)
        else
          so_bind (so_lift (map_err PeerDirectoryError.Contact (try_map (encode_contact P) accepted))) (\<lambda>frames.
          so_bind (directory_compact_if_needed P) (\<lambda>_.
          so_bind (directory_append P (journal_append_batch P frames)) (\<lambda>_.
          so_bind (so_modify (\<lambda>D. D\<lparr>pd_entries := pd_entries preview\<rparr>)) (\<lambda>_.
            so_ok True)))) D d)"

section \<open>Opening\<close>

fun replay_contacts :: "prims \<Rightarrow> bytes list \<Rightarrow> unit dir_op" where
  "replay_contacts P [] = so_ok ()"
| "replay_contacts P (f # fs) =
     so_bind (so_lift (map_err PeerDirectoryError.Contact (decode_contact P f))) (\<lambda>contact.
     so_bind so_get (\<lambda>D.
     so_bind (so_lift (map_err PeerDirectoryError.Contact (verify_historical P contact (pd_root_key D)))) (\<lambda>_.
     so_bind (apply_contact P contact False) (\<lambda>_.
       replay_contacts P fs))))"

definition directory_new ::
  "bytes32 \<Rightarrow> NodeId \<Rightarrow> SignedRevocationList \<Rightarrow> nat \<Rightarrow> Journal option \<Rightarrow> RouteHistory \<Rightarrow> PeerDirectory" where
  "directory_new root_key local_node revocations limit journal routes =
     \<lparr>pd_root_key = root_key, pd_local_node = local_node, pd_entries = [], pd_revocations = revocations,
      pd_reachability = [], pd_routes = routes, pd_history_address_limit = limit, pd_journal = journal\<rparr>"

text \<open>The state of an opening is the disk of the routes' journal; the disk is that of the directory's.\<close>

definition on_routes :: "(PeerDirectoryError, 'a) io \<Rightarrow> (disk, PeerDirectoryError, 'a) sio" where
  "on_routes m s d = (case m s of (r, s) \<Rightarrow> (r, s, d))"

definition on_directory :: "PeerDirectory \<Rightarrow> 'a dir_op \<Rightarrow> (disk, PeerDirectoryError, PeerDirectory) sio" where
  "on_directory D m s d = (case m D d of (Inl error, _, d) \<Rightarrow> (Err error, s, d) | (Inr _, D, d) \<Rightarrow> (Ok D, s, d))"

definition open_with_history_limit ::
  "prims \<Rightarrow> text_codecs \<Rightarrow> StorageError + unit \<Rightarrow> bytes32 \<Rightarrow> NodeId \<Rightarrow> SignedRevocationList \<Rightarrow> nat \<Rightarrow>
     (disk, PeerDirectoryError, PeerDirectory) sio" where
  "open_with_history_limit P J validated root_key local_node revocations limit =
     so_bind (so_lift (validate_history_limit limit)) (\<lambda>_.
     so_bind (so_lift (map_err PeerDirectoryError.Storage validated)) (\<lambda>_.
     so_bind (so_attempt (journal_open P)) (\<lambda>outcome.
       case outcome of
         Inl error \<Rightarrow> so_err (PeerDirectoryError.Journal error)
       | Inr (journal, frames) \<Rightarrow>
           so_bind (so_lift (map_err PeerDirectoryError.Revocation (verify_revocations P revocations root_key))) (\<lambda>_.
           so_bind (on_routes (route_history_open P J local_node limit False)) (\<lambda>routes.
           so_bind (on_directory (directory_new root_key local_node revocations limit (Some journal) routes)
             (replay_contacts P frames)) (\<lambda>D.
           on_directory D
             (if length frames = canonical_frame_count D then directory_compact_if_needed P else directory_compact P)))))))"

definition open_read_only_with_history_limit ::
  "prims \<Rightarrow> text_codecs \<Rightarrow> StorageError + unit \<Rightarrow> bytes32 \<Rightarrow> NodeId \<Rightarrow> SignedRevocationList \<Rightarrow> nat \<Rightarrow>
     (disk, PeerDirectoryError, PeerDirectory) sio" where
  "open_read_only_with_history_limit P J validated root_key local_node revocations limit =
     so_bind (so_lift (validate_history_limit limit)) (\<lambda>_.
     so_bind (so_lift (map_err PeerDirectoryError.Storage validated)) (\<lambda>_.
     so_bind (so_attempt (journal_read P)) (\<lambda>outcome.
     so_bind (case outcome of
         Inr frames \<Rightarrow> so_ok frames
       | Inl error \<Rightarrow> if error = JournalError.Io NotFound then so_ok [] else so_err (PeerDirectoryError.Journal error)) (\<lambda>frames.
     so_bind (so_lift (map_err PeerDirectoryError.Revocation (verify_revocations P revocations root_key))) (\<lambda>_.
     so_bind (on_routes (route_history_open P J local_node limit True)) (\<lambda>routes.
       on_directory (directory_new root_key local_node revocations limit None routes) (replay_contacts P frames)))))))"

section \<open>Reading\<close>

definition is_revoked :: "PeerDirectory \<Rightarrow> NodeId \<Rightarrow> bool" where
  "is_revoked D node_id = revocation_contains (pd_revocations D) node_id"

definition usable :: "prims \<Rightarrow> PeerDirectory \<Rightarrow> NodeId \<Rightarrow> u64 \<Rightarrow> PeerContact option" where
  "usable P D node_id now =
     (case bt_get (pd_entries D) node_id of
        None \<Rightarrow> None
      | Some entry \<Rightarrow>
          if is_conflicted entry \<or> revocation_contains (pd_revocations D) node_id
            \<or> \<not> is_ok (verify_contact P (pe_current entry) (pd_root_key D) now)
          then None else Some (pe_current entry))"

definition recovery_authority :: "prims \<Rightarrow> PeerDirectory \<Rightarrow> NodeId \<Rightarrow> PeerContact option" where
  "recovery_authority P D node_id =
     (case bt_get (pd_entries D) node_id of
        None \<Rightarrow> None
      | Some entry \<Rightarrow>
          if is_conflicted entry \<or> revocation_contains (pd_revocations D) node_id
            \<or> \<not> is_ok (verify_historical P (pe_current entry) (pd_root_key D))
          then None else Some (pe_current entry))"

definition usable_contacts :: "prims \<Rightarrow> PeerDirectory \<Rightarrow> u64 \<Rightarrow> PeerContact list" where
  "usable_contacts P D now =
     map pe_current (filter (\<lambda>entry. \<not> is_conflicted entry
         \<and> \<not> revocation_contains (pd_revocations D) (contact_node (pe_current entry))
         \<and> is_ok (verify_contact P (pe_current entry) (pd_root_key D) now)) (bt_values (pd_entries D)))"

definition set_revocations :: "prims \<Rightarrow> SignedRevocationList \<Rightarrow> unit dir_op" where
  "set_revocations P revocations =
     so_bind so_get (\<lambda>D.
     so_bind (so_lift (map_err PeerDirectoryError.Revocation (verify_revocations P revocations (pd_root_key D)))) (\<lambda>_.
     let incoming = sr_list revocations; current = sr_list (pd_revocations D) in
     if rl_serial incoming < rl_serial current then so_err PeerDirectoryError.RevocationRollback
     else if rl_serial incoming = rl_serial current
     then if revocations = pd_revocations D then so_ok () else so_err PeerDirectoryError.RevocationEquivocation
     else if rl_issued_at incoming < rl_issued_at current
       \<or> list_ex (\<lambda>node. \<not> revocation_contains revocations node) (rl_revoked_nodes current)
     then so_err PeerDirectoryError.RevocationRollback
     else so_modify (\<lambda>D. D\<lparr>pd_revocations := revocations,
       pd_reachability := filter (\<lambda>(_, claim). \<not> revocation_contains revocations (rc_subject claim)
         \<and> \<not> revocation_contains revocations (rc_reporter claim)) (pd_reachability D)\<rparr>)))"

section \<open>Reachability claims\<close>

definition prune_reachability :: "u64 \<Rightarrow> unit dir_op" where
  "prune_reachability now =
     so_modify (\<lambda>D. D\<lparr>pd_reachability := filter (\<lambda>(_, claim). rc_expires_at claim \<ge> now
       \<and> \<not> revocation_contains (pd_revocations D) (rc_subject claim)
       \<and> \<not> revocation_contains (pd_revocations D) (rc_reporter claim)) (pd_reachability D)\<rparr>)"

text \<open>\<^verbatim>\<open>max_by_key\<close> returns the last of the greatest elements, \<^verbatim>\<open>min_by_key\<close> the first of the least ones.\<close>

fun max_by_key :: "('a \<Rightarrow> 'b::linorder) \<Rightarrow> 'a list \<Rightarrow> 'a option" where
  "max_by_key f [] = None"
| "max_by_key f (x # xs) =
     (case max_by_key f xs of None \<Rightarrow> Some x | Some y \<Rightarrow> if f y < f x then Some x else Some y)"

fun min_by_key :: "('a \<Rightarrow> 'b::linorder) \<Rightarrow> 'a list \<Rightarrow> 'a option" where
  "min_by_key f [] = None"
| "min_by_key f (x # xs) =
     (case min_by_key f xs of None \<Rightarrow> Some x | Some y \<Rightarrow> if f y < f x then Some y else Some x)"

definition reporter_counts :: "PeerDirectory \<Rightarrow> (NodeId, nat) btree_map" where
  "reporter_counts D =
     fold (\<lambda>claim counts. bt_insert (rc_reporter claim)
         (Suc (case bt_get counts (rc_reporter claim) of None \<Rightarrow> 0 | Some n \<Rightarrow> n)) counts)
       (filter (\<lambda>claim. rc_reporter claim \<noteq> pd_local_node D) (bt_values (pd_reachability D))) []"

definition slot_victim :: "PeerDirectory \<Rightarrow> NodeId \<Rightarrow> bool \<Rightarrow> bool + NodeId" where
  "slot_victim D reporter local_gateway =
     (let counts = reporter_counts D;
          own = (case bt_get counts reporter of None \<Rightarrow> 0 | Some n \<Rightarrow> n);
          full = (length (pd_reachability D) \<ge> MAX_REACHABILITY_CLAIMS) in
      if own \<ge> MAX_CLAIMS_PER_REPORTER \<or> full \<and> own > 0 then Inr reporter
      else if \<not> full then Inl True
      else case max_by_key snd counts of
        Some (largest, count) \<Rightarrow> if \<not> local_gateway \<and> count \<le> 1 then Inl False else Inr largest
      | None \<Rightarrow> Inl False)"

text \<open>The result and the remaining claims.\<close>

definition reserve_reachability_slot ::
  "PeerDirectory \<Rightarrow> NodeId \<Rightarrow> bool \<Rightarrow> bool \<times> (claim_key, ReachabilityClaim) btree_map" where
  "reserve_reachability_slot D reporter local_gateway =
     (case slot_victim D reporter local_gateway of
        Inl answer \<Rightarrow> (answer, pd_reachability D)
      | Inr victim \<Rightarrow>
          (case min_by_key (\<lambda>(_, claim). rc_expires_at claim)
             (filter (\<lambda>(_, claim). rc_reporter claim = victim) (pd_reachability D)) of
             Some (oldest, _) \<Rightarrow> (True, filter (\<lambda>(key, _). key \<noteq> oldest) (pd_reachability D))
           | None \<Rightarrow> (False, pd_reachability D)))"

definition undialable :: "SocketAddr \<Rightarrow> bool" where
  "undialable address = (ip_is_loopback (socket_ip address) \<or> v6_link_local (socket_ip address))"

definition import_reachability :: "prims \<Rightarrow> ReachabilityClaim \<Rightarrow> u64 \<Rightarrow> bool dir_op" where
  "import_reachability P claim now =
     so_bind so_get (\<lambda>D.
     so_bind (so_lift (map_err PeerDirectoryError.Reachability (verify_claim P claim (pd_root_key D) now))) (\<lambda>_.
       if rc_reporter claim = pd_local_node D then so_ok False
       else
         so_bind (so_lift (map_err PeerDirectoryError.Reachability (claim_candidate claim))) (\<lambda>candidate.
         let address = ec_address candidate in
         if revocation_contains (pd_revocations D) (rc_subject claim)
           \<or> revocation_contains (pd_revocations D) (rc_reporter claim) \<or> undialable address
         then so_err (PeerDirectoryError.Reachability InvalidAddress)
         else
           so_bind (prune_reachability now) (\<lambda>_.
           so_bind so_get (\<lambda>D.
           let key = (rc_subject claim, address, rc_reporter claim) in
           if (case bt_get (pd_reachability D) key of
                 None \<Rightarrow> False
               | Some existing \<Rightarrow> rc_issued_at existing \<ge> rc_issued_at claim \<and> rc_expires_at existing \<ge> rc_expires_at claim)
           then so_ok False
           else
             let (granted, claims) =
               (if bt_get (pd_reachability D) key = None
                then reserve_reachability_slot D (rc_reporter claim) False
                else (True, pd_reachability D)) in
             if \<not> granted then so_bind (so_modify (\<lambda>D. D\<lparr>pd_reachability := claims\<rparr>)) (\<lambda>_. so_ok False)
             else so_bind (so_modify (\<lambda>D. D\<lparr>pd_reachability := bt_insert key claim claims\<rparr>)) (\<lambda>_. so_ok True))))))"

definition own_gateway_claim :: "PeerDirectory \<Rightarrow> ReachabilityClaim \<Rightarrow> bool" where
  "own_gateway_claim D claim \<longleftrightarrow>
     rc_source claim = Gateway \<and> rc_subject claim = pd_local_node D \<and> rc_reporter claim = pd_local_node D"

definition replace_local_gateway_reachability :: "prims \<Rightarrow> ReachabilityClaim option \<Rightarrow> u64 \<Rightarrow> bool dir_op" where
  "replace_local_gateway_reachability P claim now =
     so_bind (prune_reachability now) (\<lambda>_.
     so_bind so_get (\<lambda>D.
     so_bind (case claim of
         None \<Rightarrow> so_ok ()
       | Some candidate \<Rightarrow>
           so_bind (so_lift (map_err PeerDirectoryError.Reachability (verify_claim P candidate (pd_root_key D) now))) (\<lambda>_.
             if \<not> own_gateway_claim D candidate \<or> undialable (rc_address candidate)
             then so_err (PeerDirectoryError.Reachability InvalidAddress) else so_ok ())) (\<lambda>_.
     let previous = filter (own_gateway_claim D) (bt_values (pd_reachability D));
         unchanged = (case claim of None \<Rightarrow> previous = [] | Some candidate \<Rightarrow> previous = [candidate]) in
     if unchanged then so_ok False
     else
       so_bind (so_modify (\<lambda>D. D\<lparr>pd_reachability := filter (\<lambda>(_, c). \<not> own_gateway_claim D c) (pd_reachability D)\<rparr>)) (\<lambda>_.
       case claim of
         None \<Rightarrow> so_ok True
       | Some candidate \<Rightarrow>
           so_bind so_get (\<lambda>D.
           let (granted, claims) = reserve_reachability_slot D (pd_local_node D) True in
           if \<not> granted
           then so_bind (so_modify (\<lambda>D. D\<lparr>pd_reachability := claims\<rparr>)) (\<lambda>_.
             so_err (PeerDirectoryError.Reachability InvalidAddress))
           else so_bind (so_modify (\<lambda>D. D\<lparr>pd_reachability :=
               bt_insert (rc_subject candidate, rc_address candidate, rc_reporter candidate) candidate claims\<rparr>)) (\<lambda>_.
             so_ok True))))))"

definition reachability_claims :: "PeerDirectory \<Rightarrow> u64 \<Rightarrow> ReachabilityClaim list" where
  "reachability_claims D now =
     take MAX_REACHABILITY_CLAIMS (filter (\<lambda>claim. rc_expires_at claim \<ge> now) (bt_values (pd_reachability D)))"

text \<open>
  \<^verbatim>\<open>sort_unstable_by_key\<close> on two keys. At most 16 claims are held, and slices of that size are sorted by
  insertion, which keeps the order of equal keys.
\<close>

definition reachability_addresses ::
  "PeerDirectory \<Rightarrow> NodeId \<Rightarrow> u64 \<Rightarrow> SocketAddr set \<Rightarrow> SocketAddr list \<times> SocketAddr set" where
  "reachability_addresses D subject now seen =
     (let claims = filter (\<lambda>claim. rc_subject claim = subject \<and> rc_expires_at claim \<ge> now) (bt_values (pd_reachability D));
          claims = sort_key (\<lambda>claim. (case rc_source claim of PeerObserved \<Rightarrow> 0 | Gateway \<Rightarrow> 1) :: nat) claims;
          addresses = map (\<lambda>claim. canonical_socket_address (rc_address claim)) claims in
      take_unseen addresses seen (length addresses))"

section \<open>Dialing\<close>

fun history_hints ::
  "PeerDirectory \<Rightarrow> InterfaceNetwork list \<Rightarrow> nat \<Rightarrow> SocketAddr set \<Rightarrow> PeerContact list \<Rightarrow> PeerDialHint list" where
  "history_hints D networks count seen [] = []"
| "history_hints D networks count seen (c # cs) =
     (let remaining = pd_history_address_limit D - count in
      if remaining = 0 then []
      else case unique_addresses c seen remaining False of (addresses, seen) \<Rightarrow>
        case take_unseen (route_addresses (pd_routes D) (contact_node c) (er_transport_key_id (contact_record c)) networks)
            seen (remaining - length addresses) of (extra, seen) \<Rightarrow>
          let addresses = addresses @ extra in
          if addresses = [] then history_hints D networks count seen cs
          else \<lparr>dh_contact = c, dh_addresses = addresses\<rparr>
            # history_hints D networks (count + length addresses) seen cs)"

definition entry_hints :: "PeerDirectory \<Rightarrow> InterfaceNetwork list \<Rightarrow> u64 \<Rightarrow> PeerEntry \<Rightarrow> PeerDialHint list" where
  "entry_hints D networks now entry =
     (let current = pe_current entry; node_id = contact_node current in
      if is_conflicted entry \<or> revocation_contains (pd_revocations D) node_id then []
      else case reachability_addresses D node_id now {} of (claimed, seen) \<Rightarrow>
        case unique_addresses current seen USIZE_MAX True of (signed_ones, seen) \<Rightarrow>
          let routes = route_addresses (pd_routes D) node_id (er_transport_key_id (contact_record current)) networks in
          case take_unseen routes seen (length routes) of (routed, seen) \<Rightarrow>
            let addresses = claimed @ signed_ones @ routed in
            (if addresses \<noteq> [] then [\<lparr>dh_contact = current, dh_addresses = addresses\<rparr>] else [])
            @ history_hints D networks 0 seen (pe_history entry))"

definition dial_hints ::
  "PeerDirectory \<Rightarrow> NetworkError + InterfaceAddress list \<Rightarrow> u64 \<Rightarrow> PeerDialHint list" where
  "dial_hints D table now =
     (let networks = (case interface_networks table of Inr ns \<Rightarrow> ns | Inl _ \<Rightarrow> []) in
      concat (map (entry_hints D networks now) (bt_values (pd_entries D))))"

definition authenticated_on_link_routes ::
  "prims \<Rightarrow> PeerDirectory \<Rightarrow> NodeId \<Rightarrow> InterfaceNetwork list \<Rightarrow> u64 \<Rightarrow> SocketAddr list" where
  "authenticated_on_link_routes P D peer networks now =
     (case usable P D peer now of
        None \<Rightarrow> []
      | Some contact \<Rightarrow>
          take MAX_DIAL_CANDIDATES_PER_ROUND
            (filter (\<lambda>address. list_ex (\<lambda>n. network_contains n (socket_ip address)) networks
                \<and> list_ex (\<lambda>x. (ec_kind x = Local \<or> ec_kind x = Direct) \<and> ec_address x = address)
                    (er_candidates (contact_record contact)))
              (route_addresses (pd_routes D) peer (er_transport_key_id (contact_record contact)) networks)))"

definition remember_authenticated_route ::
  "prims \<Rightarrow> text_codecs \<Rightarrow> DeviceIdentity \<Rightarrow> PeerContact \<Rightarrow> SocketAddr \<Rightarrow> IpAddr option \<Rightarrow> u64 \<Rightarrow> unit dir_op" where
  "remember_authenticated_route P J device contact address local_ip now =
     so_bind so_get (\<lambda>D.
     so_bind (so_lift (map_err PeerDirectoryError.Contact (verify_contact P contact (pd_root_key D) now))) (\<lambda>_.
     let node_id = contact_node contact in
     if device_node_id P device \<noteq> pd_local_node D then so_err InvalidRouteHistory
     else if revocation_contains (pd_revocations D) node_id
       \<or> (case bt_get (pd_entries D) node_id of None \<Rightarrow> True | Some entry \<Rightarrow> is_conflicted entry)
     then so_ok ()
     else (\<lambda>D d.
       case route_remember P J device node_id (er_transport_key_id (contact_record contact)) address local_ip now (pd_routes D) d of
         (r, routes, d) \<Rightarrow> (r, D\<lparr>pd_routes := routes\<rparr>, d))))"

end
