(* ===== verification/Peer_Merge.thy ===== *)
theory Peer_Merge
  imports Peer_Directory "HOL-Library.Sublist"
begin

text \<open>
  What the directory promises of its contacts, apart from how it stores them: a register per peer that
  only newer records replace and that the first equivocation freezes. Merging refines this register; the
  entries stay well-formed and bounded; and the frames of a compaction replay to the same registers.
\<close>

section \<open>Merging as a function of the entries\<close>

abbreviation sequence_of :: "PeerContact \<Rightarrow> u64" where "sequence_of c \<equiv> er_sequence (contact_record c)"
abbreviation generation_of :: "PeerContact \<Rightarrow> u64" where "generation_of c \<equiv> er_generation (contact_record c)"

definition absorb_entry :: "nat \<Rightarrow> PeerContact \<Rightarrow> PeerEntry \<Rightarrow> PeerDirectoryError + PeerEntry" where
  "absorb_entry limit c e =
     (case decide (Some (pc_endpoint (pe_current e))) (pc_endpoint c) of
        AcceptNewer \<Rightarrow> if is_conflicted e then Err PeerDirectoryError.Equivocation else Ok (supersede c limit e)
      | MergeDecision.Equivocation \<Rightarrow> Ok (if is_conflicted e then e else e\<lparr>pe_conflict := Some c\<rparr>)
      | MergeDecision.GenerationTransitionRequired \<Rightarrow> Err PeerDirectoryError.GenerationTransitionRequired
      | _ \<Rightarrow> Ok e)"

definition absorb ::
  "NodeId \<Rightarrow> nat \<Rightarrow> PeerContact \<Rightarrow> (NodeId, PeerEntry) btree_map \<Rightarrow> PeerDirectoryError + (NodeId, PeerEntry) btree_map" where
  "absorb loc limit c es =
     (if contact_node c = loc then Err LocalNode
      else case bt_get es (contact_node c) of
        None \<Rightarrow>
          if length es \<ge> MAX_HIVE_MEMBERS - 1 then Err DirectoryFull
          else Ok (bt_insert (contact_node c) \<lparr>pe_current = c, pe_history = [], pe_conflict = None\<rparr> es)
      | Some e \<Rightarrow> rbind (absorb_entry limit c e) (\<lambda>e. Ok (bt_insert (contact_node c) e es)))"

text \<open>Putting an entry back where it was changes nothing.\<close>

lemma bt_insert_same:
  assumes "bt_ok es" and "bt_get es k = Some v"
  shows "bt_insert k v es = es"
  by (rule bt.map_eqI) (use assms in \<open>auto simp: bt_ok_insert\<close>)

lemma decide_Some:
  "decide (Some a) b =
     (if er_generation (se_record a) \<noteq> er_generation (se_record b) then MergeDecision.GenerationTransitionRequired
      else if er_sequence (se_record a) < er_sequence (se_record b) then AcceptNewer
      else if er_sequence (se_record b) < er_sequence (se_record a) then RejectStale
      else if a = b then MergeDecision.Duplicate else MergeDecision.Equivocation)"
  by (auto simp: decide_def)

lemma decide_None [simp]: "decide None b = AcceptFirst"
  by (simp add: decide_def)

text \<open>Applying a contact without persisting it changes the entries only, and as \<open>absorb\<close> says.\<close>

lemma apply_quiet:
  assumes "bt_ok (pd_entries D)"
  shows "\<exists>x. apply_contact P c False D d =
    (case absorb (pd_local_node D) (pd_history_address_limit D) c (pd_entries D) of
       Inl e \<Rightarrow> (Err e, D, d)
     | Inr es \<Rightarrow> (Ok x, D\<lparr>pd_entries := es\<rparr>, d))"
proof (cases "bt_get (pd_entries D) (contact_node c)")
  case None
  then show ?thesis
    by (auto simp: apply_contact_def absorb_def Let_def so_run set_entry_def so_bind_def)
next
  case (Some e)
  have same: "D\<lparr>pd_entries := bt_insert (contact_node c) e (pd_entries D)\<rparr> = D"
    using bt_insert_same [OF assms Some] by simp
  show ?thesis
    using Some same
    by (auto simp: apply_contact_def absorb_def absorb_entry_def Let_def so_run set_entry_def get_entry_def so_bind_def
        decide_Some)
qed

section \<open>The registers\<close>

type_synonym registers = "NodeId \<Rightarrow> (PeerContact \<times> PeerContact option) option"

definition registers_of :: "(NodeId, PeerEntry) btree_map \<Rightarrow> registers" where
  "registers_of es n = map_option (\<lambda>e. (pe_current e, pe_conflict e)) (bt_get es n)"

definition absorb_register ::
  "PeerContact \<Rightarrow> PeerContact \<times> PeerContact option \<Rightarrow> PeerDirectoryError + (PeerContact \<times> PeerContact option)" where
  "absorb_register c r =
     (case r of (current, conflict) \<Rightarrow>
        if generation_of current \<noteq> generation_of c then Err PeerDirectoryError.GenerationTransitionRequired
        else if sequence_of current < sequence_of c
        then if conflict \<noteq> None then Err PeerDirectoryError.Equivocation else Ok (c, None)
        else if sequence_of current = sequence_of c \<and> pc_endpoint current \<noteq> pc_endpoint c \<and> conflict = None
        then Ok (current, Some c)
        else Ok r)"

definition absorb_registers :: "NodeId \<Rightarrow> PeerContact \<Rightarrow> registers \<Rightarrow> PeerDirectoryError + registers" where
  "absorb_registers loc c rs =
     (if contact_node c = loc then Err LocalNode
      else case rs (contact_node c) of
        None \<Rightarrow>
          if card (dom rs) \<ge> MAX_HIVE_MEMBERS - 1 then Err DirectoryFull
          else Ok (rs(contact_node c \<mapsto> (c, None)))
      | Some r \<Rightarrow> rbind (absorb_register c r) (\<lambda>r. Ok (rs(contact_node c \<mapsto> r))))"

lemma supersede_simps [simp]:
  "pe_current (supersede c limit e) = c" "pe_conflict (supersede c limit e) = pe_conflict e"
  by (simp_all add: supersede_def trim_history_def Let_def)

lemma absorb_entry_register:
  "map_sum id (\<lambda>e. (pe_current e, pe_conflict e)) (absorb_entry limit c e) = absorb_register c (pe_current e, pe_conflict e)"
  by (cases "pe_conflict e") (auto simp: absorb_entry_def absorb_register_def decide_Some is_conflicted_def)

lemma registers_insert [simp]:
  "registers_of (bt_insert n e es) = (registers_of es)(n \<mapsto> (pe_current e, pe_conflict e))"
  by (rule ext) (simp add: registers_of_def)

lemma dom_registers: "dom (registers_of es) = set (map fst es)"
proof -
  have "registers_of es = (\<lambda>n. map_option (\<lambda>e. (pe_current e, pe_conflict e)) (map_of es n))"
    by (rule ext) (simp add: registers_of_def bt_get_def)
  then show ?thesis by (simp add: dom_map_option dom_map_of_conv_image_fst)
qed

lemma card_registers: "bt_ok es \<Longrightarrow> card (dom (registers_of es)) = length es"
  using bt.keys_distinct [of es] distinct_card [of "map fst es"] by (simp add: dom_registers)

text \<open>Merging refines the registers, errors included.\<close>

lemma absorb_refines:
  assumes "bt_ok es"
  shows "map_sum id registers_of (absorb loc limit c es) = absorb_registers loc c (registers_of es)"
proof (cases "bt_get es (contact_node c)")
  case None
  then show ?thesis
    by (simp add: absorb_def absorb_registers_def card_registers [OF assms] registers_of_def del: registers_insert)
      (auto simp: fun_eq_iff registers_of_def)
next
  case (Some e)
  have "registers_of es (contact_node c) = Some (pe_current e, pe_conflict e)" using Some by (simp add: registers_of_def)
  then show ?thesis
    using Some absorb_entry_register [of limit c e, symmetric]
    by (cases "absorb_entry limit c e") (auto simp: absorb_def absorb_registers_def)
qed

section \<open>Well-formed entries\<close>

text \<open>
  An entry holds one peer's contacts of one generation: the current one, older ones with falling sequence
  numbers, at most as many as the budget of addresses, and against the current one at most one contact
  with the same number and other content.
\<close>

definition entry_ok :: "nat \<Rightarrow> NodeId \<Rightarrow> PeerEntry \<Rightarrow> bool" where
  "entry_ok limit n e \<longleftrightarrow>
     sorted_wrt (\<lambda>a b. sequence_of b < sequence_of a) (pe_current e # pe_history e) \<and>
     (\<forall>c \<in> set (entry_contacts e). contact_node c = n \<and> generation_of c = generation_of (pe_current e)) \<and>
     (\<forall>x. pe_conflict e = Some x \<longrightarrow>
        sequence_of x = sequence_of (pe_current e) \<and> pc_endpoint x \<noteq> pc_endpoint (pe_current e)) \<and>
     length (pe_history e) \<le> limit"

definition stored :: "prims \<Rightarrow> bytes32 \<Rightarrow> PeerContact \<Rightarrow> bool" where
  "stored P root c \<longleftrightarrow> contact_wf P c \<and> verify_historical P c root = Ok ()"

definition entries_ok :: "prims \<Rightarrow> bytes32 \<Rightarrow> NodeId \<Rightarrow> nat \<Rightarrow> (NodeId, PeerEntry) btree_map \<Rightarrow> bool" where
  "entries_ok P root loc limit es \<longleftrightarrow>
     bt_ok es \<and> length es \<le> MAX_HIVE_MEMBERS - 1 \<and> bt_get es loc = None \<and>
     (\<forall>n e. bt_get es n = Some e \<longrightarrow> entry_ok limit n e \<and> (\<forall>c \<in> set (entry_contacts e). stored P root c))"

lemma set_entry_contacts:
  "set (entry_contacts e) = insert (pe_current e) (set (pe_history e) \<union> set_option (pe_conflict e))"
  by (cases "pe_conflict e") (auto simp: entry_contacts_def)

lemma take_unseen_props:
  assumes "take_unseen as seen n = (xs, seen')" and "finite seen"
  shows "distinct xs \<and> set xs \<inter> seen = {} \<and> seen' = seen \<union> set xs \<and> length xs \<le> n \<and> set xs \<subseteq> set as"
  using assms
proof (induction as seen n arbitrary: xs seen' rule: take_unseen.induct)
  case (2 a as seen n)
  consider "n = 0" | "n \<noteq> 0" "a \<in> seen" | "n \<noteq> 0" "a \<notin> seen" by blast
  then show ?case
  proof cases
    case 3
    obtain ys s where r: "take_unseen as (insert a seen) (n - 1) = (ys, s)" by (cases "take_unseen as (insert a seen) (n - 1)")
    have "distinct ys \<and> set ys \<inter> insert a seen = {} \<and> s = insert a seen \<union> set ys \<and> length ys \<le> n - 1 \<and> set ys \<subseteq> set as"
      by (rule 2(2)) (use 3 r 2(4) in auto)
    then show ?thesis using 3 r 2(3) by auto
  qed (use 2 in auto)
qed simp

lemma subseq_keeps: "subseq xs ys \<Longrightarrow> set xs \<subseteq> set ys \<and> (sorted_wrt R ys \<longrightarrow> sorted_wrt R xs)"
  by (induction rule: list_emb.induct) auto

lemma retain_history_props:
  assumes "finite retained"
  shows "subseq (retain_history limit retained cs) cs \<and> length (retain_history limit retained cs) \<le> limit - card retained"
  using assms
proof (induction limit retained cs rule: retain_history.induct)
  case (2 limit retained c cs)
  obtain xs s where u: "unique_addresses c retained (limit - card retained) False = (xs, s)"
    by (cases "unique_addresses c retained (limit - card retained) False")
  have s: "distinct xs" "set xs \<inter> retained = {}" "s = retained \<union> set xs"
    using take_unseen_props [OF u [unfolded unique_addresses_def] 2(4)] by simp_all
  have card: "card s = card retained + length xs" and fin: "finite s"
    using s 2(4) by (simp_all add: card_Un_disjoint distinct_card Int_commute)
  show ?case
  proof (cases "limit - card retained = 0")
    case True
    then show ?thesis using 2(1) [OF refl True 2(4)] by (auto simp: Let_def)
  next
    case False
    have "subseq (retain_history limit s cs) cs \<and> length (retain_history limit s cs) \<le> limit - card s"
    proof (cases "xs = []")
      case True
      show ?thesis by (rule 2(3) [OF refl False u [symmetric] _ fin]) (use True in simp)
    next
      case ne: False
      show ?thesis by (rule 2(2) [OF refl False u [symmetric] _ fin]) (use ne in simp)
    qed
    moreover have "xs \<noteq> [] \<Longrightarrow> limit - card s < limit - card retained" using card False by (cases xs) auto
    moreover have "limit - card s \<le> limit - card retained" using card by simp
    ultimately show ?thesis using False u by (auto simp: Let_def)
  qed
qed simp

lemma supersede_ok:
  assumes "entry_ok limit n e" and "contact_node c = n" and "generation_of c = generation_of (pe_current e)"
    and "sequence_of (pe_current e) < sequence_of c" and "pe_conflict e = None"
  shows "entry_ok limit n (supersede c limit e)" "set (entry_contacts (supersede c limit e)) \<subseteq> insert c (set (entry_contacts e))"
proof -
  have old: "sorted_wrt (\<lambda>a b. sequence_of b < sequence_of a) (c # pe_current e # pe_history e)"
    using assms(1,4) by (auto simp: entry_ok_def dest: order.strict_trans)
  define kept where "kept = retain_history limit {} (pe_current e # pe_history e)"
  have kept: "subseq kept (pe_current e # pe_history e)" "length kept \<le> limit"
    using retain_history_props [of "{}" limit "pe_current e # pe_history e"] by (simp_all add: kept_def)
  have sub: "set kept \<subseteq> insert (pe_current e) (set (pe_history e))" using subseq_keeps [OF kept(1)] by simp
  have sup: "supersede c limit e =
      (if dial_state_changed (pe_current e) c then e\<lparr>pe_current := c, pe_history := kept\<rparr> else e\<lparr>pe_current := c\<rparr>)"
    by (simp add: supersede_def trim_history_def Let_def kept_def del: retain_history.simps)
  have sorted: "sorted_wrt (\<lambda>a b. sequence_of b < sequence_of a) (c # kept)"
    using old subseq_keeps [of "c # kept" "c # pe_current e # pe_history e" "\<lambda>a b. sequence_of b < sequence_of a"] kept(1)
    by simp
  have nodes: "\<forall>x \<in> insert (pe_current e) (set (pe_history e)). contact_node x = n \<and> generation_of x = generation_of c"
    using assms(1,3) by (simp add: entry_ok_def set_entry_contacts)
  show "entry_ok limit n (supersede c limit e)"
    using assms(1,2,5) kept(2) sub sorted old nodes unfolding sup entry_ok_def set_entry_contacts by auto
  show "set (entry_contacts (supersede c limit e)) \<subseteq> insert c (set (entry_contacts e))"
    using sub assms(5) unfolding sup by (auto simp: set_entry_contacts)
qed

lemma absorb_entry_ok:
  assumes "absorb_entry limit c e = Ok e'" and "entry_ok limit n e" and "contact_node c = n"
  shows "entry_ok limit n e' \<and> set (entry_contacts e') \<subseteq> insert c (set (entry_contacts e))"
proof -
  consider "e' = supersede c limit e" "generation_of c = generation_of (pe_current e)"
      "sequence_of (pe_current e) < sequence_of c" "pe_conflict e = None"
    | "e' = e"
    | "e' = e\<lparr>pe_conflict := Some c\<rparr>" "generation_of c = generation_of (pe_current e)"
      "sequence_of c = sequence_of (pe_current e)" "pc_endpoint c \<noteq> pc_endpoint (pe_current e)" "pe_conflict e = None"
    using assms(1) by (auto simp: absorb_entry_def decide_Some is_conflicted_def split: if_splits)
  then show ?thesis
  proof cases
    case 1
    then show ?thesis using supersede_ok [OF assms(2,3)] by simp
  next
    case 3
    then show ?thesis using assms(2,3) by (auto simp: entry_ok_def set_entry_contacts)
  qed (use assms(2) in auto)
qed

lemma absorb_ok:
  assumes "entries_ok P root loc limit es" and "stored P root c" and "absorb loc limit c es = Ok es'"
  shows "entries_ok P root loc limit es'"
proof -
  let ?n = "contact_node c"
  have es: "bt_ok es" "length es \<le> MAX_HIVE_MEMBERS - 1" "bt_get es loc = None"
    "\<And>n e. bt_get es n = Some e \<Longrightarrow> entry_ok limit n e \<and> (\<forall>c \<in> set (entry_contacts e). stored P root c)"
    using assms(1) by (auto simp: entries_ok_def)
  have n: "?n \<noteq> loc" using assms(3) by (auto simp: absorb_def split: if_splits)
  obtain e where es': "es' = bt_insert ?n e es" and e: "entry_ok limit ?n e" "\<forall>c \<in> set (entry_contacts e). stored P root c"
    and room: "bt_get es ?n = None \<Longrightarrow> length es < MAX_HIVE_MEMBERS - 1"
  proof (cases "bt_get es ?n")
    case None
    then show ?thesis using assms(2,3) n that [of "\<lparr>pe_current = c, pe_history = [], pe_conflict = None\<rparr>"]
      by (auto simp: absorb_def entry_ok_def set_entry_contacts split: if_splits)
  next
    case (Some e0)
    then obtain e where "absorb_entry limit c e0 = Ok e" "es' = bt_insert ?n e es"
      using assms(3) n by (auto simp: absorb_def result_simps)
    moreover from this(1) have "entry_ok limit ?n e \<and> set (entry_contacts e) \<subseteq> insert c (set (entry_contacts e0))"
      by (rule absorb_entry_ok) (use es(4) [OF Some] in auto)
    ultimately show ?thesis using that [of e] es(4) [OF Some] assms(2) Some by auto
  qed
  show ?thesis
    unfolding es' entries_ok_def using es e n room by (auto simp: bt_ok_insert length_bt_insert)
qed

section \<open>Replaying\<close>

fun replay_entries ::
  "prims \<Rightarrow> bytes32 \<Rightarrow> NodeId \<Rightarrow> nat \<Rightarrow> bytes list \<Rightarrow> (NodeId, PeerEntry) btree_map \<Rightarrow>
     PeerDirectoryError + (NodeId, PeerEntry) btree_map" where
  "replay_entries P root loc limit [] es = Ok es"
| "replay_entries P root loc limit (f # fs) es =
     rbind (map_err PeerDirectoryError.Contact (decode_contact P f)) (\<lambda>c.
     rbind (map_err PeerDirectoryError.Contact (verify_historical P c root)) (\<lambda>_.
     rbind (absorb loc limit c es) (replay_entries P root loc limit fs)))"

fun absorb_all :: "NodeId \<Rightarrow> PeerContact list \<Rightarrow> registers \<Rightarrow> PeerDirectoryError + registers" where
  "absorb_all loc [] rs = Ok rs"
| "absorb_all loc (c # cs) rs = rbind (absorb_registers loc c rs) (absorb_all loc cs)"

lemma replay_append:
  "replay_entries P root loc limit (fs @ gs) es =
     rbind (replay_entries P root loc limit fs es) (replay_entries P root loc limit gs)"
  by (induction fs arbitrary: es) (simp_all add: rbind_def split: sum.splits)

lemma absorb_all_append: "absorb_all loc (cs @ ds) rs = rbind (absorb_all loc cs rs) (absorb_all loc ds)"
  by (induction cs arbitrary: rs) (simp_all add: rbind_def split: sum.splits)

lemma absorb_bt_ok: "absorb loc limit c es = Ok es' \<Longrightarrow> bt_ok es \<Longrightarrow> bt_ok es'"
  by (auto simp: absorb_def result_simps bt_ok_insert split: if_splits option.splits)

text \<open>The replay of the program is the replay of the entries.\<close>

lemma replay_contacts_entries:
  assumes "bt_ok (pd_entries D)"
  shows "\<exists>D'. replay_contacts P fs D d =
    (case replay_entries P (pd_root_key D) (pd_local_node D) (pd_history_address_limit D) fs (pd_entries D) of
       Inl e \<Rightarrow> (Err e, D', d)
     | Inr es \<Rightarrow> (Ok (), D\<lparr>pd_entries := es\<rparr>, d))"
  using assms
proof (induction fs arbitrary: D)
  case Nil
  then show ?case by (simp add: so_run)
next
  case (Cons f fs)
  show ?case
  proof (cases "\<exists>c. decode_contact P f = Ok c \<and> verify_historical P c (pd_root_key D) = Ok ()")
    case False
    then show ?thesis
      by (cases "decode_contact P f"; cases "verify_historical P (projr (decode_contact P f)) (pd_root_key D)")
        (auto simp: so_bind_lift so_run)
  next
    case True
    then obtain c where c: "decode_contact P f = Ok c" "verify_historical P c (pd_root_key D) = Ok ()" by blast
    obtain x where run: "apply_contact P c False D d =
        (case absorb (pd_local_node D) (pd_history_address_limit D) c (pd_entries D) of
           Inl e \<Rightarrow> (Err e, D, d) | Inr es \<Rightarrow> (Ok x, D\<lparr>pd_entries := es\<rparr>, d))"
      using apply_quiet [OF Cons.prems] by blast
    have step: "replay_contacts P (f # fs) D d = so_bind (apply_contact P c False) (\<lambda>_. replay_contacts P fs) D d"
      using c by simp
    show ?thesis
    proof (cases "absorb (pd_local_node D) (pd_history_address_limit D) c (pd_entries D)")
      case (Inl e)
      then show ?thesis using c run unfolding step by (simp add: so_bind_def)
    next
      case (Inr es)
      then show ?thesis
        using c run Cons.IH [of "D\<lparr>pd_entries := es\<rparr>"] absorb_bt_ok [OF Inr Cons.prems]
        unfolding step by (auto simp: so_bind_def split: sum.splits)
    qed
  qed
qed

section \<open>The frames of a compaction\<close>

text \<open>A peer's contacts, oldest first, make up its register.\<close>

lemma absorb_chain:
  assumes "cs \<noteq> []" and "sorted_wrt (\<lambda>a b. sequence_of a < sequence_of b) cs"
    and "\<forall>c \<in> set cs. contact_node c = n \<and> generation_of c = g" and "n \<noteq> loc" and "rs n = None"
    and "card (dom rs) < MAX_HIVE_MEMBERS - 1"
  shows "absorb_all loc cs rs = Ok (rs(n \<mapsto> (last cs, None)))"
  using assms
proof (induction cs rule: rev_induct)
  case (snoc c cs)
  show ?case
  proof (cases "cs = []")
    case True
    then show ?thesis using snoc.prems by (auto simp: absorb_registers_def fun_eq_iff)
  next
    case False
    then have "absorb_all loc cs rs = Ok (rs(n \<mapsto> (last cs, None)))"
      by (intro snoc.IH) (use snoc.prems in \<open>auto simp: sorted_wrt_append\<close>)
    moreover have "sequence_of (last cs) < sequence_of c" "generation_of (last cs) = g" "contact_node c = n" "generation_of c = g"
      using False snoc.prems last_in_set [OF False] by (auto simp: sorted_wrt_append)
    ultimately show ?thesis
      using snoc.prems(4) by (auto simp: absorb_all_append absorb_registers_def absorb_register_def fun_eq_iff)
  qed
qed simp

lemma absorb_entry_contacts:
  assumes "entry_ok limit n e" and "n \<noteq> loc" and "rs n = None" and "card (dom rs) < MAX_HIVE_MEMBERS - 1"
  shows "absorb_all loc (entry_contacts e) rs = Ok (rs(n \<mapsto> (pe_current e, pe_conflict e)))"
proof -
  let ?cs = "rev (pe_history e) @ [pe_current e]"
  have nodes: "\<forall>c \<in> set ?cs. contact_node c = n \<and> generation_of c = generation_of (pe_current e)"
    using assms(1) by (auto simp: entry_ok_def set_entry_contacts)
  have "sorted_wrt (\<lambda>a b. sequence_of a < sequence_of b) ?cs"
    using assms(1) by (auto simp: entry_ok_def sorted_wrt_append sorted_wrt_rev)
  then have chain: "absorb_all loc ?cs rs = Ok (rs(n \<mapsto> (pe_current e, None)))"
    using absorb_chain [OF _ _ nodes assms(2-4)] by simp
  show ?thesis
  proof (cases "pe_conflict e")
    case None
    then show ?thesis using chain by (simp add: entry_contacts_def)
  next
    case (Some x)
    then have "contact_node x = n" "generation_of x = generation_of (pe_current e)" "sequence_of x = sequence_of (pe_current e)"
      "pc_endpoint x \<noteq> pc_endpoint (pe_current e)"
      using assms(1) by (auto simp: entry_ok_def set_entry_contacts)
    then have "absorb_registers loc x (rs(n \<mapsto> (pe_current e, None))) = Ok (rs(n \<mapsto> (pe_current e, Some x)))"
      using assms(2) by (simp add: absorb_registers_def absorb_register_def)
    moreover have "entry_contacts e = ?cs @ [x]" using Some by (simp add: entry_contacts_def)
    ultimately show ?thesis
      using chain Some by (simp only: absorb_all_append [of loc ?cs "[x]"]) simp
  qed
qed

definition canonical_contacts :: "(NodeId, PeerEntry) btree_map \<Rightarrow> PeerContact list" where
  "canonical_contacts es = concat (map entry_contacts (bt_values es))"

lemma absorb_canonical:
  assumes "distinct (map fst es)" and "\<forall>(n, e) \<in> set es. entry_ok limit n e \<and> n \<noteq> loc" and "length es \<le> MAX_HIVE_MEMBERS - 1"
  shows "absorb_all loc (canonical_contacts es) Map.empty = Ok (registers_of es)"
  using assms
proof (induction es rule: rev_induct)
  case Nil
  then show ?case by (simp add: canonical_contacts_def bt_values_def registers_of_def fun_eq_iff)
next
  case (snoc p es)
  obtain n e where p: "p = (n, e)" by (cases p)
  have fresh: "n \<notin> set (map fst es)" and dist: "distinct (map fst es)" using snoc.prems(1) p by simp_all
  have "registers_of es n = None" using fresh dom_registers [of es] by (auto simp: domIff)
  moreover have "card (dom (registers_of es)) = length es"
    using distinct_card [OF dist] by (simp add: dom_registers)
  moreover have "registers_of (es @ [p]) = (registers_of es)(n \<mapsto> (pe_current e, pe_conflict e))"
    using fresh p by (auto simp: registers_of_def bt_get_def map_add_def fun_eq_iff map_of_eq_None_iff [symmetric] split: option.splits)
  moreover have "absorb_all loc (canonical_contacts es) Map.empty = Ok (registers_of es)"
    using snoc by simp
  ultimately show ?case
    using snoc.prems(2,3) p absorb_entry_contacts [of limit n e loc "registers_of es"]
    by (auto simp: canonical_contacts_def bt_values_def absorb_all_append)
qed

context minicbor
begin

text \<open>Frames that encode stored contacts replay as the registers absorb the contacts.\<close>

lemma replay_encoded:
  assumes "list_all2 (\<lambda>c f. encode_contact P c = Ok f \<and> stored P root c) cs fs" and "bt_ok es"
  shows "map_sum id registers_of (replay_entries P root loc limit fs es) = absorb_all loc cs (registers_of es)"
  using assms
proof (induction cs fs arbitrary: es rule: list_all2_induct)
  case (Cons c cs f fs)
  then have "decode_contact P f = Ok c" "verify_historical P c root = Ok ()"
    by (auto simp: stored_def intro: decode_encode_contact)
  then show ?case
    using Cons absorb_refines [OF Cons.prems, of loc limit c, symmetric] absorb_bt_ok [of loc limit c es]
    by (cases "absorb loc limit c es") auto
qed simp

end

end
