(* ===== verification/Peer_Durability.thy ===== *)
theory Peer_Durability
  imports Peer_Merge Journal_Durability
begin

text \<open>
  The directory in memory against its journal: the registers are those its durable frames replay to,
  while pages are imported under any faults, after a power loss, and when the directory opens.
\<close>

section \<open>What is filed\<close>

definition filed :: "prims \<Rightarrow> u32 \<Rightarrow> PeerDirectory \<Rightarrow> bytes list \<Rightarrow> slots \<Rightarrow> bool" where
  "filed P u D fs c \<longleftrightarrow>
     durable P u fs c \<and> pd_journal D = Some (handle_of P fs) \<and>
     entries_ok P (pd_root_key D) (pd_local_node D) (pd_history_address_limit D) (pd_entries D) \<and>
     (\<exists>es. replay_entries P (pd_root_key D) (pd_local_node D) (pd_history_address_limit D) fs [] = Ok es \<and>
        registers_of es = registers_of (pd_entries D))"

lemma verified_historical:
  assumes "verify_contact P c root now = Ok ()"
  shows "verify_historical P c root = Ok ()"
proof -
  let ?r = "contact_record c" and ?m = "sm_certificate (pc_membership c)"
  have ok: "verify_authorized P (pc_endpoint c) (pc_membership c) root now = Ok ()"
    using assms by (simp add: verify_contact_Ok)
  then have "endpoint_validate_shape ?r = Ok ()"
    by (auto simp: verify_authorized_Ok verify_endpoint_Ok endpoint_wf_def)
  then have "er_issued_at ?r < er_expires_at ?r" by (rule endpoint_shape_Ok)
  moreover have "er_expires_at ?r \<le> mc_expires_at ?m" using ok by (simp add: verify_authorized_Ok)
  moreover have "er_issued_at ?r \<le> saturating_add (er_issued_at ?r) MAX_FUTURE_SKEW_SECONDS"
    using unat_saturating_add [of "er_issued_at ?r" MAX_FUTURE_SKEW_SECONDS] unat_less [of "er_issued_at ?r"]
    by (simp add: word_le_nat_alt)
  ultimately have "membership_validate_time ?m (er_issued_at ?r) = Ok ()" "endpoint_validate_time ?r (er_issued_at ?r) = Ok ()"
    by (auto simp: membership_validate_time_def endpoint_validate_time_def)
  then show ?thesis
    using ok unfolding verify_historical_def verify_contact_Ok verify_authorized_Ok by simp
qed

section \<open>The contacts of a page\<close>

lemma coalesce_props: "set (coalesce vs c) \<subseteq> insert c (set vs)" "length vs \<le> 2 \<Longrightarrow> length (coalesce vs c) \<le> 2"
  by (auto simp: coalesce_def split: list.splits if_splits)

definition admissible :: "prims \<Rightarrow> PeerDirectory \<Rightarrow> u64 \<Rightarrow> PeerContact \<Rightarrow> bool" where
  "admissible P D now c \<longleftrightarrow> verify_contact P c (pd_root_key D) now = Ok () \<and>
     \<not> revocation_contains (pd_revocations D) (contact_node c) \<and> contact_node c \<noteq> pd_local_node D"

definition page_ok :: "prims \<Rightarrow> PeerDirectory \<Rightarrow> u64 \<Rightarrow> PeerContact set \<Rightarrow> nat \<Rightarrow> (NodeId, PeerContact list) btree_map \<Rightarrow> bool" where
  "page_ok P D now S k m \<longleftrightarrow> bt_ok m \<and> length m \<le> k \<and>
     (\<forall>n vs. bt_get m n = Some vs \<longrightarrow> length vs \<le> 2 \<and> set vs \<subseteq> {c \<in> S. admissible P D now c})"

lemma page_ok_insert:
  assumes "page_ok P D now S k m" and "length vs \<le> 2" and "set vs \<subseteq> {c \<in> S. admissible P D now c}"
  shows "page_ok P D now S (Suc k) (bt_insert n vs m)"
  using assms unfolding page_ok_def by (simp add: bt_ok_insert length_bt_insert)

lemma page_ok_step:
  assumes "page_ok P D now S k m" and "c \<in> S"
  shows "page_ok P D now S (Suc k) (let node_id = contact_node c in
    if node_id = pd_local_node D \<or> revocation_contains (pd_revocations D) node_id
      \<or> \<not> is_ok (verify_contact P c (pd_root_key D) now)
    then m
    else bt_insert node_id (coalesce (case bt_get m node_id of None \<Rightarrow> [] | Some values \<Rightarrow> values) c) m)"
proof -
  define vs where "vs = (case bt_get m (contact_node c) of None \<Rightarrow> [] | Some values \<Rightarrow> values)"
  have vs: "length vs \<le> 2" "set vs \<subseteq> {c \<in> S. admissible P D now c}"
    using assms(1) unfolding vs_def by (cases "bt_get m (contact_node c)"; auto simp: page_ok_def)+
  show ?thesis
  proof (cases "admissible P D now c")
    case True
    then have "page_ok P D now S (Suc k) (bt_insert (contact_node c) (coalesce vs c) m)"
      using assms(2) vs coalesce_props [of vs c] by (intro page_ok_insert [OF assms(1)]) auto
    then show ?thesis using True by (simp add: admissible_def vs_def Let_def)
  next
    case False
    then show ?thesis using assms(1) by (auto simp: Let_def admissible_def page_ok_def is_ok_iff)
  qed
qed

lemma page_ok_fold:
  assumes "page_ok P D now S k m" and "set cs \<subseteq> S"
  shows "page_ok P D now S (k + length cs) (fold (\<lambda>contact newest.
       let node_id = contact_node contact in
       if node_id = pd_local_node D \<or> revocation_contains (pd_revocations D) node_id
         \<or> \<not> is_ok (verify_contact P contact (pd_root_key D) now)
       then newest
       else bt_insert node_id
         (coalesce (case bt_get newest node_id of None \<Rightarrow> [] | Some values \<Rightarrow> values) contact) newest) cs m)"
  using assms
proof (induction cs arbitrary: m k)
  case (Cons c cs)
  show ?case using Cons.IH [OF page_ok_step [OF Cons.prems(1), of c]] Cons.prems(2) by simp
qed simp

lemma coalesced_props:
  "length (coalesced_candidates P D contacts now) \<le> 18"
  "set (coalesced_candidates P D contacts now) \<subseteq> {c \<in> set contacts. admissible P D now c}"
proof -
  let ?cs = "take (MAX_PAGE_CONTACTS + 1) contacts"
  have "page_ok P D now (set ?cs) 0 []" by (simp add: page_ok_def)
  note folded = page_ok_fold [OF this subset_refl]
  obtain m where m: "coalesced_candidates P D contacts now = concat (bt_values m)" "page_ok P D now (set ?cs) (length ?cs) m"
    using folded that [of "fold _ _ _"] by (simp add: coalesced_candidates_def)
  have each: "length vs \<le> 2 \<and> set vs \<subseteq> {c \<in> set ?cs. admissible P D now c}" if "vs \<in> set (bt_values m)" for vs
    using m(2) that in_bt_values [of m vs] by (auto simp: page_ok_def)
  have "length (concat (bt_values m)) \<le> sum_list (map (\<lambda>_. 2) (bt_values m))"
    unfolding length_concat by (rule sum_list_mono) (use each in auto)
  also have "\<dots> \<le> 18"
    using m(2) by (simp add: sum_list_triv bt_values_def page_ok_def MAX_PAGE_CONTACTS_def comp_def)
  finally show "length (coalesced_candidates P D contacts now) \<le> 18" using m by simp
  show "set (coalesced_candidates P D contacts now) \<subseteq> {c \<in> set contacts. admissible P D now c}"
    using each m(1) by (auto dest: in_set_takeD)
qed

text \<open>
  The registers after a page: its contacts are absorbed one by one, and one that is refused is skipped.
  The preview changes the entries in this way, and absorbing only the accepted contacts has the same effect.
\<close>

definition absorb_each :: "NodeId \<Rightarrow> PeerContact list \<Rightarrow> registers \<Rightarrow> registers" where
  "absorb_each loc cs rs = fold (\<lambda>c rs. case absorb_registers loc c rs of Inl _ \<Rightarrow> rs | Inr rs \<Rightarrow> rs) cs rs"

lemma preview_props:
  assumes "preview_contacts P cs D d = (accepted, D')"
    and "entries_ok P root (pd_local_node D) (pd_history_address_limit D) (pd_entries D)" and "\<forall>c \<in> set cs. stored P root c"
  shows "\<exists>es. D' = D\<lparr>pd_entries := es\<rparr> \<and> entries_ok P root (pd_local_node D) (pd_history_address_limit D) es \<and>
    subseq accepted cs \<and> absorb_all (pd_local_node D) accepted (registers_of (pd_entries D)) = Ok (registers_of es) \<and>
    registers_of es = absorb_each (pd_local_node D) cs (registers_of (pd_entries D))"
  using assms
proof (induction cs arbitrary: D accepted)
  case Nil
  then show ?case by (auto simp: absorb_each_def intro!: exI [of _ "pd_entries D"])
next
  case (Cons c cs)
  let ?loc = "pd_local_node D" and ?limit = "pd_history_address_limit D"
  have bt: "bt_ok (pd_entries D)" using Cons.prems(2) by (simp add: entries_ok_def)
  obtain x where run: "apply_contact P c False D d = (case absorb ?loc ?limit c (pd_entries D) of
      Inl e \<Rightarrow> (Err e, D, d) | Inr es \<Rightarrow> (Ok x, D\<lparr>pd_entries := es\<rparr>, d))"
    using apply_quiet [OF bt] by blast
  obtain es0 where after: "\<exists>r. apply_contact P c False D d = (r, D\<lparr>pd_entries := es0\<rparr>, d)"
    and es0: "es0 = pd_entries D \<or> absorb ?loc ?limit c (pd_entries D) = Ok es0"
    and eff: "registers_of es0 = (case absorb_registers ?loc c (registers_of (pd_entries D)) of
      Inl _ \<Rightarrow> registers_of (pd_entries D) | Inr rs \<Rightarrow> rs)"
    using run absorb_refines [OF bt, of ?loc ?limit c, symmetric]
    by (cases "absorb ?loc ?limit c (pd_entries D)") (auto intro: that [of "pd_entries D"])
  have ok0: "entries_ok P root ?loc ?limit es0"
    using es0 absorb_ok [OF Cons.prems(2)] Cons.prems(2,3) by auto
  have step: "absorb_registers ?loc c (registers_of (pd_entries D)) = Ok (registers_of es0)" if "es0 \<noteq> pd_entries D"
    using es0 that absorb_refines [OF bt, of ?loc ?limit c] by simp
  obtain more where rest: "preview_contacts P cs (D\<lparr>pd_entries := es0\<rparr>) d = (more, D')"
    and acc: "accepted = (if es0 \<noteq> pd_entries D then c # more else more)"
    using Cons.prems(1) after by (auto split: prod.splits)
  obtain es where es: "D' = D\<lparr>pd_entries := es\<rparr>" "entries_ok P root ?loc ?limit es" "subseq more cs"
    "absorb_all ?loc more (registers_of es0) = Ok (registers_of es)" "registers_of es = absorb_each ?loc cs (registers_of es0)"
    using Cons.IH [OF rest] ok0 Cons.prems(3) by auto
  have "absorb_each ?loc (c # cs) (registers_of (pd_entries D)) = absorb_each ?loc cs (registers_of es0)"
    by (simp add: absorb_each_def eff)
  moreover have "absorb_all ?loc accepted (registers_of (pd_entries D)) = Ok (registers_of es)"
    using acc step es(4) by (cases "es0 = pd_entries D") simp_all
  moreover have "subseq accepted (c # cs)" using acc es(3) by (auto intro: list_emb_Cons)
  ultimately show ?case using es by (intro exI [of _ es]) simp
qed

section \<open>Writing a page\<close>

lemma sspec_directory_mut:
  assumes "pd_journal D = Some j" and "sspec s u D I (f j) Q E"
  shows "sspec s u D I (so_bind directory_journal_mut f) Q E"
proof -
  have "so_bind directory_journal_mut f D d = f j D d" for d
    using assms(1) by (simp add: directory_journal_mut_def so_bind_def so_get_def so_lift_def)
  then show ?thesis using assms(2) by (simp add: sspec_def)
qed

lemma sspec_below_threshold:
  assumes "pd_journal D = Some (handle_of P fs)" and "length (journal_image P fs) < 8388608"
  shows "sspec True u D (durable P u fs) (directory_compact_if_needed P)
    (\<lambda>_ D' c. D' = D \<and> durable P u fs c) (\<lambda>D' c. D' = D \<and> durable P u fs c)"
proof -
  have bound: "unat PEER_COMPACTION_THRESHOLD_BYTES = 8388608" by (simp add: PEER_COMPACTION_THRESHOLD_BYTES_def)
  show ?thesis
    unfolding directory_compact_if_needed_def bound
    by (intro sspec_directory_mut [OF assms(1)] sspec_attempt [OF spec_byte_len [where I = "durable P u fs" and E = "durable P u fs"]])
      (use assms(2) in \<open>auto simp: durable_bytes sspec_def so_run\<close>)
qed

lemma sspec_directory_append:
  assumes "pd_journal D = Some (handle_of P fs)" and "frames_ok P (fs @ ps)"
  shows "sspec True u D (durable P u fs) (directory_append P (journal_append_batch P ps))
    (\<lambda>_ D' c. D' = D\<lparr>pd_journal := Some (handle_of P (fs @ ps))\<rparr> \<and> durable P u (fs @ ps) c)
    (\<lambda>D' c. D' = D \<and> recovers P u {fs, fs @ ps} c)" (is "sspec True u D _ _ ?Q ?E")
  unfolding directory_append_def
proof (rule sspec_directory_mut [OF assms(1)], rule sspec_attempt)
  show "spec True u (durable P u fs) (journal_append_batch P ps (handle_of P fs))
      (\<lambda>y c. y = handle_of P (fs @ ps) \<and> durable P u (fs @ ps) c) (recovers P u {fs, fs @ ps})"
    using spec_append_batch [of P fs ps u] assms(2) by simp
next
  fix e d d' assume "durable P u fs (dk_cells d)" "journal_append_batch P ps (handle_of P fs) d = (Inl e, d')"
  then have "e \<noteq> JournalFull" by (rule append_batch_not_full [OF _ assms(2)])
  then show "sspec False u D (recovers P u {fs, fs @ ps}) (case Inl e of
       Inr journal \<Rightarrow> so_modify (\<lambda>D. D\<lparr>pd_journal := Some journal\<rparr>)
     | Inl error \<Rightarrow>
         if error = JournalFull then
           so_bind (directory_compact P) (\<lambda>_.
           so_bind directory_journal_mut (\<lambda>journal.
           so_bind (so_attempt (journal_append_batch P ps journal)) (\<lambda>outcome.
             case outcome of
               Inr journal \<Rightarrow> so_modify (\<lambda>D. D\<lparr>pd_journal := Some journal\<rparr>)
             | Inl error \<Rightarrow> so_err (PeerDirectoryError.Journal error))))
         else so_err (PeerDirectoryError.Journal error)) ?Q ?E"
    by (auto intro!: sspec_err)
qed (auto intro!: sspec_modify)

definition reads_back :: "prims \<Rightarrow> PeerDirectory \<Rightarrow> bytes list \<Rightarrow> registers \<Rightarrow> bool" where
  "reads_back P D gs rs \<longleftrightarrow>
     (\<exists>es. replay_entries P (pd_root_key D) (pd_local_node D) (pd_history_address_limit D) gs [] = Ok es \<and>
        registers_of es = rs)"

lemma replay_bt_ok: "replay_entries P root loc limit fs es = Ok es' \<Longrightarrow> bt_ok es \<Longrightarrow> bt_ok es'"
  by (induction fs arbitrary: es) (auto simp: result_simps dest: absorb_bt_ok)

context minicbor
begin

lemma reads_back_append:
  assumes "reads_back P D fs rs" and "list_all2 (\<lambda>c f. encode_contact P c = Ok f \<and> stored P (pd_root_key D) c) cs ps"
    and "absorb_all (pd_local_node D) cs rs = Ok rs'"
  shows "reads_back P D (fs @ ps) rs'"
proof -
  obtain es where es: "replay_entries P (pd_root_key D) (pd_local_node D) (pd_history_address_limit D) fs [] = Ok es"
    "registers_of es = rs"
    using assms(1) by (auto simp: reads_back_def)
  show ?thesis
    using replay_encoded [OF assms(2) replay_bt_ok [OF es(1)], of "pd_local_node D" "pd_history_address_limit D"] assms(3) es
    by (cases "replay_entries P (pd_root_key D) (pd_local_node D) (pd_history_address_limit D) ps es")
      (auto simp: reads_back_def replay_append)
qed

lemma encode_stored:
  assumes "\<forall>c \<in> set cs. stored P root c"
  shows "\<exists>ps. try_map (encode_contact P) cs = Ok ps \<and> list_all2 (\<lambda>c f. encode_contact P c = Ok f \<and> stored P root c) cs ps \<and>
    length ps = length cs \<and> (\<forall>p \<in> set ps. p \<noteq> [] \<and> length p \<le> 1000)"
  using assms
proof (induction cs)
  case (Cons c cs)
  obtain p where "encode_contact P c = Ok p" "length p \<le> 1000"
    using encode_contact_ok Cons.prems by (auto simp: stored_def)
  moreover from this(1) have "p \<noteq> []"
    by (auto simp: encode_contact_def result_simps Let_def enc_array_nonempty split: if_splits)
  ultimately show ?case using Cons by fastforce
qed simp

lemma length_page:
  assumes "length ps \<le> 18" and "\<forall>p \<in> set ps. p \<noteq> [] \<and> length p \<le> 1000"
  shows "length (journal_image P (fs @ ps)) \<le> length (journal_image P fs) + 18648"
proof -
  have "sum_list (map (\<lambda>p. length p + 36) ps) \<le> sum_list (map (\<lambda>_. 1036) ps)"
    by (rule sum_list_mono) (use assms(2) in auto)
  then show ?thesis using assms(1) by (simp add: sum_list_triv length_journal_image)
qed

lemma frames_ok_page:
  assumes "frames_ok P fs" and "length (journal_image P fs) < 8388608" and "length ps \<le> 18"
    and "\<forall>p \<in> set ps. p \<noteq> [] \<and> length p \<le> 1000"
  shows "frames_ok P (fs @ ps)"
  using length_page [OF assms(3,4), of fs] assms
  by (fastforce simp: frames_ok_def payload_ok_def MAX_FRAME_BYTES_def MAX_JOURNAL_BYTES_def)

lemma sspec_page:
  assumes D: "filed P u D fs c0" and small: "length (journal_image P fs) < 8388608"
    and acc: "absorb_all (pd_local_node D) accepted (registers_of (pd_entries D)) = Ok (registers_of es)"
    and es: "entries_ok P (pd_root_key D) (pd_local_node D) (pd_history_address_limit D) es"
    and ps: "list_all2 (\<lambda>c f. encode_contact P c = Ok f \<and> stored P (pd_root_key D) c) accepted ps"
      "length ps \<le> 18" "\<forall>p \<in> set ps. p \<noteq> [] \<and> length p \<le> 1000"
  shows "sspec True u D (filed P u D fs)
    (so_bind (directory_compact_if_needed P) (\<lambda>_.
     so_bind (directory_append P (journal_append_batch P ps)) (\<lambda>_.
     so_bind (so_modify (\<lambda>D. D\<lparr>pd_entries := es\<rparr>)) (\<lambda>_. so_ok True))))
    (\<lambda>b D' c. b \<and> filed P u D' (fs @ ps) c \<and> D' = D\<lparr>pd_journal := Some (handle_of P (fs @ ps)), pd_entries := es\<rparr>)
    (\<lambda>D' c. D' = D \<and> recovers P u {fs, fs @ ps} c)" (is "sspec True u D _ _ ?Q ?E")
proof -
  have j: "pd_journal D = Some (handle_of P fs)" and fs: "frames_ok P fs" and old: "reads_back P D fs (registers_of (pd_entries D))"
    using D by (auto simp: filed_def durable_def reads_back_def)
  have "reads_back P D (fs @ ps) (registers_of es)" by (rule reads_back_append [OF old ps(1) acc])
  then have new: "filed P u (D\<lparr>pd_journal := Some (handle_of P (fs @ ps)), pd_entries := es\<rparr>) (fs @ ps) c"
    if "durable P u (fs @ ps) c" for c
    using that es by (simp add: filed_def reads_back_def)
  let ?store = "so_bind (so_modify (\<lambda>D. D\<lparr>pd_entries := es\<rparr>)) (\<lambda>_. so_ok True) :: bool dir_op"
  have store: "sspec True u D' (\<lambda>c. D' = D\<lparr>pd_journal := Some (handle_of P (fs @ ps))\<rparr> \<and> durable P u (fs @ ps) c) ?store ?Q ?E" for D'
    by (rule sspec_pure) (use new in \<open>auto intro!: sspec_bind_modify sspec_ok\<close>)
  have rest: "sspec True u D' (\<lambda>c. D' = D \<and> durable P u fs c)
      (so_bind (directory_append P (journal_append_batch P ps)) (\<lambda>_. ?store)) ?Q ?E" for D'
  proof (rule sspec_pure)
    assume "D' = D"
    then show "sspec True u D' (durable P u fs) (so_bind (directory_append P (journal_append_batch P ps)) (\<lambda>_. ?store)) ?Q ?E"
      using sspec_bind [OF sspec_directory_append [OF j frames_ok_page [OF fs small ps(2,3)]] store] by simp
  qed
  have "sspec True u D (durable P u fs) (directory_compact_if_needed P) (\<lambda>_ D' c. D' = D \<and> durable P u fs c) ?E"
    by (rule sspec_weaken [OF sspec_below_threshold [OF j small]]) (use durable_recovers recovers_mono in blast)+
  from sspec_bind [OF this rest] show ?thesis
    by (rule sspec_weaken) (auto simp: filed_def)
qed

text \<open>A page leaves the registers it should, or fails and leaves the old ones in memory and either on disk.\<close>

lemma page_outcome:
  assumes "filed P u D fs (dk_cells d)" and "dk_uid d = u" and "\<forall>c \<in> set contacts. contact_wf P c"
    and "length (journal_image P fs) < 8388608" and run: "import_page P contacts now D d = (r, D', d')"
    and rs: "rs = absorb_each (pd_local_node D) (coalesced_candidates P D contacts now) (registers_of (pd_entries D))"
  shows "(case r of
      Inr _ \<Rightarrow> registers_of (pd_entries D') = rs \<and>
        (\<exists>gs. filed P u D' gs (dk_cells d') \<and> length (journal_image P gs) \<le> length (journal_image P fs) + 18648) \<and>
        D' = D\<lparr>pd_journal := pd_journal D', pd_entries := pd_entries D'\<rparr>
    | Inl _ \<Rightarrow> D' = D \<and> (\<exists>gs. recovers P u {fs, gs} (dk_cells d') \<and> reads_back P D gs rs))
    \<and> dk_uid d' = u \<and> (dk_faults d = [] \<longrightarrow> is_ok r \<and> dk_faults d' = [])"
proof -
  let ?cs = "coalesced_candidates P D contacts now" and ?root = "pd_root_key D"
  obtain accepted D2 where preview: "preview_contacts P ?cs (page_preview D) d = (accepted, D2)"
    by (cases "preview_contacts P ?cs (page_preview D) d")
  have "verify_historical P c ?root = Ok () \<and> contact_wf P c" if "c \<in> set ?cs" for c
    using coalesced_props(2) [of P D contacts now] that assms(3) verified_historical by (auto simp: admissible_def)
  then have stored: "\<forall>c \<in> set ?cs. stored P ?root c" by (simp add: stored_def)
  have D: "entries_ok P ?root (pd_local_node D) (pd_history_address_limit D) (pd_entries D)"
    using assms(1) by (simp add: filed_def)
  obtain es where es: "pd_entries D2 = es" "entries_ok P ?root (pd_local_node D) (pd_history_address_limit D) es"
    "subseq accepted ?cs" "absorb_all (pd_local_node D) accepted (registers_of (pd_entries D)) = Ok (registers_of es)"
    "registers_of es = rs"
    using preview_props [OF preview _ stored] D rs by (auto simp: page_preview_def)
  show ?thesis
  proof (cases "accepted = []")
    case True
    then have "(r, D', d') = (Ok False, D, d)" using run preview by (simp add: import_page_def Let_def split: if_splits)
    then show ?thesis using True es assms(1,2) by auto
  next
    case False
    have "set accepted \<subseteq> set ?cs" "length accepted \<le> 18"
      using es(3) coalesced_props(1) [of P D contacts now] list_emb_length [OF es(3)] subseq_keeps [OF es(3)] by auto
    moreover from this(1) have "\<forall>c \<in> set accepted. stored P ?root c" using stored by blast
    ultimately obtain ps where ps: "try_map (encode_contact P) accepted = Ok ps"
      "list_all2 (\<lambda>c f. encode_contact P c = Ok f \<and> stored P ?root c) accepted ps"
      "length ps \<le> 18" "\<forall>p \<in> set ps. p \<noteq> [] \<and> length p \<le> 1000"
      using encode_stored [of accepted ?root] by auto
    note spec = sspec_page [OF assms(1,4) es(4,2) ps(2-4)]
    have "so_bind (directory_compact_if_needed P) (\<lambda>_.
        so_bind (directory_append P (journal_append_batch P ps)) (\<lambda>_.
        so_bind (so_modify (\<lambda>D. D\<lparr>pd_entries := es\<rparr>)) (\<lambda>_. so_ok True))) D d = (r, D', d')"
      using run preview False ps(1) es(1,3) by (auto simp: import_page_def Let_def split: if_splits)
    from sspecD [OF spec assms(2,1) this] show ?thesis
      using reads_back_append [OF _ ps(2) es(4), of fs] assms(1) es(5) length_page [OF ps(3,4), of fs]
      by (cases r) (auto simp: filed_def reads_back_def)
  qed
qed

end

section \<open>Compacting and opening\<close>

lemma try_map_all2: "try_map f xs = Inr ys \<longleftrightarrow> list_all2 (\<lambda>x y. f x = Inr y) xs ys"
  by (induction xs arbitrary: ys) (auto simp: result_simps list_all2_Cons1)

lemma canonical_count: "canonical_frame_count D = length (canonical_contacts (pd_entries D))"
proof -
  have "fold (\<lambda>e n. n + 1 + length (pe_history e) + (if pe_conflict e \<noteq> None then 1 else 0)) xs n =
      n + length (concat (map entry_contacts xs))" for xs :: "PeerEntry list" and n
    by (induction xs arbitrary: n) (auto simp: entry_contacts_def split: option.splits)
  then show ?thesis by (simp add: canonical_frame_count_def canonical_contacts_def)
qed

lemma replay_entries_ok:
  assumes "replay_entries P root loc limit fs es = Ok es'" and "entries_ok P root loc limit es"
  shows "entries_ok P root loc limit es'"
  using assms
proof (induction fs arbitrary: es)
  case (Cons f fs)
  then obtain c es1 where c: "decode_contact P f = Ok c" "verify_historical P c root = Ok ()"
    "absorb loc limit c es = Ok es1" "replay_entries P root loc limit fs es1 = Ok es'"
    by (auto simp: result_simps)
  then have "stored P root c" using decode_contact_canonical by (simp add: stored_def)
  then show ?case using Cons.IH [OF c(4)] absorb_ok [OF Cons.prems(2) _ c(3)] by blast
qed simp

lemma length_canonical:
  assumes "entries_ok P root loc limit es"
  shows "length (canonical_contacts es) \<le> 255 * (limit + 2)"
proof -
  have "length (entry_contacts e) \<le> limit + 2" if e: "e \<in> set (bt_values es)" for e
  proof -
    have "bt_ok es" using assms by (simp add: entries_ok_def)
    then obtain n where "bt_get es n = Some e" using e by (auto simp: in_bt_values)
    then have "entry_ok limit n e" using assms by (simp add: entries_ok_def)
    then have "length (pe_history e) \<le> limit" by (simp add: entry_ok_def)
    then show ?thesis by (simp add: entry_contacts_def split: option.splits)
  qed
  then have "length (canonical_contacts es) \<le> sum_list (map (\<lambda>_. limit + 2) (bt_values es))"
    unfolding canonical_contacts_def length_concat by (auto intro: sum_list_mono)
  also have "\<dots> \<le> 255 * (limit + 2)"
    using assms by (simp add: sum_list_triv bt_values_def comp_def entries_ok_def MAX_HIVE_MEMBERS_def mult_le_mono1 del: mult_Suc_right)
  finally show ?thesis .
qed

context minicbor
begin

lemma canonical_fits:
  assumes "entries_ok P (pd_root_key D) (pd_local_node D) (pd_history_address_limit D) (pd_entries D)"
    and "pd_history_address_limit D \<le> 61"
  shows "\<exists>cs. canonical_frames P D = Ok cs \<and> frames_ok P cs \<and> reads_back P D cs (registers_of (pd_entries D))"
proof -
  let ?es = "pd_entries D" and ?loc = "pd_local_node D" and ?root = "pd_root_key D"
  have ok: "bt_ok ?es" "length ?es \<le> MAX_HIVE_MEMBERS - 1" "bt_get ?es ?loc = None"
    "\<And>n e. bt_get ?es n = Some e \<Longrightarrow> entry_ok (pd_history_address_limit D) n e \<and> (\<forall>c \<in> set (entry_contacts e). stored P ?root c)"
    using assms(1) by (auto simp: entries_ok_def)
  have "\<forall>c \<in> set (canonical_contacts ?es). stored P ?root c"
    using ok(4) in_bt_values [OF ok(1)] by (fastforce simp: canonical_contacts_def)
  then obtain cs where cs: "list_all2 (\<lambda>c f. encode_contact P c = Ok f \<and> stored P ?root c) (canonical_contacts ?es) cs"
    "length cs = length (canonical_contacts ?es)" "\<forall>p \<in> set cs. p \<noteq> [] \<and> length p \<le> 1000"
    using encode_stored by blast
  have "canonical_frames P D = Ok cs"
    unfolding canonical_frames_def canonical_contacts_def [symmetric] try_map_all2
    using cs(1) by (rule list_all2_mono) simp
  moreover have "frames_ok P cs"
  proof -
    have "sum_list (map (\<lambda>p. length p + 36) cs) \<le> sum_list (map (\<lambda>_. 1036) cs)"
      by (rule sum_list_mono) (use cs(3) in auto)
    moreover have "length cs \<le> 255 * 63"
      using length_canonical [OF assms(1)] cs(2) assms(2) by simp
    ultimately show ?thesis
      using cs(3) by (fastforce simp: frames_ok_def payload_ok_def MAX_FRAME_BYTES_def length_journal_image MAX_JOURNAL_BYTES_def sum_list_triv)
  qed
  moreover have "absorb_all ?loc (canonical_contacts ?es) Map.empty = Ok (registers_of ?es)"
  proof (rule absorb_canonical [where limit = "pd_history_address_limit D"])
    show "\<forall>(n, e) \<in> set ?es. entry_ok (pd_history_address_limit D) n e \<and> n \<noteq> ?loc"
      using ok(3,4) by (auto simp flip: bt_get_mem [OF ok(1)])
  qed (use ok(2) bt.keys_distinct [OF ok(1)] in auto)
  then have "reads_back P D cs (registers_of ?es)"
    using reads_back_append [of D "[]" Map.empty "canonical_contacts ?es" cs] cs(1)
    by (simp add: reads_back_def registers_of_def fun_eq_iff)
  ultimately show ?thesis by blast
qed

lemma sspec_directory_compact:
  assumes "filed P u D fs c0" and "pd_history_address_limit D \<le> 61"
  shows "sspec True u D (filed P u D fs) (directory_compact P)
    (\<lambda>_ D' c. (\<exists>gs. filed P u D' gs c) \<and> pd_entries D' = pd_entries D)
    (\<lambda>D' c. D' = D \<and> (\<exists>gs. compaction_leaves P u fs gs c \<and> reads_back P D gs (registers_of (pd_entries D))))"
    (is "sspec True u D _ _ ?Q ?E")
proof -
  have j: "pd_journal D = Some (handle_of P fs)" and ok: "entries_ok P (pd_root_key D) (pd_local_node D) (pd_history_address_limit D) (pd_entries D)"
    using assms(1) by (simp_all add: filed_def)
  obtain cs where cs: "canonical_frames P D = Ok cs" "frames_ok P cs" "reads_back P D cs (registers_of (pd_entries D))"
    using canonical_fits [OF ok assms(2)] by blast
  let ?rest = "\<lambda>outcome. case outcome of
         Inl error \<Rightarrow> so_err (PeerDirectoryError.Journal error)
       | Inr journal \<Rightarrow> so_modify (\<lambda>D. D\<lparr>pd_journal := Some journal\<rparr>)"
  have run: "directory_compact P D d = so_bind (so_attempt (journal_compact P cs (handle_of P fs))) ?rest D d" for d
    using j cs(1) by (simp add: directory_compact_def directory_journal_mut_def so_bind_lift so_bind_def so_get_def so_lift_def)
  have "spec True u (filed P u D fs) (journal_compact P cs (handle_of P fs))
      (\<lambda>y c. y = handle_of P cs \<and> durable P u cs c) (compaction_leaves P u fs cs)"
    by (rule spec_weaken [OF spec_compact [of P cs u fs, unfolded eqTrueI [OF cs(2)]]]) (auto simp: filed_def)
  then have "sspec True u D (filed P u D fs) (so_bind (so_attempt (journal_compact P cs (handle_of P fs))) ?rest) ?Q ?E"
  proof (rule sspec_attempt)
    show "sspec True u D (\<lambda>c. x = handle_of P cs \<and> durable P u cs c) (?rest (Inr x)) ?Q ?E" for x
      using ok cs(3) by (auto simp: filed_def reads_back_def intro!: sspec_modify)
    show "sspec False u D (compaction_leaves P u fs cs) (?rest (Inl e)) ?Q ?E" for e
      using cs(3) by (auto intro!: sspec_err)
  qed
  then show ?thesis by (simp add: sspec_def run)
qed

lemma sspec_open_compaction:
  assumes "filed P u D fs c0" and "pd_history_address_limit D \<le> 61"
  shows "sspec True u D (filed P u D fs)
    (if same then directory_compact_if_needed P else directory_compact P)
    (\<lambda>_ D' c. (\<exists>gs. filed P u D' gs c) \<and> pd_entries D' = pd_entries D) (\<lambda>_ _. True)" (is "sspec True u D _ _ ?Q ?E")
proof -
  have compact: "sspec True u D (filed P u D fs) (directory_compact P) ?Q ?E"
    by (rule sspec_weaken [OF sspec_directory_compact [OF assms]]) auto
  have j: "pd_journal D = Some (handle_of P fs)" using assms(1) by (simp add: filed_def)
  have "sspec True u D (filed P u D fs) (directory_compact_if_needed P) ?Q ?E"
    unfolding directory_compact_if_needed_def
  proof (intro sspec_directory_mut [OF j] sspec_attempt [OF spec_byte_len [where I = "filed P u D fs" and E = "\<lambda>_. True"]])
    fix n
    have "sspec True u D (\<lambda>c. n = length (journal_image P fs) \<and> filed P u D fs c) (directory_compact P) ?Q ?E"
      by (rule sspec_weaken [OF compact]) auto
    then show "sspec True u D (\<lambda>c. n = length (journal_image P fs) \<and> filed P u D fs c)
      (case Inr n of Inl error \<Rightarrow> so_err (PeerDirectoryError.Journal error)
        | Inr len \<Rightarrow> if unat PEER_COMPACTION_THRESHOLD_BYTES \<le> len then directory_compact P else so_ok ()) ?Q ?E"
      by (auto intro!: sspec_ok)
  qed (auto simp: filed_def durable_bytes intro!: sspec_err)
  then show ?thesis using compact by simp
qed

text \<open>Whatever a power loss left of a directory that recovers to frames with these registers, it opens with them.\<close>

lemma directory_opens:
  assumes "recoverable P u fs j h" and d: "dk_cells d = slots_of j h" "dk_uid d = u" "dk_faults d = []"
    and old: "reads_back P (directory_new root loc revocations limit None routes) fs rs"
    and "verify_revocations P revocations root = Ok ()" and "validate_history_limit limit = Ok ()" and "limit \<le> 61"
    and routes: "route_history_open P J loc limit False s = (Ok routes, s')"
  shows "\<exists>D' d'. open_with_history_limit P J (Ok ()) root loc revocations limit s d = (Ok D', s', d') \<and>
    registers_of (pd_entries D') = rs \<and> (\<exists>gs. filed P u D' gs (dk_cells d'))"
proof -
  obtain d1 where opened: "journal_open P d = (Ok (handle_of P fs, fs), d1)"
    and d1: "durable P u fs (dk_cells d1)" "dk_uid d1 = u" "dk_faults d1 = []"
    using open_recoverable [OF assms(1) d] by blast
  let ?D = "directory_new root loc revocations limit (Some (handle_of P fs)) routes"
  obtain es where es: "replay_entries P root loc limit fs [] = Ok es" "registers_of es = rs"
    using old by (auto simp: reads_back_def directory_new_def)
  let ?E = "?D\<lparr>pd_entries := es\<rparr>"
  have replayed: "replay_contacts P fs ?D d1 = (Ok (), ?E, d1)"
    using replay_contacts_entries [of ?D P fs d1] es(1) by (auto simp: directory_new_def)
  have "entries_ok P root loc limit []" by (simp add: entries_ok_def)
  then have filed: "filed P u ?E fs (dk_cells d1)"
    using d1(1) es replay_entries_ok [OF es(1)] by (auto simp: filed_def directory_new_def)
  let ?m = "if length fs = canonical_frame_count ?E then directory_compact_if_needed P else directory_compact P"
  obtain r D' d2 where run: "?m ?E d1 = (r, D', d2)" by (cases "?m ?E d1")
  have "outcome_ok True u (\<lambda>x c. (\<exists>gs. filed P u D' gs c) \<and> pd_entries D' = pd_entries ?E) (\<lambda>_. True) d1 (r, d2)"
    by (rule sspecD [OF sspec_open_compaction [OF filed] d1(2) filed run]) (use assms(8) in \<open>simp add: directory_new_def\<close>)
  then obtain x where "r = Ok x" "\<exists>gs. filed P u D' gs (dk_cells d2)" "pd_entries D' = es"
    using d1(3) by (cases r) (auto simp: directory_new_def)
  moreover from this(1) have "open_with_history_limit P J (Ok ()) root loc revocations limit s d = (Ok D', s', d2)"
    using assms(6,7) opened routes replayed run
    by (simp add: open_with_history_limit_def so_bind_def so_lift_def so_attempt_def on_routes_def on_directory_def)
  ultimately show ?thesis using es(2) by blast
qed

end

end
