(* ===== verification/Peer_Samples.thy ===== *)
theory Peer_Samples
  imports Peer_Durability Journal_Properties
begin

text \<open>Contacts and directories to evaluate the properties of the peer directory on.\<close>

abbreviation sample_root_key :: bytes32 where
  "sample_root_key \<equiv> root_verifying_key reference_prims \<lparr>root_seed = 1\<rparr>"

abbreviation sample_node :: "bytes32 \<Rightarrow> NodeId" where
  "sample_node k \<equiv> node_from_verifying_key reference_prims k"

definition sample_record :: "bytes32 \<Rightarrow> u64 \<Rightarrow> EndpointRecord" where
  "sample_record k n =
     \<lparr>er_protocol_version = ENDPOINT_RECORD_VERSION_V2, er_hive_id = root_hive_id reference_prims \<lparr>root_seed = 1\<rparr>,
      er_node_id = sample_node k, er_display_name = Some (PeerName ''node''),
      er_transport_key_id = TransportKeyId 3, er_generation = 0, er_sequence = n, er_issued_at = 1000, er_expires_at = 2000,
      er_candidates = [], er_capabilities = CAPABILITIES_NONE, er_services = []\<rparr>"

text \<open>The same record issued at another time.\<close>

definition sample_variant :: "bytes32 \<Rightarrow> u64 \<Rightarrow> u64 \<Rightarrow> EndpointRecord" where
  "sample_variant k n t = (sample_record k n)\<lparr>er_issued_at := t\<rparr>"

lemma sample_record_signed:
  assumes "n \<noteq> 0" and "t \<in> {1000, 1001}"
  obtains s where "verify_endpoint reference_prims s k = Ok ()" "se_record s = sample_variant k n t" "wire_signed s"
proof -
  let ?P = reference_prims and ?x = "sample_variant k n t" and ?d = "\<lparr>device_seed = k\<rparr>"
  have canon: "canonicalize_candidates ?x = ?x"
    by (simp add: sample_variant_def sample_record_def canonicalize_candidates_def sort_dedup_def)
  have "capabilities_from_bits 0 = Ok CAPABILITIES_NONE" "validate_services [] = Ok ()" "peer_name_new ''node'' = Ok (PeerName ''node'')"
    by code_simp+
  then have shape: "endpoint_validate_shape ?x = Ok ()" and typed: "claims_typed ?x"
    using assms
    by (auto simp: endpoint_validate_shape_def sample_variant_def sample_record_def ENDPOINT_RECORD_VERSION_V1_def ENDPOINT_RECORD_VERSION_V2_def
        ENDPOINT_RECORD_VERSION_def MAX_CANDIDATES_def CAPABILITIES_NONE_def saturating_sub_def MAX_RECORD_LIFETIME_SECONDS_def claims_typed_def)
  have wire: "wire_record ?x" by (rule validated_wire_record [OF shape typed]) (simp add: sample_variant_def sample_record_def)
  then obtain bs where "encode_endpoint_record ?P ?x = Ok bs" using reference.encode_endpoint_record_ok by blast
  moreover have "er_protocol_version ?x = ENDPOINT_RECORD_VERSION_V2" "er_node_id ?x = device_node_id ?P ?d"
    by (simp_all add: sample_variant_def sample_record_def device_node_id_def device_verifying_key_def)
  ultimately obtain s where "sign_endpoint ?P ?x ?d = Ok s" and s: "length (se_signature s) = 64"
    using shape by (auto simp: sign_endpoint_def canon Let_def signature_domain_def
        ENDPOINT_RECORD_VERSION_V1_def ENDPOINT_RECORD_VERSION_V2_def)
  then have "verify_endpoint ?P s k = Ok ()" "se_record s = ?x"
    using reference.sign_endpoint_verifies [of ?x ?d s] by (simp_all add: canon device_verifying_key_def)
  then show ?thesis using that wire s by (simp add: wire_signed_def)
qed

lemma sample_membership_signed:
  obtains m where "verify_membership reference_prims m sample_root_key = Ok ()" "mc_device_verifying_key (sm_certificate m) = k"
    "mc_node_id (sm_certificate m) = sample_node k" "mc_hive_id (sm_certificate m) = root_hive_id reference_prims \<lparr>root_seed = 1\<rparr>"
    "mc_expires_at (sm_certificate m) = 3000" "membership_wf reference_prims m"
proof -
  let ?P = reference_prims
  let ?c = "\<lparr>mc_version = MEMBERSHIP_VERSION, mc_hive_id = root_hive_id ?P \<lparr>root_seed = 1\<rparr>, mc_node_id = sample_node k,
    mc_device_verifying_key = k, mc_serial = 2, mc_issued_at = 1000, mc_expires_at = 3000, mc_roles = ROLE_DEVICE,
    mc_admission_nonce = 7\<rparr>"
  have "membership_validate_shape ?P ?c = Ok ()"
    by (simp add: membership_validate_shape_def saturating_sub_def MAX_MEMBERSHIP_LIFETIME_SECONDS_def roles_contains_def
        roles_from_bits_def ROLE_DEVICE_def ROLES_KNOWN_BITS_def ROLE_INTRODUCER_def ROLE_CONTROL_RELAY_def)
  then obtain m where "sign_membership ?P ?c \<lparr>root_seed = 1\<rparr> = Ok m" by (auto simp: sign_membership_def)
  note v = reference.sign_membership_verifies [OF this]
  then have "membership_wf ?P m" by (simp add: verify_membership_Ok)
  then show ?thesis using v by (intro that [of m]) simp_all
qed

lemma sample_variant_contact:
  assumes "n \<noteq> 0" and "t \<in> {1000, 1001}"
  obtains c where "verify_contact reference_prims c sample_root_key 1500 = Ok ()" "contact_wf reference_prims c"
    "contact_record c = sample_variant k n t"
proof -
  obtain s where s: "verify_endpoint reference_prims s k = Ok ()" "se_record s = sample_variant k n t" "wire_signed s"
    by (rule sample_record_signed [OF assms])
  obtain m where m: "verify_membership reference_prims m sample_root_key = Ok ()" "mc_device_verifying_key (sm_certificate m) = k"
    "mc_node_id (sm_certificate m) = sample_node k" "mc_hive_id (sm_certificate m) = root_hive_id reference_prims \<lparr>root_seed = 1\<rparr>"
    "mc_expires_at (sm_certificate m) = 3000" "membership_wf reference_prims m"
    by (rule sample_membership_signed)
  let ?c = "\<lparr>pc_membership = m, pc_endpoint = s\<rparr>"
  have "verify_contact reference_prims ?c sample_root_key 1500 = Ok ()"
    using s m assms(2) by (auto simp: verify_contact_Ok verify_authorized_Ok membership_validate_time_def endpoint_validate_time_def
        sample_variant_def sample_record_def saturating_add_def MAX_FUTURE_SKEW_SECONDS_def capabilities_contains_def CAPABILITIES_NONE_def
        CAPABILITY_INTRODUCER_def CAPABILITY_CONTROL_RELAY_def)
  moreover have "contact_wf reference_prims ?c" using s m by (simp add: contact_wf_def)
  ultimately show ?thesis using that s(2) by simp
qed

lemma sample_contact:
  assumes "n \<noteq> 0"
  obtains c where "verify_contact reference_prims c sample_root_key 1500 = Ok ()" "contact_wf reference_prims c"
    "contact_record c = sample_record k n"
proof -
  have "sample_variant k n 1000 = sample_record k n" by (simp add: sample_variant_def sample_record_def)
  then show ?thesis using sample_variant_contact [OF assms, of 1000 k] that by auto
qed

end
