(* ===== verification/Route_Merge.thy ===== *)
theory Route_Merge
  imports Route_History
begin

text \<open>
  The records of a route history as a value: inserting an attestation, replaying the frames of a journal,
  and that the frames a compaction writes replay to the records they were made from.
\<close>

section \<open>Inserting\<close>

definition route_merge ::
  "nat \<Rightarrow> Attestation \<Rightarrow> (NodeId, Attestation list) btree_map \<Rightarrow>
     PeerDirectoryError + (NodeId, Attestation list) btree_map" where
  "route_merge limit a m =
     (let peer = rt_peer (at_route a) in
      if bt_get m peer = None \<and> length m \<ge> MAX_HIVE_MEMBERS - 1 then Err DirectoryFull
      else Ok (bt_insert peer (take limit (a # filter (\<lambda>old. \<not> same_route old a)
        (case bt_get m peer of None \<Rightarrow> [] | Some rs \<Rightarrow> rs))) m))"

lemma route_insert_merge:
  "route_insert h a = rbind (route_merge (rh_limit h) a (rh_records h)) (\<lambda>m. Ok (h\<lparr>rh_records := m\<rparr>))"
  by (simp add: route_insert_def route_merge_def Let_def)

fun merge_routes ::
  "nat \<Rightarrow> Attestation list \<Rightarrow> (NodeId, Attestation list) btree_map \<Rightarrow>
     PeerDirectoryError + (NodeId, Attestation list) btree_map" where
  "merge_routes limit [] m = Ok m"
| "merge_routes limit (a # as) m = rbind (route_merge limit a m) (merge_routes limit as)"

lemma merge_routes_append:
  "merge_routes limit (as @ bs) m = rbind (merge_routes limit as m) (merge_routes limit bs)"
  by (induction as arbitrary: m) (simp_all add: rbind_def split: sum.splits)

section \<open>What the records keep\<close>

text \<open>At most 255 peers; per peer between one and \<open>limit\<close> attestations that satisfy \<open>K\<close>, no route twice.\<close>

definition route_list_ok :: "(Attestation \<Rightarrow> bool) \<Rightarrow> nat \<Rightarrow> NodeId \<Rightarrow> Attestation list \<Rightarrow> bool" where
  "route_list_ok K limit n rs \<longleftrightarrow> rs \<noteq> [] \<and> length rs \<le> limit \<and> sorted_wrt (\<lambda>a b. \<not> same_route a b) rs \<and>
     (\<forall>a \<in> set rs. rt_peer (at_route a) = n \<and> K a)"

definition routes_ok :: "(Attestation \<Rightarrow> bool) \<Rightarrow> nat \<Rightarrow> (NodeId, Attestation list) btree_map \<Rightarrow> bool" where
  "routes_ok K limit m \<longleftrightarrow> bt_ok m \<and> length m \<le> MAX_HIVE_MEMBERS - 1 \<and>
     (\<forall>n rs. bt_get m n = Some rs \<longrightarrow> route_list_ok K limit n rs)"

lemma same_route_sym: "same_route a b = same_route b a"
  by (auto simp: same_route_def)

lemma routes_ok_Nil [simp]: "routes_ok K limit []"
  by (simp add: routes_ok_def)

lemma route_merge_ok:
  assumes "routes_ok K limit m" and "route_merge limit a m = Ok m'" and "K a" and "0 < limit"
  shows "routes_ok K limit m'"
proof -
  let ?n = "rt_peer (at_route a)"
  define old where "old = (case bt_get m ?n of None \<Rightarrow> [] | Some rs \<Rightarrow> rs)"
  define rs where "rs = take limit (a # filter (\<lambda>b. \<not> same_route b a) old)"
  have m': "m' = bt_insert ?n rs m" "bt_get m ?n = None \<longrightarrow> length m < MAX_HIVE_MEMBERS - 1"
    using assms(2) by (auto simp: route_merge_def Let_def old_def rs_def split: if_splits)
  have m: "bt_ok m" "length m \<le> MAX_HIVE_MEMBERS - 1" using assms(1) by (simp_all add: routes_ok_def)
  have old: "sorted_wrt (\<lambda>a b. \<not> same_route a b) old" "\<forall>b \<in> set old. rt_peer (at_route b) = ?n \<and> K b"
    using assms(1) by (cases "bt_get m ?n"; auto simp: old_def routes_ok_def route_list_ok_def)+
  have "set rs \<subseteq> insert a (set old)" unfolding rs_def using set_take_subset by fastforce
  then have "\<forall>b \<in> set rs. rt_peer (at_route b) = ?n \<and> K b" using old(2) assms(3) by blast
  moreover have "sorted_wrt (\<lambda>a b. \<not> same_route a b) rs" "length rs \<le> limit" "rs \<noteq> []"
    using old(1) assms(4) by (auto simp: rs_def same_route_sym [of a] sorted_wrt_take sorted_wrt_filter)
  ultimately have "route_list_ok K limit ?n rs" by (simp add: route_list_ok_def)
  then show ?thesis
    using assms(1) m m'(2) by (auto simp: m'(1) routes_ok_def bt_ok_insert length_bt_insert split: if_splits)
qed

lemma merge_routes_ok:
  assumes "routes_ok K limit m" and "merge_routes limit as m = Ok m'" and "\<forall>a \<in> set as. K a" and "0 < limit"
  shows "routes_ok K limit m'"
  using assms
proof (induction as arbitrary: m)
  case (Cons a as)
  then show ?case using route_merge_ok [OF Cons.prems(1)] by (auto simp: result_simps)
qed simp

section \<open>Compaction keeps the records\<close>

lemma merge_peer:
  assumes "route_list_ok K limit n rs" and "bt_get m n = None" and "length m < MAX_HIVE_MEMBERS - 1" and "bt_ok m"
  shows "merge_routes limit (rev rs) m = Ok (bt_insert n rs m)"
  using assms(1)
proof (induction rs)
  case (Cons a rs)
  have a: "rt_peer (at_route a) = n" "Suc (length rs) \<le> limit" "filter (\<lambda>b. \<not> same_route b a) rs = rs"
    using Cons.prems by (auto simp: route_list_ok_def same_route_sym [of _ a] intro: filter_True)
  show ?case
  proof (cases "rs = []")
    case True
    then show ?thesis using a assms(2,3) by (simp add: merge_routes_append route_merge_def Let_def)
  next
    case False
    have "route_list_ok K limit n rs" using Cons.prems False by (simp add: route_list_ok_def)
    then have "merge_routes limit (rev rs) m = Ok (bt_insert n rs m)" by (rule Cons.IH)
    moreover have "bt_insert n (a # rs) (bt_insert n rs m) = bt_insert n (a # rs) m"
      by (rule bt.map_eqI) (use assms(4) in \<open>auto simp: bt_ok_insert\<close>)
    ultimately show ?thesis using a by (simp add: merge_routes_append route_merge_def Let_def)
  qed
qed (simp add: route_list_ok_def)

lemma merge_canonical:
  assumes "routes_ok K limit m"
  shows "merge_routes limit (concat (map rev (bt_values m))) [] = Ok m"
  using assms
proof (induction m rule: rev_induct)
  case (snoc p m)
  obtain n rs where p: "p = (n, rs)" by fastforce
  have ok: "bt_ok (m @ [(n, rs)])" "length m < MAX_HIVE_MEMBERS - 1" using snoc.prems by (simp_all add: p routes_ok_def)
  then have m: "bt_ok m" "bt_get m n = None"
    by (auto simp: bt_ok_iff sorted_wrt_append bt_get_def map_of_eq_None_iff)
  have lists: "route_list_ok K limit k ks" if "(k, ks) \<in> set (m @ [(n, rs)])" for k ks
    using snoc.prems that bt_get_mem [OF ok(1)] by (auto simp: p routes_ok_def)
  then have "routes_ok K limit m" using m(1) ok(2) by (simp add: routes_ok_def bt_get_mem)
  then have "merge_routes limit (concat (map rev (bt_values m))) [] = Ok m" by (rule snoc.IH)
  moreover have "merge_routes limit (rev rs) m = Ok (bt_insert n rs m)"
    by (rule merge_peer [OF lists m(2) ok(2) m(1)]) simp
  moreover have "bt_get (m @ [(n, rs)]) k = (if k = n then Some rs else bt_get m k)" for k
    using m(2) by (auto simp: bt_get_def map_add_def split: option.split)
  then have "bt_insert n rs m = m @ [(n, rs)]" by (intro bt.map_eqI [OF bt_ok_insert [OF m(1)] ok(1)]) simp
  ultimately show ?case by (simp add: p merge_routes_append bt_values_def)
qed (simp add: bt_values_def)

end
