(* ===== verification/Route_Durability.thy ===== *)
theory Route_Durability
  imports Route_Merge Journal_Durability
begin

text \<open>
  Remembered routes survive a restart: the journal of the route history holds attestations that replay to
  the records in memory, and reopening after a power loss returns them.
\<close>

section \<open>Frames and records\<close>

definition route_kept :: "prims \<Rightarrow> text_codecs \<Rightarrow> NodeId \<Rightarrow> Attestation \<Rightarrow> bool" where
  "route_kept P J loc a \<longleftrightarrow> attestation_verify P J loc a = Ok () \<and> plain_address (rt_address (at_route a)) \<and>
     (\<exists>f. attestation_to_json J a = Some f \<and> length f \<le> ROUTE_MAX_FRAME)"

text \<open>The frames are attestations this computer wrote, and replay to the records.\<close>

definition routes_read :: "prims \<Rightarrow> text_codecs \<Rightarrow> NodeId \<Rightarrow> nat \<Rightarrow> bytes list \<Rightarrow> (NodeId, Attestation list) btree_map \<Rightarrow> bool" where
  "routes_read P J loc limit fs m \<longleftrightarrow>
     (\<exists>as. list_all2 (\<lambda>a f. attestation_to_json J a = Some f \<and> route_kept P J loc a) as fs \<and> merge_routes limit as [] = Ok m)"

lemma routes_read_ok:
  assumes "routes_read P J loc limit fs m" and "0 < limit"
  shows "routes_ok (route_kept P J loc) limit m"
proof -
  obtain as where as: "list_all2 (\<lambda>a f. attestation_to_json J a = Some f \<and> route_kept P J loc a) as fs" "merge_routes limit as [] = Ok m"
    using assms(1) by (auto simp: routes_read_def)
  have "\<forall>a \<in> set as. route_kept P J loc a" using as(1) by (auto simp: list_all2_conv_all_nth in_set_conv_nth)
  then show ?thesis using merge_routes_ok [OF routes_ok_Nil as(2)] assms(2) by blast
qed

lemma routes_read_append:
  assumes "routes_read P J loc limit fs m" and "route_kept P J loc a" and "attestation_to_json J a = Some f" and "route_merge limit a m = Ok m'"
  shows "routes_read P J loc limit (fs @ [f]) m'"
proof -
  obtain as where as: "list_all2 (\<lambda>a f. attestation_to_json J a = Some f \<and> route_kept P J loc a) as fs" "merge_routes limit as [] = Ok m"
    using assms(1) by (auto simp: routes_read_def)
  then have "list_all2 (\<lambda>a f. attestation_to_json J a = Some f \<and> route_kept P J loc a) (as @ [a]) (fs @ [f])"
    "merge_routes limit (as @ [a]) [] = Ok m'"
    using assms(2-4) by (simp_all add: list_all2_appendI merge_routes_append)
  then show ?thesis unfolding routes_read_def by blast
qed

context text_formats
begin

lemma replay_written:
  assumes "list_all2 (\<lambda>a f. attestation_to_json J a = Some f \<and> route_kept P J loc a) as fs"
  shows "replay_routes P J loc h fs = rbind (merge_routes (rh_limit h) as (rh_records h)) (\<lambda>m. Ok (h\<lparr>rh_records := m\<rparr>))"
  using assms
proof (induction as fs arbitrary: h rule: list_all2_induct)
  case (Cons a as f fs)
  have f: "attestation_from_json J f = Some a" "attestation_verify P J loc a = Ok ()" "length f \<le> ROUTE_MAX_FRAME"
    using Cons.hyps(1) from_to_json by (auto simp: route_kept_def)
  have "replay_routes P J loc h (f # fs) = rbind (route_insert h a) (\<lambda>h. replay_routes P J loc h fs)"
    using f by simp
  then show ?case by (cases "route_merge (rh_limit h) a (rh_records h)") (simp_all add: route_insert_merge Cons.IH)
qed simp

lemma replay_read:
  "routes_read P J loc (rh_limit h) fs m \<Longrightarrow> rh_records h = [] \<Longrightarrow> replay_routes P J loc h fs = Ok (h\<lparr>rh_records := m\<rparr>)"
  by (auto simp: routes_read_def replay_written)

text \<open>The frames of a compaction read back as the records they were made from.\<close>

lemma compaction_read:
  assumes "routes_ok (route_kept P J loc) (rh_limit h) (rh_records h)"
  shows "\<exists>fs. route_frames J h = Ok fs \<and> routes_read P J loc (rh_limit h) fs (rh_records h)"
proof -
  let ?as = "concat (map rev (bt_values (rh_records h)))"
  have "bt_ok (rh_records h)" using assms by (simp add: routes_ok_def)
  then have kept: "\<forall>a \<in> set ?as. route_kept P J loc a"
    using assms by (auto simp: in_bt_values routes_ok_def route_list_ok_def)
  have "\<exists>fs. try_map (\<lambda>a. ok_or InvalidRouteHistory (attestation_to_json J a)) as = Ok fs \<and>
      list_all2 (\<lambda>a f. attestation_to_json J a = Some f \<and> route_kept P J loc a) as fs"
    if "\<forall>a \<in> set as. route_kept P J loc a" for as
    using that by (induction as) (auto simp: route_kept_def list_all2_Cons1)
  from this [OF kept] show ?thesis using merge_canonical [OF assms] unfolding route_frames_def routes_read_def by blast
qed

end

section \<open>Remembering\<close>

definition routes_filed :: "prims \<Rightarrow> text_codecs \<Rightarrow> u32 \<Rightarrow> NodeId \<Rightarrow> RouteHistory \<Rightarrow> bytes list \<Rightarrow> slots \<Rightarrow> bool" where
  "routes_filed P J u loc h fs c \<longleftrightarrow> durable P u fs c \<and> rh_journal h = Some (handle_of P fs) \<and> 0 < rh_limit h \<and>
     unat COMPACT_AFTER \<le> unat (rh_compact_at h) \<and> routes_read P J loc (rh_limit h) fs (rh_records h)"

lemma sspec_routes_small:
  assumes "rh_journal h = Some j" and "length (journal_image P fs) < unat (rh_compact_at h)"
  shows "sspec s u h (durable P u fs) (route_compact_if_needed P J)
    (\<lambda>_ h' c. h' = h \<and> durable P u fs c) (\<lambda>h' c. h' = h \<and> durable P u fs c)"
  unfolding route_compact_if_needed_def
  by (intro sspec_get sspec_bind_lift sspec_attempt [OF spec_byte_len [where I = "durable P u fs" and E = "durable P u fs"]])
    (use assms in \<open>auto simp: durable_bytes sspec_def so_run\<close>)

text \<open>Writing an attestation, and putting it into the records.\<close>

lemma sspec_route_append:
  assumes filed: "routes_filed P J u loc h fs c0" and small: "length (journal_image P fs) + 804 < unat COMPACT_AFTER"
    and a: "route_kept P J loc a" "attestation_to_json J a = Some f" "f \<noteq> []" "length f \<le> ROUTE_MAX_FRAME"
    and m: "route_merge (rh_limit h) a (rh_records h) = Ok m"
  shows "sspec True u h (durable P u fs) (route_append P J a f)
    (\<lambda>_ h' c. routes_filed P J u loc h' (fs @ [f]) c \<and> rh_records h' = m)
    (\<lambda>h' c. recovers P u {fs, fs @ [f]} c)" (is "sspec True u h _ _ ?Q ?E")
proof -
  let ?fs = "fs @ [f]"
  let ?h = "h\<lparr>rh_journal := Some (handle_of P ?fs), rh_records := m\<rparr>"
  have dur: "durable P u fs c0" using filed by (simp add: routes_filed_def)
  have len: "length (journal_image P ?fs) < unat COMPACT_AFTER"
    using small a(4) by (simp add: length_journal_image ROUTE_MAX_FRAME_def)
  then have fits: "frames_ok P ?fs"
    using dur a(3,4) by (auto simp: durable_def frames_ok_def payload_ok_def ROUTE_MAX_FRAME_def MAX_FRAME_BYTES_def
        MAX_JOURNAL_BYTES_def COMPACT_AFTER_def)
  have below: "length (journal_image P ?fs) < unat (rh_compact_at ?h)" using len filed by (simp add: routes_filed_def)
  have read: "routes_read P J loc (rh_limit h) ?fs m"
    using routes_read_append [OF _ a(1,2) m] filed by (simp add: routes_filed_def)
  let ?k = "\<lambda>outcome. case outcome of
      Inl error \<Rightarrow> so_err (PeerDirectoryError.Journal error)
    | Inr journal \<Rightarrow>
        so_bind (so_modify (\<lambda>h. h\<lparr>rh_journal := Some journal\<rparr>)) (\<lambda>_.
        so_bind so_get (\<lambda>h.
        so_bind (so_lift (route_insert h a)) (\<lambda>h.
        so_bind (so_modify (\<lambda>_. h)) (\<lambda>_.
          route_compact_if_needed P J))))"
  have after: "sspec True u h (\<lambda>c. j = handle_of P ?fs \<and> durable P u ?fs c) (?k (Inr j)) ?Q ?E" for j
  proof (rule sspec_pure)
    assume j: "j = handle_of P ?fs"
    have "sspec True u ?h (durable P u ?fs) (route_compact_if_needed P J) ?Q ?E"
      by (rule sspec_weaken [OF sspec_routes_small [OF _ below]])
        (use filed read durable_recovers [of P u ?fs] in \<open>auto simp: routes_filed_def recovers_def\<close>)
    then show "sspec True u h (durable P u ?fs) (?k (Inr j)) ?Q ?E"
      using j m by (simp add: sspec_def route_insert_merge so_bind_lift)
  qed
  have j: "rh_journal h = Some (handle_of P fs)" using filed by (simp add: routes_filed_def)
  have "sspec True u h (durable P u fs) (so_bind (so_attempt (journal_append P f (handle_of P fs))) ?k) ?Q ?E"
    by (rule sspec_attempt [OF spec_journal_append [of P fs f u, unfolded eqTrueI [OF fits]] after]) (simp add: sspec_err)
  then show ?thesis unfolding route_append_def by (intro sspec_get) (simp add: j)
qed

text \<open>The route an operation remembers.\<close>

definition route_of :: "NodeId \<Rightarrow> TransportKeyId \<Rightarrow> SocketAddr \<Rightarrow> IpAddr option \<Rightarrow> u64 \<Rightarrow> Route" where
  "route_of peer pin address local_ip now =
     \<lparr>rt_peer = peer, rt_pin = pin, rt_address = canonical_socket_address address,
      rt_local_ip = (if is_private (canonical_socket_address address) then local_ip else None), rt_observed_at = now\<rparr>"

definition route_known :: "RouteHistory \<Rightarrow> Route \<Rightarrow> bool" where
  "route_known h r \<longleftrightarrow> (\<exists>rs. bt_get (rh_records h) (rt_peer r) = Some rs \<and>
     (\<exists>a \<in> set rs. rt_address (at_route a) = rt_address r \<and> rt_pin (at_route a) = rt_pin r \<and> rt_local_ip (at_route a) = rt_local_ip r))"

lemma list_ex_known:
  assumes "list_ex (\<lambda>a. rt_address (at_route a) = canonical_socket_address address \<and> rt_pin (at_route a) = pin
      \<and> rt_local_ip (at_route a) = rt_local_ip (route_of peer pin address local_ip now) \<and> Z a)
    (case bt_get (rh_records h) peer of None \<Rightarrow> [] | Some rs \<Rightarrow> rs)"
  shows "route_known h (route_of peer pin address local_ip now)"
  using assms by (cases "bt_get (rh_records h) peer") (auto simp: route_known_def route_of_def list_ex_iff)

lemma remember_cases:
  assumes "route_remember P J device peer pin address local_ip now h d = (r, h', d')"
  obtains (skipped) "h' = h" "d' = d"
      "is_ok r \<longrightarrow> is_private (canonical_socket_address address) \<and> local_ip = None \<or> route_known h (route_of peer pin address local_ip now)"
  | (writes) a f where "route_append P J a f h d = (r, h', d')" "at_route a = route_of peer pin address local_ip now"
      "attestation_verify P J (device_node_id P device) a = Ok ()" "attestation_to_json J a = Some f" "length f \<le> ROUTE_MAX_FRAME"
      "bt_get (rh_records h) peer = None \<longrightarrow> length (rh_records h) < MAX_HIVE_MEMBERS - 1"
proof -
  note skip = that(1) and goes = that(2)
  have failed: thesis if "h' = h" "d' = d" "r = x" "Inl e = x" for e x using skip that by auto
  have hidden: thesis if "h' = h" "d' = d" "is_private (canonical_socket_address address)" "local_ip = None" using skip that by simp
  have known: thesis if "h' = h" "d' = d" "route_known h (route_of peer pin address local_ip now)" using skip that by simp
  show thesis
    using assms unfolding route_remember_def Let_def route_of_def [symmetric]
    by (auto simp: so_bind_lift so_run result_simps split: if_splits sum.splits
        intro: failed failed [OF _ _ _ refl] hidden known [OF _ _ list_ex_known] goes)
qed

lemma ends_route_compact: "ends (route_compact_if_needed P J) h (\<lambda>r h'. rh_limit h' = rh_limit h \<and> rh_records h' = rh_records h)"
  unfolding route_compact_if_needed_def by (auto intro!: ends_attempt split: sum.splits)

text \<open>Every record is an attestation of this computer that verifies.\<close>

definition history_ok :: "prims \<Rightarrow> text_codecs \<Rightarrow> NodeId \<Rightarrow> nat \<Rightarrow> RouteHistory \<Rightarrow> bool" where
  "history_ok P J loc limit h \<longleftrightarrow>
     rh_limit h = limit \<and> routes_ok (\<lambda>a. attestation_verify P J loc a = Ok ()) limit (rh_records h)"

lemma history_ok_insert:
  assumes "history_ok P J loc limit h" and "route_insert h a = Ok h'" and "attestation_verify P J loc a = Ok ()" and "0 < limit"
  shows "history_ok P J loc limit h'"
  using assms route_merge_ok [of "\<lambda>a. attestation_verify P J loc a = Ok ()" limit "rh_records h" a]
  by (auto simp: history_ok_def route_insert_merge result_simps)

lemma replay_history_ok:
  assumes "replay_routes P J loc h fs = Ok h'" and "history_ok P J loc limit h" and "0 < limit"
  shows "history_ok P J loc limit h'"
  using assms
proof (induction fs arbitrary: h)
  case (Cons f fs)
  then show ?case using history_ok_insert [OF Cons.prems(2)] by (auto simp: result_simps split: if_splits)
qed simp

lemma history_ok_compacted: "rh_limit h' = rh_limit h \<Longrightarrow> rh_records h' = rh_records h \<Longrightarrow> history_ok P J loc limit h' = history_ok P J loc limit h"
  by (simp add: history_ok_def)

lemma io_bind_OkD: "io_bind m f d = (Ok y, d') \<Longrightarrow> \<exists>x d1. m d = (Ok x, d1) \<and> f x d1 = (Ok y, d')"
  by (auto simp: io_bind_def split: prod.splits sum.splits)

lemma route_history_open_ok:
  assumes "route_history_open P J loc limit read_only d = (Ok h, d')" and "0 < limit"
  shows "history_ok P J loc limit h"
proof -
  obtain jf d1 where k: "(case jf of (journal, frames) \<Rightarrow>
      io_bind (io_lift (replay_routes P J loc ((route_history_empty limit)\<lparr>rh_journal := journal\<rparr>) frames)) (\<lambda>h d.
       if read_only then (Ok h, d)
       else case route_compact_if_needed P J h d of (Inl error, _, d) \<Rightarrow> (Err error, d) | (Inr _, h, d) \<Rightarrow> (Ok h, d))) d1 = (Ok h, d')"
    using io_bind_OkD [OF assms(1) [unfolded route_history_open_def]] by blast
  obtain j fs where jf: "jf = (j, fs)" by fastforce
  obtain h1 d2 where "io_lift (replay_routes P J loc ((route_history_empty limit)\<lparr>rh_journal := j\<rparr>) fs) d1 = (Ok h1, d2)"
    "(if read_only then (Ok h1, d2)
      else case route_compact_if_needed P J h1 d2 of (Inl error, _, d) \<Rightarrow> (Err error, d) | (Inr _, h, d) \<Rightarrow> (Ok h, d)) = (Ok h, d')"
    using io_bind_OkD [OF k [unfolded jf prod.case]] by blast
  then have h1: "replay_routes P J loc ((route_history_empty limit)\<lparr>rh_journal := j\<rparr>) fs = Ok h1"
    and h: "h = h1 \<or> (\<exists>x d2 d3. route_compact_if_needed P J h1 d2 = (Ok x, h, d3))"
    by (auto simp: io_lift_def split: if_splits prod.splits sum.splits)
  have "history_ok P J loc limit h1"
    by (rule replay_history_ok [OF h1 _ assms(2)]) (simp add: history_ok_def route_history_empty_def)
  moreover have "rh_limit h = rh_limit h1 \<and> rh_records h = rh_records h1" using h endsD [OF ends_route_compact] by blast
  ultimately show ?thesis by (simp add: history_ok_def)
qed

lemma remember_keeps:
  assumes "route_remember P J device peer pin address local_ip now h d = (r, h', d')"
  shows "rh_limit h' = rh_limit h"
    "history_ok P J (device_node_id P device) limit h \<Longrightarrow> 0 < limit \<Longrightarrow> history_ok P J (device_node_id P device) limit h'"
proof -
  let ?ok = "history_ok P J (device_node_id P device) limit"
  define Q where "Q = (\<lambda>h'. rh_limit h' = rh_limit h \<and> (?ok h \<and> 0 < limit \<longrightarrow> ?ok h'))"
  have "Q h'" using assms
  proof (cases rule: remember_cases)
    case (writes a f)
    have inserted: "Q h2" if h2: "route_insert (h\<lparr>rh_journal := Some k\<rparr>) a = Ok h2" for h2 k
    proof -
      have "rh_limit h2 = rh_limit h" using h2 by (auto simp: route_insert_merge result_simps)
      moreover have "?ok (h\<lparr>rh_journal := Some k\<rparr>) = ?ok h" by (simp add: history_ok_def)
      ultimately show ?thesis using history_ok_insert [OF _ h2 writes(3)] unfolding Q_def by blast
    qed
    have kept: "Q h" "Q (h\<lparr>rh_journal := Some k\<rparr>)" for k by (simp_all add: Q_def history_ok_def)
    have compacted: "ends (route_compact_if_needed P J) h2 (\<lambda>r. Q)" if "Q h2" for h2
      by (rule ends_weaken [OF ends_route_compact]) (use that in \<open>simp add: Q_def history_ok_def\<close>)
    have "ends (route_append P J a f) h (\<lambda>r. Q)"
      unfolding route_append_def
      using kept by (auto intro!: ends_attempt compacted [OF inserted] split: sum.splits simp del: so_bind_modify so_bind_get)
    then show ?thesis by (rule endsD) (rule writes(1))
  qed (simp add: Q_def)
  then show "rh_limit h' = rh_limit h" "?ok h \<Longrightarrow> 0 < limit \<Longrightarrow> ?ok h'" unfolding Q_def by blast+
qed

context text_formats
begin

lemma remember_outcome:
  assumes filed: "routes_filed P J u loc h fs (dk_cells d)" and u: "dk_uid d = u" and loc: "device_node_id P device = loc"
    and small: "length (journal_image P fs) + 804 < unat COMPACT_AFTER" and plain: "plain_address (canonical_socket_address address)"
    and run: "route_remember P J device peer pin address local_ip now h d = (r, h', d')"
  shows "\<exists>gs m. recovers P u {fs, gs} (dk_cells d') \<and> dk_uid d' = u \<and> routes_read P J loc (rh_limit h) gs m \<and>
    length (journal_image P gs) < unat COMPACT_AFTER \<and>
    (m = rh_records h \<or> (\<exists>a. at_route a = route_of peer pin address local_ip now \<and> route_merge (rh_limit h) a (rh_records h) = Ok m)) \<and>
    (is_ok r \<longrightarrow> routes_filed P J u loc h' gs (dk_cells d') \<and> rh_limit h' = rh_limit h \<and> rh_records h' = m)"
  using run
proof (cases rule: remember_cases)
  case skipped
  then have "recovers P u {fs, fs} (dk_cells d')" using filed durable_recovers by (simp add: routes_filed_def)
  then show ?thesis using skipped filed u small by (intro exI [of _ fs] exI [of _ "rh_records h"]) (auto simp: routes_filed_def)
next
  case (writes a f)
  let ?fs = "fs @ [f]"
  have dur: "durable P u fs (dk_cells d)" using filed by (simp add: routes_filed_def)
  have kept: "route_kept P J loc a" using writes(2-5) loc plain by (auto simp: route_kept_def route_of_def)
  obtain m where m: "route_merge (rh_limit h) a (rh_records h) = Ok m"
    using writes(2,6) by (auto simp: route_merge_def route_of_def Let_def)
  have len: "length (journal_image P ?fs) < unat COMPACT_AFTER"
    using small writes(5) by (simp add: length_journal_image ROUTE_MAX_FRAME_def)
  have read: "routes_read P J loc (rh_limit h) ?fs m"
    using routes_read_append [OF _ kept writes(4) m] filed by (simp add: routes_filed_def)
  note spec = sspec_route_append [OF filed small kept writes(4) json_nonempty [OF writes(4)] writes(5) m]
  have out: "outcome_ok True u (\<lambda>_ c. routes_filed P J u loc h' ?fs c \<and> rh_records h' = m) (recovers P u {fs, ?fs}) d (r, d')"
    by (rule sspecD [OF spec u dur writes(1)])
  have limit: "rh_limit h' = rh_limit h" using run by (rule remember_keeps(1))
  have "recovers P u {fs, ?fs} (dk_cells d')"
    using out durable_recovers by (cases r) (fastforce simp: routes_filed_def recovers_def)+
  then show ?thesis using out read len m writes(2) limit by (intro exI [of _ ?fs] exI [of _ m]) (cases r; auto)
qed

lemma routes_open:
  assumes "recoverable P u fs j h" and d: "dk_cells d = slots_of j h" "dk_uid d = u" "dk_faults d = []"
    and read: "routes_read P J loc limit fs m" and small: "length (journal_image P fs) < unat COMPACT_AFTER"
  shows "\<exists>h' d'. route_history_open P J loc limit False d = (Ok h', d') \<and> rh_records h' = m"
proof -
  obtain d1 where d1: "journal_open P d = (Ok (handle_of P fs, fs), d1)" "durable P u fs (dk_cells d1)" "dk_uid d1 = u" "dk_faults d1 = []"
    using open_recoverable [OF assms(1) d] by blast
  let ?h = "(route_history_empty limit)\<lparr>rh_journal := Some (handle_of P fs)\<rparr>"
  have replayed: "replay_routes P J loc ?h fs = Ok (?h\<lparr>rh_records := m\<rparr>)"
    using replay_read [of P loc ?h fs m] read by (simp add: route_history_empty_def)
  obtain r h2 d2 where c: "route_compact_if_needed P J (?h\<lparr>rh_records := m\<rparr>) d1 = (r, h2, d2)"
    by (cases "route_compact_if_needed P J (?h\<lparr>rh_records := m\<rparr>) d1")
  have "outcome_ok True u (\<lambda>_ c. h2 = ?h\<lparr>rh_records := m\<rparr> \<and> durable P u fs c) (\<lambda>c. h2 = ?h\<lparr>rh_records := m\<rparr> \<and> durable P u fs c) d1 (r, d2)"
    by (rule sspecD [OF sspec_routes_small d1(3,2) c]) (use small in \<open>auto simp: route_history_empty_def\<close>)
  then have "\<exists>x. r = Ok x" "h2 = ?h\<lparr>rh_records := m\<rparr>" using d1(4) by (cases r; auto)+
  then show ?thesis
    using d1(1) replayed c by (auto simp: route_history_open_def io_bind_def io_map_err_def io_ok_def io_lift_def)
qed

end

end
