(* ===== verification/Route_Samples.thy ===== *)
theory Route_Samples
  imports Route_Durability
begin

text \<open>A concrete text format that satisfies the laws the route history relies on.\<close>

fun address_text :: "SocketAddr \<Rightarrow> bytes" where
  "address_text (SocketV4 ip port) = 4 # be_bytes ip @ replicate 12 0 @ be_bytes port @ replicate 4 0"
| "address_text (SocketV6 ip port flow scope) = 6 # be_bytes ip @ be_bytes port @ be_bytes scope"

definition text_address :: "bytes \<Rightarrow> SocketAddr" where
  "text_address bs =
     (if hd bs = 4 then SocketV4 (be_word (take 4 (tl bs))) (be_word (take 2 (drop 16 (tl bs))))
      else SocketV6 (be_word (take 16 (tl bs))) (be_word (take 2 (drop 16 (tl bs)))) 0 (be_word (drop 18 (tl bs))))"

fun ip_text :: "IpAddr option \<Rightarrow> bytes" where
  "ip_text None = replicate 17 0"
| "ip_text (Some (V4 ip)) = 4 # be_bytes ip @ replicate 12 0"
| "ip_text (Some (V6 ip)) = 6 # be_bytes ip"

definition text_ip :: "bytes \<Rightarrow> IpAddr option" where
  "text_ip bs =
     (if hd bs = 4 then Some (V4 (be_word (take 4 (tl bs))))
      else if hd bs = 6 then Some (V6 (be_word (tl bs))) else None)"

definition route_text :: "Route \<Rightarrow> bytes" where
  "route_text r = be_bytes (node_bytes (rt_peer r)) @ be_bytes (transport_key_bytes (rt_pin r)) @ address_text (rt_address r) @
     ip_text (rt_local_ip r) @ be_bytes (rt_observed_at r)"

definition text_route :: "bytes \<Rightarrow> Route" where
  "text_route bs =
     \<lparr>rt_peer = NodeId (be_word (take 32 bs)), rt_pin = TransportKeyId (be_word (take 32 (drop 32 bs))),
      rt_address = text_address (take 23 (drop 64 bs)), rt_local_ip = text_ip (take 17 (drop 87 bs)),
      rt_observed_at = be_word (drop 104 bs)\<rparr>"

definition bytes_text :: "bytes \<Rightarrow> string" where
  "bytes_text bs = map (\<lambda>b. char_of (unat b)) bs"

definition text_bytes :: "string \<Rightarrow> bytes" where
  "text_bytes s = map (\<lambda>c. of_nat (of_char c)) s"

definition reference_codecs :: text_codecs where
  "reference_codecs =
     \<lparr>route_to_json = (\<lambda>r. Some (route_text r)),
      attestation_to_json = (\<lambda>a. Some (route_text (at_route a) @ be_bytes (at_recorder_key a) @ text_bytes (at_signature a))),
      attestation_from_json = (\<lambda>bs. Some \<lparr>at_route = text_route (take 112 bs), at_recorder_key = be_word (take 32 (drop 112 bs)),
        at_signature = bytes_text (drop 144 bs)\<rparr>),
      hex_encode = bytes_text, hex_decode = (\<lambda>s. Some (text_bytes s))\<rparr>"

lemma bytes_text_inverse [simp]: "bytes_text (text_bytes s) = s" "text_bytes (bytes_text bs) = bs"
proof -
  have "char_of (unat (of_nat (of_char c) :: u8)) = c" for c :: char
    by (simp add: unat_of_nat take_bit_eq_mod [symmetric])
  then show "bytes_text (text_bytes s) = s" by (simp add: bytes_text_def text_bytes_def o_def map_idI)
  have "of_nat (of_char (char_of (unat b) :: char)) = b" for b :: u8
    using unsigned_less [of b, where ?'a = nat] by (simp add: take_bit_eq_mod)
  then show "text_bytes (bytes_text bs) = bs" by (simp add: bytes_text_def text_bytes_def o_def map_idI)
qed

lemma length_address_text [simp]: "length (address_text a) = 23"
  by (cases a) simp_all

lemma length_ip_text [simp]: "length (ip_text x) = 17"
  by (cases x rule: ip_text.cases) simp_all

lemma text_address_text: "plain_address a \<Longrightarrow> text_address (address_text a) = a"
  by (cases a) (simp_all add: text_address_def)

lemma text_ip_text [simp]: "text_ip (ip_text x) = x"
  by (cases x rule: ip_text.cases) (simp_all add: text_ip_def)

lemma length_route_text [simp]: "length (route_text r) = 112"
  by (simp add: route_text_def)

lemma text_route_text: "plain_address (rt_address r) \<Longrightarrow> text_route (route_text r) = r"
  by (cases r) (simp add: text_route_def route_text_def text_address_text)

interpretation reference_text: text_formats reference_codecs
proof unfold_locales
  fix a bs
  assume "plain_address (rt_address (at_route a))" and "attestation_to_json reference_codecs a = Some bs"
  then show "attestation_from_json reference_codecs bs = Some a"
    by (cases a) (auto simp: reference_codecs_def text_route_text)
next
  fix a bs
  assume "attestation_to_json reference_codecs a = Some bs"
  then have "112 \<le> length bs" by (auto simp: reference_codecs_def)
  then show "bs \<noteq> []" by auto
qed (simp add: reference_codecs_def)

text \<open>A candidate with an address of the public Internet.\<close>

lemma sample_octets: "octets (134744072 :: bytes4) = [8, 8, 8, 8]"
  using be_bytes_be_word [of "[8, 8, 8, 8]", where ?'a = 32] by (simp add: be_word_def nat_be_def)

lemma sample_candidate:
  "candidate_new k t (SocketV4 134744072 443) =
     (if k = Local then Err GlobalMarkedLocal else Ok (EndpointCandidate k t (SocketV4 134744072 443)))"
  by (simp add: candidate_new_def validate_address_def is_multicast_or_broadcast_def sample_octets
    v4_is_broadcast_def v4_is_loopback_def v4_is_link_local_def v4_is_private_def v4_is_documentation_def)

end
