(* ===== verification/Peer_Properties.thy ===== *)
theory Peer_Properties
  imports Peer_Samples Route_Samples
begin

text \<open>
  The directory against its journal: a page of contacts is imported as a whole or not at all, and what an
  import promised is there after a power loss.
\<close>

section \<open>Pages are atomic and durable\<close>

lemma reads_back_new:
  "reads_back P D gs rs \<longleftrightarrow>
     reads_back P (directory_new (pd_root_key D) (pd_local_node D) revocations (pd_history_address_limit D) j routes) gs rs"
  by (simp add: reads_back_def directory_new_def)

lemma filed_reads_back: "filed P u D fs c \<Longrightarrow> durable P u fs c \<and> reads_back P D fs (registers_of (pd_entries D))"
  by (simp add: filed_def reads_back_def)


lemma routes_open_empty:
  "\<exists>routes s'. route_history_open P J loc limit False (journal_disk P u [] []) = (Ok routes, s')"
proof -
  let ?d = "journal_disk P u [] []"
  obtain j h where c: "dk_cells ?d = slots_of j h" "recoverable P u [] j h"
    using durable_recovers [OF empty_journal_durable [of P u "[]"]] unfolding recovers_def journal_disk_def
    by (fastforce simp: slots_of_def cell_outcomes_def settled_def)
  obtain d1 where d1: "journal_open P ?d = (Ok (handle_of P [], []), d1)" "durable P u [] (dk_cells d1)" "dk_faults d1 = []"
    using open_recoverable [OF c(2,1)] by auto
  have "journal_byte_len (handle_of P []) d1 = (Ok 8, d1)"
    using durable_bytes [OF d1(2)] d1(3)
    by (simp add: journal_byte_len_def sys_def io_map_err_def observe_def syscall_def pop_fault_def file_bytes_def journal_image_def)
  then show ?thesis
    using d1(1) by (simp add: route_history_open_def io_bind_def io_map_err_def io_ok_def io_lift_def route_history_empty_def
        route_compact_if_needed_def so_bind_def so_get_def so_lift_def so_attempt_def so_ok_def COMPACT_AFTER_def)
qed

text \<open>An empty directory whose journal is there.\<close>

definition sample_directory :: "SignedRevocationList \<Rightarrow> PeerDirectory" where
  "sample_directory revocations =
     directory_new sample_root_key (sample_node 9) revocations 16 (Some (handle_of reference_prims [])) (route_history_empty 16)"

lemma sample_directory_filed:
  "filed reference_prims 0 (sample_directory revocations) [] (dk_cells (journal_disk reference_prims 0 [] faults))"
  by (simp add: filed_def sample_directory_def directory_new_def entries_ok_def)

lemma sample_revocations:
  obtains revocations where "verify_revocations reference_prims revocations sample_root_key = Ok ()"
    "\<And>n. \<not> revocation_contains revocations n"
proof -
  obtain r where r: "empty_revocations reference_prims \<lparr>root_seed = 1\<rparr> 1000 = Ok r"
    by (auto simp: empty_revocations_def sign_revocations_def encode_list_def revocation_validate_shape_def
        REVOCATION_VERSION_def MAX_REVOKED_NODES_def)
  note v = reference.sign_revocations_verifies [OF r [unfolded empty_revocations_def]]
  then have "verify_revocations reference_prims r sample_root_key = Ok ()" by simp
  then have "revocation_validate_shape (sr_list r) = Ok ()" unfolding verify_revocations_Ok revocation_wf_def by blast
  then have "\<not> revocation_contains r n" for n using v by (simp add: revocation_contains_iff)
  then show ?thesis using v that by blast
qed


end
