(* ===== verification/Peer_Claims.thy ===== *)
theory Peer_Claims
  imports Peer_Directory
begin

text \<open>
  The table of reachability claims of a peer directory (\<^verbatim>\<open>peer_directory/reachability.rs\<close>): it holds at
  most 16 claims and at most four of a peer, and a newcomer never takes the only claim of another peer.
\<close>

definition claims_by :: "NodeId \<Rightarrow> (claim_key, ReachabilityClaim) btree_map \<Rightarrow> nat" where
  "claims_by q m = length (filter (\<lambda>p. rc_reporter (snd p) = q) m)"

definition claim_filed :: "PeerDirectory \<Rightarrow> claim_key \<times> ReachabilityClaim \<Rightarrow> bool" where
  "claim_filed D p \<longleftrightarrow> (case p of (k, c) \<Rightarrow>
     fst k = rc_subject c \<and> snd (snd k) = rc_reporter c \<and>
     (rc_reporter c = pd_local_node D \<longrightarrow> own_gateway_claim D c) \<and>
     (rc_reporter c \<noteq> pd_local_node D \<longrightarrow>
        \<not> revocation_contains (pd_revocations D) (rc_subject c) \<and> \<not> revocation_contains (pd_revocations D) (rc_reporter c)))"

definition claims_ok :: "PeerDirectory \<Rightarrow> bool" where
  "claims_ok D \<longleftrightarrow>
     bt_ok (pd_reachability D) \<and> length (pd_reachability D) \<le> MAX_REACHABILITY_CLAIMS \<and>
     (\<forall>q. claims_by q (pd_reachability D) \<le> (if q = pd_local_node D then 1 else MAX_CLAIMS_PER_REPORTER)) \<and>
     (\<forall>p \<in> set (pd_reachability D). claim_filed D p)"

section \<open>Counting\<close>

lemma max_by_key_mem: "max_by_key f xs = Some x \<Longrightarrow> x \<in> set xs"
  by (induction xs arbitrary: x) (auto split: option.splits if_splits)

lemma min_by_key_mem: "min_by_key f xs = Some x \<Longrightarrow> x \<in> set xs"
  by (induction xs arbitrary: x) (auto split: option.splits if_splits)

lemma count_fold:
  fixes m :: "('k::linorder, nat) btree_map"
  assumes "m' = fold (\<lambda>c m. bt_insert (f c) (Suc (case bt_get m (f c) of None \<Rightarrow> 0 | Some n \<Rightarrow> n)) m) cs m" and "bt_ok m"
    and "n = length (filter (\<lambda>c. f c = q) cs)"
  shows "bt_ok m' \<and> bt_get m' q = (case bt_get m q of None \<Rightarrow> if n = 0 then None else Some n | Some k \<Rightarrow> Some (k + n))"
  using assms
proof (induction cs arbitrary: m n)
  case (Cons c cs)
  then show ?case by (cases "f c = q") (auto simp: bt_ok_insert split: option.splits)
qed (auto split: option.splits)

lemma reporter_counts_get:
  "bt_ok (reporter_counts D)"
  "bt_get (reporter_counts D) q =
     (if q = pd_local_node D \<or> claims_by q (pd_reachability D) = 0 then None else Some (claims_by q (pd_reachability D)))"
proof -
  let ?cs = "filter (\<lambda>claim. rc_reporter claim \<noteq> pd_local_node D) (bt_values (pd_reachability D))"
  have "filter (\<lambda>c. rc_reporter c = q) ?cs =
      (if q = pd_local_node D then [] else map snd (filter (\<lambda>p. rc_reporter (snd p) = q) (pd_reachability D)))"
    by (auto simp: bt_values_def filter_map o_def intro: arg_cong [of _ _ "map snd"] filter_cong)
  then have n: "(if q = pd_local_node D then 0 else claims_by q (pd_reachability D)) = length (filter (\<lambda>c. rc_reporter c = q) ?cs)"
    by (simp add: claims_by_def del: filter_filter)
  note counts = count_fold [OF refl bt_ok_Nil n, folded reporter_counts_def]
  show "bt_ok (reporter_counts D)" using counts by blast
  show "bt_get (reporter_counts D) q =
     (if q = pd_local_node D \<or> claims_by q (pd_reachability D) = 0 then None else Some (claims_by q (pd_reachability D)))"
    using counts by auto
qed

section \<open>Making room\<close>

lemma claims_removed:
  assumes "bt_ok m" and "(k, c) \<in> set m"
  shows "claims_by q m = claims_by q (filter (\<lambda>p. fst p \<noteq> k) m) + (if rc_reporter c = q then 1 else 0)"
    "length m = Suc (length (filter (\<lambda>p. fst p \<noteq> k) m))"
  using length_filter_remove [OF bt.keys_distinct [OF assms(1)] assms(2), of "\<lambda>p. rc_reporter (snd p) = q"]
    length_filter_remove [OF bt.keys_distinct [OF assms(1)] assms(2), of "\<lambda>_. True"]
  by (simp_all add: claims_by_def)

lemma claims_inserted:
  assumes "bt_ok m"
  shows "claims_by q (bt_insert k c m) = claims_by q (filter (\<lambda>p. fst p \<noteq> k) m) + (if rc_reporter c = q then 1 else 0)"
  using length_filter_bt_insert [OF assms] by (simp add: claims_by_def)

text \<open>Whose claim makes room.\<close>

lemma slot_victim_cases:
  assumes "slot_victim D reporter local_gateway = x"
  obtains (room) "x = Inl True" "length (pd_reachability D) < MAX_REACHABILITY_CLAIMS"
      "reporter \<noteq> pd_local_node D \<longrightarrow> claims_by reporter (pd_reachability D) < MAX_CLAIMS_PER_REPORTER"
  | (own) "x = Inr reporter" "reporter \<noteq> pd_local_node D"
  | (other) v where "x = Inr v" "v \<noteq> pd_local_node D" "local_gateway \<or> 1 < claims_by v (pd_reachability D)"
      "reporter \<noteq> pd_local_node D \<longrightarrow> claims_by reporter (pd_reachability D) = 0"
  | (refused) "x = Inl False"
proof -
  let ?r = "pd_reachability D" and ?counts = "reporter_counts D"
  define own where "own = (case bt_get ?counts reporter of None \<Rightarrow> 0 | Some n \<Rightarrow> n)"
  have own: "own = (if reporter = pd_local_node D then 0 else claims_by reporter ?r)"
    by (simp add: own_def reporter_counts_get)
  have x: "x = (if own \<ge> MAX_CLAIMS_PER_REPORTER \<or> length ?r \<ge> MAX_REACHABILITY_CLAIMS \<and> own > 0 then Inr reporter
      else if length ?r < MAX_REACHABILITY_CLAIMS then Inl True
      else case max_by_key snd ?counts of
        Some (largest, count) \<Rightarrow> if \<not> local_gateway \<and> count \<le> 1 then Inl False else Inr largest
      | None \<Rightarrow> Inl False)"
    using assms by (auto simp: slot_victim_def Let_def own_def)
  consider "own \<ge> MAX_CLAIMS_PER_REPORTER \<or> length ?r \<ge> MAX_REACHABILITY_CLAIMS \<and> own > 0"
    | "own < MAX_CLAIMS_PER_REPORTER" "length ?r < MAX_REACHABILITY_CLAIMS"
    | "own = 0" "length ?r \<ge> MAX_REACHABILITY_CLAIMS" by (meson gr0I not_le)
  then show ?thesis
  proof cases
    case 1
    then have "reporter \<noteq> pd_local_node D" using own by (auto simp: MAX_CLAIMS_PER_REPORTER_def)
    then show ?thesis using 1 x that(2) by simp
  next
    case 2
    then show ?thesis using x own that(1) by (auto split: if_splits)
  next
    case 3
    then have x: "x = (case max_by_key snd ?counts of
        Some (largest, count) \<Rightarrow> if \<not> local_gateway \<and> count \<le> 1 then Inl False else Inr largest
      | None \<Rightarrow> Inl False)" using x by (simp add: MAX_CLAIMS_PER_REPORTER_def)
    have "v \<noteq> pd_local_node D \<and> claims_by v ?r = n" if "max_by_key snd ?counts = Some (v, n)" for v n
      using max_by_key_mem [OF that] reporter_counts_get(1) [of D] reporter_counts_get(2) [of D v]
      by (simp add: bt_get_mem [symmetric] split: if_splits)
    then show ?thesis using x own 3 that(3,4) by (auto split: option.splits if_splits)
  qed
qed

text \<open>A granted slot: who lost a claim, and that the newcomer fits.\<close>

lemma reserve_granted:
  assumes "claims_ok D" and "reserve_reachability_slot D reporter local_gateway = (True, m)"
    and "local_gateway = (reporter = pd_local_node D)"
  shows "length m < MAX_REACHABILITY_CLAIMS \<and> bt_ok m \<and> set m \<subseteq> set (pd_reachability D) \<and>
    (\<forall>q. claims_by q m \<le> claims_by q (pd_reachability D)) \<and>
    (reporter \<noteq> pd_local_node D \<longrightarrow> claims_by reporter m < MAX_CLAIMS_PER_REPORTER \<and>
      (\<forall>q. q \<noteq> reporter \<and> 0 < claims_by q (pd_reachability D) \<longrightarrow> 0 < claims_by q m))"
proof -
  let ?r = "pd_reachability D"
  have ok: "bt_ok ?r" "length ?r \<le> MAX_REACHABILITY_CLAIMS"
    "reporter \<noteq> pd_local_node D \<longrightarrow> claims_by reporter ?r \<le> MAX_CLAIMS_PER_REPORTER"
    using assms(1) by (auto simp: claims_ok_def dest: spec [of _ reporter])
  have evicted: "\<exists>k c. (k, c) \<in> set ?r \<and> rc_reporter c = v \<and> m = filter (\<lambda>p. fst p \<noteq> k) ?r"
    if "slot_victim D reporter local_gateway = Inr v" for v
    using assms(2) that min_by_key_mem
    by (fastforce simp: reserve_reachability_slot_def split: option.splits intro: filter_cong)
  obtain x where x: "slot_victim D reporter local_gateway = x" by blast
  then show ?thesis
  proof (cases rule: slot_victim_cases)
    case room
    then have "m = ?r" using assms(2) x by (simp add: reserve_reachability_slot_def)
    then show ?thesis using room ok by auto
  next
    case own
    then obtain k c where kc: "(k, c) \<in> set ?r" "rc_reporter c = reporter" "m = filter (\<lambda>p. fst p \<noteq> k) ?r"
      using evicted x by blast
    show ?thesis using own ok bt_ok_filter claims_removed [OF ok(1) kc(1)] unfolding kc(2,3) by (auto split: if_splits)
  next
    case (other v)
    then obtain k c where kc: "(k, c) \<in> set ?r" "rc_reporter c = v" "m = filter (\<lambda>p. fst p \<noteq> k) ?r"
      using evicted x by blast
    show ?thesis
      using other ok assms(3) bt_ok_filter claims_removed [OF ok(1) kc(1)] unfolding kc(2,3)
      by (auto simp: MAX_CLAIMS_PER_REPORTER_def split: if_splits)
  next
    case refused
    then show ?thesis using assms(2) x by (simp add: reserve_reachability_slot_def)
  qed
qed

section \<open>The operations keep the table\<close>

lemma claims_ok_subset:
  assumes "claims_ok D" and "bt_ok m" and "length m \<le> length (pd_reachability D)"
    and "\<And>q. claims_by q m \<le> claims_by q (pd_reachability D)" and "\<forall>p \<in> set m. claim_filed (D\<lparr>pd_revocations := r\<rparr>) p"
  shows "claims_ok (D\<lparr>pd_revocations := r, pd_reachability := m\<rparr>)"
proof -
  have "claims_by q m \<le> (if q = pd_local_node D then 1 else MAX_CLAIMS_PER_REPORTER)" for q
    using assms(1) order_trans [OF assms(4) [of q]] by (simp add: claims_ok_def)
  then show ?thesis using assms(1-3,5) by (simp add: claims_ok_def claim_filed_def own_gateway_claim_def)
qed

lemma claims_by_filter: "claims_by q (filter Q m) \<le> claims_by q m"
  by (induction m) (auto simp: claims_by_def)

lemma claims_ok_filter:
  assumes "claims_ok D"
  shows "claims_ok (D\<lparr>pd_reachability := filter Q (pd_reachability D)\<rparr>)"
  using claims_ok_subset [OF assms, of "filter Q (pd_reachability D)" "pd_revocations D"] assms
  by (auto simp: claims_ok_def bt_ok_filter claims_by_filter)

lemma claims_ok_add:
  assumes "claims_ok D" and "length m < MAX_REACHABILITY_CLAIMS" and "bt_ok m" and "set m \<subseteq> set (pd_reachability D)"
    and le: "\<And>q. claims_by q m \<le> claims_by q (pd_reachability D)" and "claim_filed D (k, c)"
    and "claims_by (rc_reporter c) m < (if rc_reporter c = pd_local_node D then 1 else MAX_CLAIMS_PER_REPORTER)"
  shows "claims_ok (D\<lparr>pd_reachability := bt_insert k c m\<rparr>)"
proof -
  have "claims_by q (bt_insert k c m) \<le> (if q = pd_local_node D then 1 else MAX_CLAIMS_PER_REPORTER)" for q
  proof -
    have "claims_by q (pd_reachability D) \<le> (if q = pd_local_node D then 1 else MAX_CLAIMS_PER_REPORTER)"
      using assms(1) by (simp add: claims_ok_def)
    then show ?thesis
      using claims_inserted [OF assms(3), of q k c] claims_by_filter [of q "\<lambda>p. fst p \<noteq> k" m] assms(7) le [of q]
      by (cases "rc_reporter c = q") auto
  qed
  moreover have "length (bt_insert k c m) \<le> MAX_REACHABILITY_CLAIMS" using assms(2) by (simp add: length_bt_insert [OF assms(3)])
  moreover have "\<forall>p \<in> set (bt_insert k c m). claim_filed D p"
    using assms(1,4,6) bt.set_entries_insert [OF assms(3)] by (auto simp: claims_ok_def)
  ultimately show ?thesis
    using assms(3) by (simp add: claims_ok_def bt_ok_insert claim_filed_def own_gateway_claim_def)
qed

lemma claims_ok_replace:
  assumes "claims_ok D" and "claim_filed D (k, c)" and "bt_get (pd_reachability D) k = Some c'"
  shows "claims_ok (D\<lparr>pd_reachability := bt_insert k c (pd_reachability D)\<rparr>)"
    "claims_by q (bt_insert k c (pd_reachability D)) = claims_by q (pd_reachability D)"
proof -
  let ?r = "pd_reachability D"
  have ok: "bt_ok ?r" "\<forall>p \<in> set ?r. claim_filed D p" using assms(1) by (auto simp: claims_ok_def)
  then have old: "(k, c') \<in> set ?r" "rc_reporter c' = rc_reporter c"
    using assms(2,3) by (auto simp: bt_get_mem claim_filed_def)
  show same: "claims_by q (bt_insert k c ?r) = claims_by q ?r" for q
    using claims_inserted [OF ok(1), of q k c] claims_removed(1) [OF ok(1) old(1), of q] old(2) by simp
  have "\<forall>p \<in> set (bt_insert k c ?r). claim_filed D p" using ok(2) assms(2) bt.set_entries_insert [OF ok(1)] by auto
  then show "claims_ok (D\<lparr>pd_reachability := bt_insert k c ?r\<rparr>)"
    using assms(1,3) by (simp add: claims_ok_def bt_ok_insert length_bt_insert same claim_filed_def own_gateway_claim_def)
qed

abbreviation claims_changed :: "PeerDirectory \<Rightarrow> PeerDirectory \<Rightarrow> bool" where
  "claims_changed D D' \<equiv> D' = D\<lparr>pd_reachability := pd_reachability D'\<rparr>"

definition pruned :: "u64 \<Rightarrow> PeerDirectory \<Rightarrow> PeerDirectory" where
  "pruned now D = D\<lparr>pd_reachability := filter (\<lambda>(_, claim). rc_expires_at claim \<ge> now
       \<and> \<not> revocation_contains (pd_revocations D) (rc_subject claim)
       \<and> \<not> revocation_contains (pd_revocations D) (rc_reporter claim)) (pd_reachability D)\<rparr>"

lemma prune_pruned: "prune_reachability now = so_modify (pruned now)"
  by (simp add: prune_reachability_def pruned_def [abs_def])

lemma pruned_ok: "claims_ok D \<Longrightarrow> claims_ok (pruned now D)"
  unfolding pruned_def by (rule claims_ok_filter)

lemma pruned_fields [simp]:
  "pd_local_node (pruned now D) = pd_local_node D" "pd_revocations (pruned now D) = pd_revocations D"
  "pd_root_key (pruned now D) = pd_root_key D"
  by (simp_all add: pruned_def)

lemma pruned_changed: "claims_changed D (pruned now D)" "claims_changed D ((pruned now D)\<lparr>pd_reachability := m\<rparr>)"
  by (simp_all add: pruned_def)

lemma reserve_refused: "reserve_reachability_slot D reporter local_gateway = (False, m) \<Longrightarrow> m = pd_reachability D"
  by (auto simp: reserve_reachability_slot_def split: sum.splits option.splits)

text \<open>A claim under a new key: it fits, and every peer that had a claim still has one.\<close>

lemma claim_added:
  assumes ok: "claims_ok D" and filed: "claim_filed D (k, claim)" and other: "rc_reporter claim \<noteq> pd_local_node D"
    and new: "bt_get (pd_reachability D) k = None"
    and slot: "reserve_reachability_slot D (rc_reporter claim) False = (True, m)"
  shows "claims_ok (D\<lparr>pd_reachability := bt_insert k claim m\<rparr>)"
    "0 < claims_by q (pd_reachability D) \<Longrightarrow> 0 < claims_by q (bt_insert k claim m)"
proof -
  let ?r = "pd_reachability D"
  have m: "length m < MAX_REACHABILITY_CLAIMS" "bt_ok m" "set m \<subseteq> set ?r" "\<And>q. claims_by q m \<le> claims_by q ?r"
    "claims_by (rc_reporter claim) m < MAX_CLAIMS_PER_REPORTER"
    "\<And>q. q \<noteq> rc_reporter claim \<Longrightarrow> 0 < claims_by q ?r \<Longrightarrow> 0 < claims_by q m"
    using reserve_granted [OF ok slot] other by auto
  show "claims_ok (D\<lparr>pd_reachability := bt_insert k claim m\<rparr>)"
    by (rule claims_ok_add [OF ok m(1-4) filed]) (use m(5) other in simp)
  have "fst p \<noteq> k" if "p \<in> set m" for p
    using that m(3) new ok bt_get_mem [of ?r "fst p" "snd p"] by (auto simp: claims_ok_def)
  then have "filter (\<lambda>p. fst p \<noteq> k) m = m" by (intro filter_True) blast
  then show "0 < claims_by q (bt_insert k claim m)" if "0 < claims_by q ?r"
    using claims_inserted [OF m(2), of q k claim] m(6) [of q] that by (cases "rc_reporter claim = q") simp_all
qed

lemma ends_import_reachability:
  assumes "claims_ok D"
  shows "ends (import_reachability P claim now) D (\<lambda>r D'. claims_changed D D' \<and> claims_ok D' \<and>
    (\<forall>q. 0 < claims_by q (pd_reachability (pruned now D)) \<longrightarrow> 0 < claims_by q (pd_reachability D')))"
    (is "ends _ D (\<lambda>r. ?Q)")
proof -
  define E where "E = pruned now D"
  define Q where "Q = ?Q"
  let ?key = "\<lambda>x. (rc_subject claim, ec_address x, rc_reporter claim)"
  have ok: "claims_ok E" using assms unfolding E_def by (rule pruned_ok)
  have fields: "pd_local_node E = pd_local_node D" "pd_revocations E = pd_revocations D" by (simp_all add: E_def)
  have same: "Q D" using assms claims_by_filter by (fastforce simp: Q_def pruned_def dest: less_le_trans)
  have pruned: "Q E" using ok pruned_changed(1) unfolding E_def Q_def by blast
  have set: "Q (E\<lparr>pd_reachability := m\<rparr>)"
    if "claims_ok (E\<lparr>pd_reachability := m\<rparr>)" "\<And>q. 0 < claims_by q (pd_reachability E) \<Longrightarrow> 0 < claims_by q m" for m
    using that pruned_changed(2) unfolding E_def Q_def by simp
  have refused: "reserve_reachability_slot E (rc_reporter claim) False = (False, m) \<Longrightarrow> Q (E\<lparr>pd_reachability := m\<rparr>)" for m
    using reserve_refused [of E "rc_reporter claim" False m] pruned by simp
  have granted: "Q (E\<lparr>pd_reachability := bt_insert (?key x) claim m\<rparr>)"
    if "claim_filed E (?key x, claim)" "rc_reporter claim \<noteq> pd_local_node D" "bt_get (pd_reachability E) (?key x) = None"
      "reserve_reachability_slot E (rc_reporter claim) False = (True, m)" for x m
    by (rule set; rule claim_added [OF ok]) (use that fields in simp_all)
  have renewed: "Q (E\<lparr>pd_reachability := bt_insert (?key x) claim (pd_reachability E)\<rparr>)"
    if "claim_filed E (?key x, claim)" "bt_get (pd_reachability E) (?key x) = Some y" for x y
    using set claims_ok_replace [OF ok that] by simp
  have "ends (import_reachability P claim now) D (\<lambda>r. Q)"
    unfolding import_reachability_def prune_pruned
    using same pruned
    by (auto simp: Let_def E_def [symmetric] fields claim_filed_def intro: refused granted renewed
        split: sum.splits prod.splits if_splits option.splits)
  then show ?thesis unfolding Q_def .
qed

text \<open>The claim about the own gateway replaces the one before and always finds a slot of a peer to take.\<close>

abbreviation own_claims :: "PeerDirectory \<Rightarrow> ReachabilityClaim list" where
  "own_claims D \<equiv> filter (own_gateway_claim D) (bt_values (pd_reachability D))"

lemma own_gateway_claim_update [simp]: "own_gateway_claim (D\<lparr>pd_reachability := m\<rparr>) = own_gateway_claim D"
  by (simp add: own_gateway_claim_def fun_eq_iff)

lemma own_claim_added:
  assumes ok: "claims_ok D" and none: "own_claims D = []" and own: "own_gateway_claim D c"
    and slot: "reserve_reachability_slot D (pd_local_node D) True = (True, m)" and "k = (rc_subject c, rc_address c, rc_reporter c)"
  shows "claims_ok (D\<lparr>pd_reachability := bt_insert k c m\<rparr>)"
    "own_claims (D\<lparr>pd_reachability := bt_insert k c m\<rparr>) = [c]"
proof -
  have m: "length m < MAX_REACHABILITY_CLAIMS" "bt_ok m" "set m \<subseteq> set (pd_reachability D)"
    "\<And>q. claims_by q m \<le> claims_by q (pd_reachability D)"
    using reserve_granted [OF ok slot] by auto
  have foreign: "\<not> own_gateway_claim D (snd p) \<and> rc_reporter (snd p) \<noteq> pd_local_node D" if "p \<in> set (pd_reachability D)" for p
  proof -
    have "claim_filed D p" using that ok by (simp add: claims_ok_def)
    moreover have "\<not> own_gateway_claim D (snd p)" using that none by (simp add: bt_values_def filter_empty_conv)
    ultimately show ?thesis by (cases p) (auto simp: claim_filed_def)
  qed
  have by_own: "claims_by (pd_local_node D) m = 0"
    using foreign m(3) by (auto simp: claims_by_def filter_empty_conv)
  show "claims_ok (D\<lparr>pd_reachability := bt_insert k c m\<rparr>)"
    by (rule claims_ok_add [OF ok m]) (use own by_own assms(5) in \<open>simp_all add: claim_filed_def own_gateway_claim_def\<close>)
  let ?own = "\<lambda>p. own_gateway_claim D (snd p)"
  have "length (filter ?own (bt_insert k c m)) = 1"
    using length_filter_bt_insert [OF m(2), of ?own k c] foreign m(3) own by (auto simp: filter_empty_conv)
  then obtain p where p: "filter ?own (bt_insert k c m) = [p]" by (auto simp: length_Suc_conv)
  moreover have "(k, c) \<in> set (filter ?own (bt_insert k c m))" using own bt.set_entries_insert [OF m(2)] by simp
  ultimately have "p = (k, c)" by simp
  then have "filter (own_gateway_claim D) (bt_values (bt_insert k c m)) = [c]"
    using p by (simp add: bt_values_def filter_map o_def)
  then show "own_claims (D\<lparr>pd_reachability := bt_insert k c m\<rparr>) = [c]" by simp
qed

lemma ends_replace_local:
  assumes "claims_ok D"
  shows "ends (replace_local_gateway_reachability P claim now) D (\<lambda>r D'. claims_changed D D' \<and> claims_ok D' \<and>
    (is_ok r \<longrightarrow> own_claims D' = (case claim of None \<Rightarrow> [] | Some c \<Rightarrow> [c])))" (is "ends _ D ?Q")
proof -
  define E where "E = pruned now D"
  define F where "F = E\<lparr>pd_reachability := filter (\<lambda>(_, c). \<not> own_gateway_claim E c) (pd_reachability E)\<rparr>"
  define Q where "Q = ?Q"
  let ?key = "\<lambda>c. (rc_subject c, rc_address c, rc_reporter c)"
  have ok: "claims_ok E" using assms unfolding E_def by (rule pruned_ok)
  then have okF: "claims_ok F" unfolding F_def by (rule claims_ok_filter)
  have loc: "pd_local_node E = pd_local_node F" by (simp add: F_def)
  have ownF: "own_gateway_claim F = own_gateway_claim D" "own_gateway_claim E = own_gateway_claim D"
    by (simp_all add: F_def E_def pruned_def)
  have noneF: "own_claims F = []" by (auto simp: F_def filter_empty_conv bt_values_def own_gateway_claim_def)
  have changed: "claims_changed D (F\<lparr>pd_reachability := m\<rparr>)" "claims_changed D F" "claims_changed D E" for m
    by (simp_all add: F_def E_def pruned_def)
  have failed: "Q (Inl e) E" for e using ok changed(3) by (simp add: Q_def)
  have unchanged: "own_claims E = (case claim of None \<Rightarrow> [] | Some c \<Rightarrow> [c]) \<Longrightarrow> Q r E" for r
    using ok changed(3) by (simp add: Q_def)
  have removed: "claim = None \<Longrightarrow> Q r F" for r using okF changed(2) noneF by (simp add: Q_def)
  have refused: "reserve_reachability_slot F (pd_local_node F) True = (False, m) \<Longrightarrow> Q (Inl e) (F\<lparr>pd_reachability := m\<rparr>)" for m e
    using reserve_refused okF changed(2) by (fastforce simp: Q_def)
  have granted: "Q r (F\<lparr>pd_reachability := bt_insert (?key c) c m\<rparr>)"
    if "claim = Some c" "own_gateway_claim E c" "reserve_reachability_slot F (pd_local_node F) True = (True, m)" for c m r
    using own_claim_added [OF okF noneF _ that(3) refl] that(1,2) changed(1) by (simp add: Q_def ownF)
  have "ends (replace_local_gateway_reachability P claim now) D Q"
    unfolding replace_local_gateway_reachability_def prune_pruned
    by (auto simp: Let_def so_bind_assoc E_def [symmetric] F_def [symmetric] loc simp del: so_bind_modify so_bind_get
        intro: failed unchanged removed refused granted
        split: sum.splits prod.splits if_splits option.splits)
  then show ?thesis unfolding Q_def .
qed

end
