(* ===== verification/Peer_Invariant.thy ===== *)
theory Peer_Invariant
  imports Peer_Durability Peer_Claims Route_Durability
begin

text \<open>
  What every operation keeps of a peer directory, whatever the disk does: the entries stay well formed,
  versions never go back, evidence of equivocation and revocations stay, and the table of reachability
  claims stays bounded and fair.
\<close>

section \<open>What the operations change\<close>

lemma ends_journal_mut: "(\<And>j. ends (f j) D Q) \<Longrightarrow> Q (Err ReadOnlySnapshot) D \<Longrightarrow> ends (so_bind directory_journal_mut f) D Q"
  by (rule ends_bind) (cases "pd_journal D"; simp add: directory_journal_mut_def)

text \<open>Persisting replaces at most the handle of the journal.\<close>

definition rejournaled :: "PeerDirectory \<Rightarrow> PeerDirectory \<Rightarrow> bool" where
  "rejournaled D D' \<longleftrightarrow> D' = D\<lparr>pd_journal := pd_journal D'\<rparr>"

lemma rejournaled_intros [simp]: "rejournaled D D" "rejournaled D (D\<lparr>pd_journal := j\<rparr>)"
  by (simp_all add: rejournaled_def)

lemma rejournaled_trans: "rejournaled D D' \<Longrightarrow> rejournaled D' D'' \<Longrightarrow> rejournaled D D''"
  by (cases D; cases D'; cases D'') (simp add: rejournaled_def)

lemma rejournaled_fields:
  "rejournaled D D' \<Longrightarrow> pd_entries D' = pd_entries D \<and> pd_local_node D' = pd_local_node D \<and> pd_root_key D' = pd_root_key D \<and>
     pd_revocations D' = pd_revocations D \<and> pd_reachability D' = pd_reachability D \<and> pd_routes D' = pd_routes D \<and>
     pd_history_address_limit D' = pd_history_address_limit D"
  by (cases D; cases D') (simp add: rejournaled_def)

lemma ends_directory_compact: "ends (directory_compact P) D (\<lambda>r. rejournaled D)"
  unfolding directory_compact_def by (auto intro!: ends_journal_mut ends_attempt split: sum.splits)

lemma ends_compact_if_needed: "ends (directory_compact_if_needed P) D (\<lambda>r. rejournaled D)"
  unfolding directory_compact_if_needed_def
  by (auto intro!: ends_journal_mut ends_attempt ends_directory_compact split: sum.splits)

lemma ends_after:
  assumes "ends m D (\<lambda>r. rejournaled D)" and "\<And>x D'. rejournaled D D' \<Longrightarrow> ends (f x) D' (\<lambda>r. rejournaled D')"
  shows "ends (so_bind m f) D (\<lambda>r. rejournaled D)"
proof (rule ends_bind, rule ends_weaken [OF assms(1)])
  fix r D'
  assume D': "rejournaled D D'"
  then show "case r of Inl e \<Rightarrow> rejournaled D D' | Inr x \<Rightarrow> ends (f x) D' (\<lambda>r. rejournaled D)"
    by (auto intro: ends_weaken [OF assms(2) [OF D']] rejournaled_trans split: sum.split)
qed

lemma ends_directory_append: "ends (directory_append P run) D (\<lambda>r. rejournaled D)"
  unfolding directory_append_def
  by (auto intro!: ends_journal_mut ends_attempt ends_after [OF ends_directory_compact] split: sum.splits)

lemma ends_persist_contact: "ends (persist_contact P c) D (\<lambda>r. rejournaled D)"
  unfolding persist_contact_def
  by (auto intro!: ends_after [OF ends_compact_if_needed] ends_directory_append split: sum.splits)

text \<open>Applying a contact changes the entries at most as merging it does, persisted or not.\<close>

definition merged :: "PeerContact \<Rightarrow> PeerDirectory \<Rightarrow> PeerDirectory \<Rightarrow> bool" where
  "merged c D D' \<longleftrightarrow> D' = D\<lparr>pd_journal := pd_journal D', pd_entries := pd_entries D'\<rparr> \<and>
     (pd_entries D' = pd_entries D \<or> absorb (pd_local_node D) (pd_history_address_limit D) c (pd_entries D) = Ok (pd_entries D'))"

lemma merged_simps:
  "rejournaled D D' \<Longrightarrow> merged c D D'"
  "rejournaled D D' \<Longrightarrow> absorb (pd_local_node D) (pd_history_address_limit D) c (pd_entries D) = Ok es \<Longrightarrow>
     merged c D (D'\<lparr>pd_entries := es\<rparr>)"
  by (cases D; cases D'; simp add: rejournaled_def merged_def)+

lemma ends_save: "ends (if persist then persist_contact P c else so_ok ()) D (\<lambda>r. rejournaled D)"
  using ends_persist_contact by simp

text \<open>A success means that the contact was merged.\<close>

definition applied :: "PeerContact \<Rightarrow> PeerDirectory \<Rightarrow> PeerDirectoryError + 'a \<Rightarrow> PeerDirectory \<Rightarrow> bool" where
  "applied c D r D' \<longleftrightarrow> merged c D D' \<and> (is_ok r \<and> bt_ok (pd_entries D) \<longrightarrow>
     absorb (pd_local_node D) (pd_history_address_limit D) c (pd_entries D) = Ok (pd_entries D'))"

lemma applied_simps:
  "rejournaled D D' \<Longrightarrow> applied c D (Err e) D'"
  "rejournaled D D' \<Longrightarrow> absorb (pd_local_node D) (pd_history_address_limit D) c (pd_entries D) = Ok es \<Longrightarrow>
     applied c D r (D'\<lparr>pd_entries := es\<rparr>)"
  "bt_ok (pd_entries D) \<longrightarrow> absorb (pd_local_node D) (pd_history_address_limit D) c (pd_entries D) = Ok (pd_entries D) \<Longrightarrow> applied c D r D"
  by (simp_all add: applied_def merged_simps)

lemma ends_applied: "ends (apply_contact P c persist) D (applied c D)"
proof (cases "contact_node c = pd_local_node D")
  case True
  then show ?thesis by (simp add: apply_contact_def applied_simps Let_def)
next
  case other: False
  define save where "save = (if persist then persist_contact P c else so_ok ())"
  have saved: "ends (so_bind save f) D (applied c D)"
    if f: "\<And>D'. rejournaled D D' \<Longrightarrow> pd_entries D' = pd_entries D \<Longrightarrow> ends (f ()) D' (applied c D)" for f :: "unit \<Rightarrow> ImportDecision dir_op"
    unfolding save_def by (rule ends_bind, rule ends_weaken [OF ends_save]) (auto split: sum.split simp: applied_simps f rejournaled_fields)
  show ?thesis
  proof (cases "bt_get (pd_entries D) (contact_node c)")
    case None
    then show ?thesis
      unfolding apply_contact_def Let_def save_def [symmetric]
      using other by (auto intro!: saved simp: applied_simps set_entry_def absorb_def)
  next
    case (Some e)
    have got: "ends (so_bind (get_entry (contact_node c)) f) D' Q = ends (f e) D' Q" if "rejournaled D D'" for D' f Q
      using Some rejournaled_fields [OF that] by (simp add: get_entry_def ends_def so_bind_def so_run)
    have Some': "absorb (pd_local_node D) (pd_history_address_limit D) c (pd_entries D) =
        rbind (absorb_entry (pd_history_address_limit D) c e) (\<lambda>e. Ok (bt_insert (contact_node c) e (pd_entries D)))"
      using Some other by (simp add: absorb_def)
    have "decide (Some (pc_endpoint (pe_current e))) (pc_endpoint c) \<noteq> AcceptFirst" by (simp add: decide_Some)
    then show ?thesis
      unfolding apply_contact_def Let_def save_def [symmetric]
      using other Some
      by (auto intro!: saved split: MergeDecision.split simp: applied_simps got set_entry_def Some' absorb_entry_def bt_insert_same)
  qed
qed

lemma ends_apply_contact: "ends (apply_contact P c persist) D (\<lambda>r. merged c D)"
  by (rule ends_weaken [OF ends_applied]) (simp add: applied_def)

section \<open>Versions never go back\<close>

text \<open>
  A later register of a peer has the same generation, at least the sequence number, and the evidence of
  equivocation if there was one: then it is frozen.
\<close>

definition register_le :: "PeerContact \<times> PeerContact option \<Rightarrow> PeerContact \<times> PeerContact option \<Rightarrow> bool" where
  "register_le r r' \<longleftrightarrow> generation_of (fst r') = generation_of (fst r) \<and> sequence_of (fst r) \<le> sequence_of (fst r') \<and>
     (snd r \<noteq> None \<longrightarrow> r' = r)"

definition registers_le :: "registers \<Rightarrow> registers \<Rightarrow> bool" where
  "registers_le rs rs' \<longleftrightarrow> (\<forall>n r. rs n = Some r \<longrightarrow> (\<exists>r'. rs' n = Some r' \<and> register_le r r'))"

lemma register_le_refl [simp]: "register_le r r"
  by (simp add: register_le_def)

lemma register_le_trans: "register_le r r' \<Longrightarrow> register_le r' r'' \<Longrightarrow> register_le r r''"
  by (auto simp: register_le_def)

lemma registers_le_refl: "registers_le rs rs"
  by (simp add: registers_le_def)

lemma registers_le_trans: "registers_le rs rs' \<Longrightarrow> registers_le rs' rs'' \<Longrightarrow> registers_le rs rs''"
  unfolding registers_le_def by (meson register_le_trans)

lemma absorb_registers_le:
  assumes "absorb_registers loc c rs = Ok rs'"
  shows "registers_le rs rs'"
proof -
  consider "rs (contact_node c) = None" "rs' = rs(contact_node c \<mapsto> (c, None))"
    | r r' where "rs (contact_node c) = Some r" "absorb_register c r = Ok r'" "rs' = rs(contact_node c \<mapsto> r')"
    using assms by (auto simp: absorb_registers_def result_simps split: if_splits option.splits)
  then show ?thesis
  proof cases
    case 1
    then show ?thesis by (auto simp: registers_le_def)
  next
    case 2
    then have "register_le r r'"
      by (cases r) (auto simp: absorb_register_def register_le_def split: if_splits)
    then show ?thesis using 2 by (cases r') (auto simp: registers_le_def)
  qed
qed

lemma absorb_each_le: "registers_le rs (absorb_each loc cs rs)"
proof (induction cs arbitrary: rs)
  case (Cons c cs)
  show ?case
  proof (cases "absorb_registers loc c rs")
    case (Inr rs')
    then show ?thesis using registers_le_trans [OF absorb_registers_le [OF Inr] Cons.IH] by (simp add: absorb_each_def)
  qed (use Cons.IH in \<open>simp add: absorb_each_def\<close>)
qed (simp add: absorb_each_def registers_le_refl)

lemma absorb_le:
  assumes "absorb loc limit c es = Ok es'" and "bt_ok es"
  shows "registers_le (registers_of es) (registers_of es')"
  using absorb_registers_le absorb_refines [OF assms(2), of loc limit c] assms(1) by fastforce

section \<open>The invariant\<close>

definition directory_ok :: "prims \<Rightarrow> text_codecs \<Rightarrow> PeerDirectory \<Rightarrow> bool" where
  "directory_ok P J D \<longleftrightarrow>
     MIN_ADDRESS_HISTORY \<le> pd_history_address_limit D \<and> pd_history_address_limit D \<le> MAX_ADDRESS_HISTORY \<and>
     entries_ok P (pd_root_key D) (pd_local_node D) (pd_history_address_limit D) (pd_entries D) \<and>
     verify_revocations P (pd_revocations D) (pd_root_key D) = Ok () \<and> claims_ok D \<and>
     history_ok P J (pd_local_node D) (pd_history_address_limit D) (pd_routes D)"

text \<open>What a later directory keeps of an earlier one.\<close>

definition revocations_le :: "SignedRevocationList \<Rightarrow> SignedRevocationList \<Rightarrow> bool" where
  "revocations_le a b \<longleftrightarrow> rl_serial (sr_list a) \<le> rl_serial (sr_list b) \<and>
     (\<forall>n. revocation_contains a n \<longrightarrow> revocation_contains b n)"

definition directory_le :: "PeerDirectory \<Rightarrow> PeerDirectory \<Rightarrow> bool" where
  "directory_le D D' \<longleftrightarrow>
     pd_root_key D' = pd_root_key D \<and> pd_local_node D' = pd_local_node D \<and>
     pd_history_address_limit D' = pd_history_address_limit D \<and>
     registers_le (registers_of (pd_entries D)) (registers_of (pd_entries D')) \<and> revocations_le (pd_revocations D) (pd_revocations D')"

lemma revocations_le_refl: "revocations_le a a"
  by (simp add: revocations_le_def)

lemma directory_le_refl: "directory_le D D"
  by (simp add: directory_le_def registers_le_refl revocations_le_refl)

lemma directory_le_trans: "directory_le D D' \<Longrightarrow> directory_le D' D'' \<Longrightarrow> directory_le D D''"
  unfolding directory_le_def revocations_le_def by (auto intro: registers_le_trans)

abbreviation kept :: "prims \<Rightarrow> text_codecs \<Rightarrow> PeerDirectory \<Rightarrow> PeerDirectory \<Rightarrow> bool" where
  "kept P J D D' \<equiv> directory_ok P J D' \<and> directory_le D D'"

text \<open>New entries that satisfy the invariant and are as new as the old ones.\<close>

lemma kept_entries:
  assumes "directory_ok P J D" and "entries_ok P (pd_root_key D) (pd_local_node D) (pd_history_address_limit D) es"
    and "registers_le (registers_of (pd_entries D)) (registers_of es)" and "D' = D\<lparr>pd_journal := j, pd_entries := es\<rparr>"
  shows "kept P J D D'"
  using assms
  by (simp add: directory_ok_def directory_le_def revocations_le_refl claims_ok_def claim_filed_def own_gateway_claim_def)

lemma rejournaled_entries: "rejournaled D D' \<Longrightarrow> D'\<lparr>pd_entries := es\<rparr> = D\<lparr>pd_journal := pd_journal D', pd_entries := es\<rparr>"
  by (cases D; cases D') (simp add: rejournaled_def)

lemma kept_rejournaled:
  assumes "directory_ok P J D" and "rejournaled D D'"
  shows "kept P J D D'"
  by (rule kept_entries [OF assms(1), of "pd_entries D" _ "pd_journal D'"])
    (use assms rejournaled_entries [OF assms(2), of "pd_entries D'"] in
      \<open>simp_all add: directory_ok_def registers_le_refl rejournaled_fields\<close>)

lemma kept_merged:
  assumes "directory_ok P J D" and "merged c D D'" and "stored P (pd_root_key D) c"
  shows "kept P J D D'"
proof -
  have es: "entries_ok P (pd_root_key D) (pd_local_node D) (pd_history_address_limit D) (pd_entries D)"
    using assms(1) by (simp add: directory_ok_def)
  then have ok: "bt_ok (pd_entries D)" by (simp add: entries_ok_def)
  show ?thesis
    by (rule kept_entries [OF assms(1), of "pd_entries D'" _ "pd_journal D'"])
      (use assms(2) es absorb_ok [OF es assms(3)] absorb_le [OF _ ok] in \<open>auto simp: merged_def registers_le_refl\<close>)
qed

section \<open>The operations\<close>

lemma ends_import_contact:
  assumes "directory_ok P J D" and "contact_wf P c"
  shows "ends (import_contact P c now) D (\<lambda>r. kept P J D)"
proof -
  have same: "kept P J D D" using assms(1) directory_le_refl by blast
  have "ends (so_bind (so_catch (apply_contact P c True)) (\<lambda>result.
      so_bind (directory_compact_if_needed P) (\<lambda>_. so_lift result))) D (\<lambda>r. kept P J D)"
    if v: "verify_contact P c (pd_root_key D) now = Ok ()"
  proof (rule ends_catch, rule ends_weaken [OF ends_apply_contact], rule ends_bind, rule ends_weaken [OF ends_compact_if_needed])
    fix r1 D1 r2 D2
    assume D1: "merged c D D1" and D2: "rejournaled D1 D2"
    have "stored P (pd_root_key D) c" using assms(2) verified_historical [OF v] by (simp add: stored_def)
    then have "kept P J D D1" using kept_merged [OF assms(1) D1] by blast
    then have "kept P J D D2" using kept_rejournaled [OF _ D2] directory_le_trans by blast
    then show "case r2 of Inl e \<Rightarrow> kept P J D D2 | Inr x \<Rightarrow> ends (so_lift r1) D2 (\<lambda>r. kept P J D)"
      by (auto split: sum.split)
  qed
  then show ?thesis unfolding import_contact_def using same by (auto simp: result_simps split: sum.splits)
qed

lemma ends_import_page:
  assumes "directory_ok P J D" and "\<forall>c \<in> set contacts. contact_wf P c"
  shows "ends (import_page P contacts now) D (\<lambda>r. kept P J D)"
  unfolding ends_def
proof
  fix d
  let ?cs = "coalesced_candidates P D contacts now" and ?root = "pd_root_key D"
  have same: "kept P J D D" using assms(1) directory_le_refl by blast
  have stored: "\<forall>c \<in> set ?cs. stored P ?root c"
    using coalesced_props(2) [of P D contacts now] assms(2) verified_historical by (fastforce simp: stored_def admissible_def)
  obtain accepted preview where pre: "preview_contacts P ?cs (page_preview D) d = (accepted, preview)" by fastforce
  have es0: "entries_ok P ?root (pd_local_node D) (pd_history_address_limit D) (pd_entries D)"
    using assms(1) by (simp add: directory_ok_def)
  obtain es where es: "pd_entries preview = es" "entries_ok P ?root (pd_local_node D) (pd_history_address_limit D) es"
    "registers_le (registers_of (pd_entries D)) (registers_of es)"
    using preview_props [OF pre _ stored] es0 absorb_each_le by (auto simp: page_preview_def)
  have "ends (so_bind (so_lift (map_err PeerDirectoryError.Contact (try_map (encode_contact P) accepted))) (\<lambda>frames.
      so_bind (directory_compact_if_needed P) (\<lambda>_.
      so_bind (directory_append P (journal_append_batch P frames)) (\<lambda>_.
      so_bind (so_modify (\<lambda>D. D\<lparr>pd_entries := pd_entries preview\<rparr>)) (\<lambda>_. so_ok True))))) D (\<lambda>r. kept P J D)"
  proof (simp only: ends_bind_lift, split sum.split, intro conjI allI impI)
    fix frames
    have appended: "ends (so_bind (directory_append P (journal_append_batch P frames)) (\<lambda>_.
        so_bind (so_modify (\<lambda>D. D\<lparr>pd_entries := pd_entries preview\<rparr>)) (\<lambda>_. so_ok True))) D1 (\<lambda>r. kept P J D)"
      if D1: "rejournaled D D1" for D1
    proof (rule ends_bind, rule ends_weaken [OF ends_directory_append])
      fix r D2
      assume "rejournaled D1 D2"
      then have D2: "rejournaled D D2" using rejournaled_trans [OF D1] by blast
      then show "case r of Inl e \<Rightarrow> kept P J D D2
        | Inr x \<Rightarrow> ends (so_bind (so_modify (\<lambda>D. D\<lparr>pd_entries := pd_entries preview\<rparr>)) (\<lambda>_. so_ok True)) D2 (\<lambda>r. kept P J D)"
        using kept_rejournaled [OF assms(1) D2] kept_entries [OF assms(1) es(2,3) rejournaled_entries [OF D2]] es(1)
        by (auto split: sum.split simp del: so_bind_modify)
    qed
    show "ends (so_bind (directory_compact_if_needed P) (\<lambda>_.
        so_bind (directory_append P (journal_append_batch P frames)) (\<lambda>_.
        so_bind (so_modify (\<lambda>D. D\<lparr>pd_entries := pd_entries preview\<rparr>)) (\<lambda>_. so_ok True)))) D (\<lambda>r. kept P J D)"
      by (rule ends_bind, rule ends_weaken [OF ends_compact_if_needed])
        (auto split: sum.split intro: appended simp: kept_rejournaled [OF assms(1)])
  qed (use assms(1) directory_le_refl in auto)
  then show "case import_page P contacts now D d of (r, D', _) \<Rightarrow> kept P J D D'"
    using same pre by (auto simp: import_page_def Let_def ends_def split: if_splits)
qed

lemma ends_set_revocations:
  assumes "directory_ok P J D"
  shows "ends (set_revocations P revocations) D (\<lambda>r. kept P J D)"
proof -
  define Q where "Q = kept P J D"
  have same: "Q D" using assms directory_le_refl by (simp add: Q_def)
  let ?m = "filter (\<lambda>(_, claim). \<not> revocation_contains revocations (rc_subject claim)
    \<and> \<not> revocation_contains revocations (rc_reporter claim)) (pd_reachability D)"
  have replaced: "Q (D\<lparr>pd_revocations := revocations, pd_reachability := ?m\<rparr>)"
    if v: "verify_revocations P revocations (pd_root_key D) = Ok ()"
      and new: "rl_serial (sr_list (pd_revocations D)) < rl_serial (sr_list revocations)"
      and all: "\<forall>n \<in> set (rl_revoked_nodes (sr_list (pd_revocations D))). revocation_contains revocations n"
  proof -
    have ok: "claims_ok D" "verify_revocations P (pd_revocations D) (pd_root_key D) = Ok ()"
      using assms by (simp_all add: directory_ok_def)
    have "claims_ok (D\<lparr>pd_revocations := revocations, pd_reachability := ?m\<rparr>)"
      using ok(1) by (intro claims_ok_subset) (auto simp: claims_ok_def bt_ok_filter claims_by_filter claim_filed_def own_gateway_claim_def)
    moreover have "revocation_validate_shape (sr_list (pd_revocations D)) = Ok ()"
      using ok(2) unfolding verify_revocations_Ok revocation_wf_def by blast
    then have "revocations_le (pd_revocations D) revocations"
      using new all by (simp add: revocations_le_def revocation_contains_iff)
    ultimately show ?thesis using assms v by (simp add: Q_def directory_ok_def directory_le_def registers_le_refl)
  qed
  have "ends (set_revocations P revocations) D (\<lambda>r. Q)"
    unfolding set_revocations_def Let_def
    using same by (auto simp: result_simps list_ex_iff intro!: replaced split: sum.splits)
  then show ?thesis unfolding Q_def .
qed

lemma kept_claims:
  assumes "directory_ok P J D" and "claims_changed D D'" and "claims_ok D'"
  shows "kept P J D D'"
proof -
  have f: "pd_root_key D' = pd_root_key D" "pd_local_node D' = pd_local_node D" "pd_entries D' = pd_entries D"
    "pd_revocations D' = pd_revocations D" "pd_history_address_limit D' = pd_history_address_limit D" "pd_routes D' = pd_routes D"
    by (subst assms(2); simp)+
  show ?thesis using assms(1,3) unfolding directory_ok_def directory_le_def f by (simp add: registers_le_refl revocations_le_refl)
qed

lemma ends_claims:
  assumes "directory_ok P J D"
  shows "ends (import_reachability P claim now) D (\<lambda>r. kept P J D)"
    "ends (replace_local_gateway_reachability P gateway now) D (\<lambda>r. kept P J D)"
proof -
  have ok: "claims_ok D" using assms by (simp add: directory_ok_def)
  show "ends (import_reachability P claim now) D (\<lambda>r. kept P J D)"
    by (rule ends_weaken [OF ends_import_reachability [OF ok]]) (use kept_claims [OF assms] in blast)
  show "ends (replace_local_gateway_reachability P gateway now) D (\<lambda>r. kept P J D)"
    by (rule ends_weaken [OF ends_replace_local [OF ok]]) (use kept_claims [OF assms] in blast)
qed

lemma ends_remember_route:
  assumes "directory_ok P J D"
  shows "ends (remember_authenticated_route P J device contact address local_ip now) D (\<lambda>r. kept P J D)"
proof -
  define Q where "Q = kept P J D"
  have same: "Q D" using assms directory_le_refl by (simp add: Q_def)
  have "Q (D\<lparr>pd_routes := routes\<rparr>)"
    if "route_remember P J device peer pin address local_ip now (pd_routes D) d = (r, routes, d')"
      "device_node_id P device = pd_local_node D" for peer pin routes r d d'
    using assms remember_keeps(2) [OF that(1), of "pd_history_address_limit D"] that(2)
    by (simp add: Q_def directory_ok_def directory_le_def registers_le_refl revocations_le_refl MIN_ADDRESS_HISTORY_def
        claims_ok_def claim_filed_def own_gateway_claim_def)
  then have "ends (remember_authenticated_route P J device contact address local_ip now) D (\<lambda>r. Q)"
    unfolding remember_authenticated_route_def Let_def using same
    by (auto simp: ends_def so_bind_lift so_run split: sum.splits prod.splits option.splits)
  then show ?thesis unfolding Q_def .
qed

section \<open>Opening\<close>

lemma directory_new_ok:
  assumes "validate_history_limit limit = Ok ()" and "verify_revocations P revocations root = Ok ()" and "history_ok P J loc limit routes"
  shows "directory_ok P J (directory_new root loc revocations limit j routes)"
  using assms
  by (auto simp: directory_ok_def directory_new_def validate_history_limit_def entries_ok_def claims_ok_def claims_by_def split: if_splits)

lemma replay_contacts_ok:
  assumes "directory_ok P J D" and "replay_contacts P fs D d = (Ok x, D', d')"
  shows "directory_ok P J D' \<and> (\<exists>es. D' = D\<lparr>pd_entries := es\<rparr>)"
proof -
  have es: "entries_ok P (pd_root_key D) (pd_local_node D) (pd_history_address_limit D) (pd_entries D)"
    using assms(1) by (simp add: directory_ok_def)
  then have "bt_ok (pd_entries D)" by (simp add: entries_ok_def)
  from replay_contacts_entries [OF this, of P fs d] assms(2)
  obtain es' where "replay_entries P (pd_root_key D) (pd_local_node D) (pd_history_address_limit D) fs (pd_entries D) = Ok es'"
    "D' = D\<lparr>pd_entries := es'\<rparr>"
    by (cases "replay_entries P (pd_root_key D) (pd_local_node D) (pd_history_address_limit D) fs (pd_entries D)") auto
  then show ?thesis
    using assms(1) replay_entries_ok [OF _ es]
    by (auto simp: directory_ok_def claims_ok_def claim_filed_def own_gateway_claim_def)
qed

text \<open>A directory opens for reading and writing, or for reading only, from whatever the disks hold.\<close>

definition opened :: "prims \<Rightarrow> text_codecs \<Rightarrow> bytes32 \<Rightarrow> NodeId \<Rightarrow> SignedRevocationList \<Rightarrow> nat \<Rightarrow> PeerDirectory \<Rightarrow> bool" where
  "opened P J root loc revocations limit D \<longleftrightarrow> (\<exists>validated s d s' d'.
     open_with_history_limit P J validated root loc revocations limit s d = (Ok D, s', d') \<or>
     open_read_only_with_history_limit P J validated root loc revocations limit s d = (Ok D, s', d'))"

lemma so_bind_OkD:
  "so_bind m f st d = (Ok y, st', d') \<Longrightarrow> \<exists>x st1 d1. m st d = (Ok x, st1, d1) \<and> f x st1 d1 = (Ok y, st', d')"
  by (auto simp: so_bind_def split: prod.splits sum.splits)

lemma on_routes_OkD: "on_routes m s d = (Ok x, s', d') \<Longrightarrow> m s = (Ok x, s') \<and> d' = d"
  by (auto simp: on_routes_def split: prod.splits)

lemma on_directory_OkD: "on_directory D m s d = (Ok D', s', d') \<Longrightarrow> s' = s \<and> (\<exists>x. m D d = (Ok x, D', d'))"
  by (auto simp: on_directory_def split: prod.splits sum.splits)

lemma opened_ok:
  assumes "opened P J root loc revocations limit D"
  shows "directory_ok P J D \<and> pd_root_key D = root \<and> pd_local_node D = loc \<and> pd_revocations D = revocations \<and>
    pd_history_address_limit D = limit"
proof -
  obtain routes ro s s' j fs D1 d d1 x where
    limit: "validate_history_limit limit = Ok ()" and v: "verify_revocations P revocations root = Ok ()"
    and routes: "route_history_open P J loc limit ro s = (Ok routes, s')"
    and D1: "replay_contacts P fs (directory_new root loc revocations limit j routes) d = (Ok x, D1, d1)"
    and D: "rejournaled D1 D"
  proof -
    consider validated s d s' d' where "open_with_history_limit P J validated root loc revocations limit s d = (Ok D, s', d')"
      | validated s d s' d' where "open_read_only_with_history_limit P J validated root loc revocations limit s d = (Ok D, s', d')"
      using assms unfolding opened_def by blast
    then show thesis
    proof cases
      case 1
      have "rejournaled D1 D" if "(if b then directory_compact_if_needed P else directory_compact P) D1 d1 = (r, D, d2)" for b D1 d1 r d2
        using that endsD [OF ends_compact_if_needed] endsD [OF ends_directory_compact] by (cases b) auto
      then show thesis
        using 1 that unfolding open_with_history_limit_def
        by (auto simp: so_bind_lift so_bind_attempt so_run result_simps split: sum.splits prod.splits
            dest!: so_bind_OkD on_routes_OkD on_directory_OkD)
    next
      case 2
      then show thesis
        using that rejournaled_intros(1) unfolding open_read_only_with_history_limit_def
        by (auto simp: so_bind_lift so_bind_attempt so_run result_simps split: sum.splits prod.splits if_splits
            simp del: replay_contacts.simps dest!: so_bind_OkD on_routes_OkD on_directory_OkD)
    qed
  qed
  have "0 < limit" using limit by (simp add: validate_history_limit_def MIN_ADDRESS_HISTORY_def split: if_splits)
  then have "directory_ok P J (directory_new root loc revocations limit j routes)"
    using directory_new_ok [OF limit v] route_history_open_ok [OF routes] by blast
  from replay_contacts_ok [OF this D1] have "directory_ok P J D1" "pd_root_key D1 = root" "pd_local_node D1 = loc"
    "pd_revocations D1 = revocations" "pd_history_address_limit D1 = limit"
    by (auto simp: directory_new_def)
  then show ?thesis using kept_rejournaled [OF _ D] rejournaled_fields [OF D] by auto
qed

section \<open>A running directory\<close>

text \<open>The public operations, with any arguments and on any disk.\<close>

inductive directory_step :: "prims \<Rightarrow> text_codecs \<Rightarrow> PeerDirectory \<Rightarrow> PeerDirectory \<Rightarrow> bool" for P J where
  takes: "contact_wf P c \<Longrightarrow> import_contact P c now D d = (r, D', d') \<Longrightarrow> directory_step P J D D'"
| takes_page: "\<forall>c \<in> set cs. contact_wf P c \<Longrightarrow> import_page P cs now D d = (r, D', d') \<Longrightarrow> directory_step P J D D'"
| revokes: "set_revocations P revocations D d = (r, D', d') \<Longrightarrow> directory_step P J D D'"
| compacts: "directory_compact P D d = (r, D', d') \<Longrightarrow> directory_step P J D D'"
| claims: "import_reachability P claim now D d = (r, D', d') \<Longrightarrow> directory_step P J D D'"
| maps: "replace_local_gateway_reachability P gateway now D d = (r, D', d') \<Longrightarrow> directory_step P J D D'"
| remembers: "remember_authenticated_route P J device c address local_ip now D d = (r, D', d') \<Longrightarrow> directory_step P J D D'"

lemma directory_step_kept:
  assumes "directory_step P J D D'" and "directory_ok P J D"
  shows "kept P J D D'"
  using assms(1)
proof cases
  case (takes c now d r d')
  show ?thesis by (rule endsD [OF ends_import_contact [OF assms(2) takes(1)] takes(2)])
next
  case (takes_page cs now d r d')
  show ?thesis by (rule endsD [OF ends_import_page [OF assms(2) takes_page(1)] takes_page(2)])
next
  case (revokes revocations d r d')
  show ?thesis by (rule endsD [OF ends_set_revocations [OF assms(2)] revokes])
next
  case (compacts d r d')
  show ?thesis using kept_rejournaled [OF assms(2) endsD [OF ends_directory_compact compacts]] .
next
  case (claims claim now d r d')
  show ?thesis by (rule endsD [OF ends_claims(1) [OF assms(2)] claims])
next
  case (maps gateway now d r d')
  show ?thesis by (rule endsD [OF ends_claims(2) [OF assms(2)] maps])
next
  case (remembers device c address local_ip now d r d')
  show ?thesis by (rule endsD [OF ends_remember_route [OF assms(2)] remembers])
qed

lemma directory_steps_kept:
  assumes "(directory_step P J)\<^sup>*\<^sup>* D D'" and "directory_ok P J D"
  shows "kept P J D D'"
  using assms(1)
proof (induction rule: rtranclp_induct)
  case (step D1 D2)
  then show ?case using directory_step_kept [OF step.hyps(2)] directory_le_trans by blast
qed (use assms(2) directory_le_refl in blast)

end
