(* ===== verification/Peer_Runs.thy ===== *)
theory Peer_Runs
  imports Peer_Properties Peer_Invariant
begin

text \<open>
  Properties of a running peer directory, over every sequence of its operations: the invariant, versions
  that never go back, and bounded and fair claims.
\<close>

section \<open>A sample run\<close>

lemma sample_opened:
  assumes "verify_revocations reference_prims revocations sample_root_key = Ok ()"
  obtains routes where "opened reference_prims J sample_root_key (sample_node 9) revocations 16
    (directory_new sample_root_key (sample_node 9) revocations 16 (Some (handle_of reference_prims [])) routes)"
proof -
  let ?P = reference_prims and ?d = "journal_disk reference_prims 0 [] []"
  obtain routes s' where routes: "route_history_open ?P J (sample_node 9) 16 False ?d = (Ok routes, s')"
    using routes_open_empty by blast
  let ?D = "directory_new sample_root_key (sample_node 9) revocations 16 (Some (handle_of ?P [])) routes"
  obtain j h where c: "dk_cells ?d = slots_of j h" "recoverable ?P 0 [] j h"
    using durable_recovers [OF empty_journal_durable [of ?P 0 "[]"]] unfolding recovers_def journal_disk_def
    by (fastforce simp: slots_of_def cell_outcomes_def settled_def)
  obtain d1 where d1: "journal_open ?P ?d = (Ok (handle_of ?P [], []), d1)" "durable ?P 0 [] (dk_cells d1)" "dk_uid d1 = 0" "dk_faults d1 = []"
    using open_recoverable [OF c(2,1)] by auto
  obtain r D' d2 where run: "directory_compact_if_needed ?P ?D d1 = (r, D', d2)" by (cases "directory_compact_if_needed ?P ?D d1")
  have "outcome_ok True 0 (\<lambda>_ c. D' = ?D \<and> durable ?P 0 [] c) (\<lambda>c. D' = ?D \<and> durable ?P 0 [] c) d1 (r, d2)"
    by (rule sspecD [OF sspec_below_threshold d1(3,2) run]) (simp_all add: directory_new_def journal_image_def)
  then have r: "r = Ok ()" "D' = ?D" using d1(4) by (cases r; auto)+
  have "canonical_frame_count ?D = 0" by (simp add: canonical_frame_count_def directory_new_def bt_values_def)
  then have "open_with_history_limit ?P J (Ok ()) sample_root_key (sample_node 9) revocations 16 ?d ?d = (Ok ?D, s', d2)"
    using assms routes d1(1) run r
    by (simp add: open_with_history_limit_def validate_history_limit_def MIN_ADDRESS_HISTORY_def MAX_ADDRESS_HISTORY_def so_bind_def
        so_lift_def so_attempt_def so_run on_routes_def on_directory_def)
  then show ?thesis using that unfolding opened_def by blast
qed

text \<open>An opened directory and what it is after a page with one contact.\<close>

lemma sample_run:
  obtains revocations D0 D c where "opened reference_prims J sample_root_key (sample_node 9) revocations 16 D0"
    "directory_step reference_prims J D0 D" "registers_of (pd_entries D0) = Map.empty"
    "registers_of (pd_entries D) = [sample_node 5 \<mapsto> (c, None)]" "usable reference_prims D (sample_node 5) 1500 = Some c"
proof -
  let ?P = reference_prims and ?d = "journal_disk reference_prims 0 [] []"
  obtain revocations where rv: "verify_revocations ?P revocations sample_root_key = Ok ()" "\<And>n. \<not> revocation_contains revocations n"
    by (rule sample_revocations) blast
  obtain routes where D0: "opened ?P J sample_root_key (sample_node 9) revocations 16
      (directory_new sample_root_key (sample_node 9) revocations 16 (Some (handle_of ?P [])) routes)" (is "opened _ _ _ _ _ _ ?D0")
    by (rule sample_opened [OF rv(1)]) blast
  obtain c where c: "verify_contact ?P c sample_root_key 1500 = Ok ()" "contact_wf ?P c" "contact_record c = sample_record 5 1"
    by (rule sample_contact [of 1 5]) simp
  have other: "sample_node 5 \<noteq> sample_node 9" using sample_nodes_distinct [of 5 9] by auto
  have f: "pd_root_key ?D0 = sample_root_key" "pd_local_node ?D0 = sample_node 9" "pd_entries ?D0 = []" "pd_revocations ?D0 = revocations"
    by (simp_all add: directory_new_def)
  have filed: "filed ?P (dk_uid ?d) ?D0 [] (dk_cells ?d)" by (simp add: filed_def directory_new_def entries_ok_def)
  have cs: "coalesced_candidates ?P ?D0 [c] 1500 = [c]"
    using c rv other by (simp add: coalesced_candidates_def f sample_record_def coalesce_def bt_values_def MAX_PAGE_CONTACTS_def)
  have rs: "absorb_each (sample_node 9) [c] (registers_of []) = [sample_node 5 \<mapsto> (c, None)]"
    using c(3) other by (simp add: absorb_each_def absorb_registers_def registers_of_def sample_record_def MAX_HIVE_MEMBERS_def dom_def fun_eq_iff)
  obtain r D d' where run: "import_page ?P [c] 1500 ?D0 ?d = (r, D, d')" by (cases "import_page ?P [c] 1500 ?D0 ?d")
  have small: "length (journal_image ?P []) < 8388608" by (simp add: journal_image_def)
  have out: "registers_of (pd_entries D) = [sample_node 5 \<mapsto> (c, None)] \<and> D = ?D0\<lparr>pd_journal := pd_journal D, pd_entries := pd_entries D\<rparr>"
    using reference.page_outcome [OF filed refl _ small run refl] c(2) cs rs f by (cases r) auto
  have step: "directory_step ?P J ?D0 D" using directory_step.takes_page [OF _ run] c(2) by simp
  have "pd_revocations D = revocations" "pd_root_key D = sample_root_key"
    using arg_cong [OF conjunct2 [OF out], of pd_revocations] arg_cong [OF conjunct2 [OF out], of pd_root_key] f by simp_all
  then have "usable ?P D (sample_node 5) 1500 = Some c"
    using c(1) rv(2) fun_cong [OF conjunct1 [OF out], of "sample_node 5"]
    by (auto simp: usable_def registers_of_def is_conflicted_def split: option.splits)
  then show ?thesis using that [OF D0 step] out f(3) by (simp add: registers_of_def fun_eq_iff)
qed

section \<open>The invariant\<close>



section \<open>Versions never go back\<close>

text \<open>
  C7. Over every run of a directory, the contact it lets other parts use for a peer never gets older, and
  a peer caught signing two records under one number, or revoked, is never usable again.
\<close>

theorem versions_never_regress:
  assumes "opened P J root loc revocations limit D0" and "(directory_step P J)\<^sup>*\<^sup>* D0 D" and "(directory_step P J)\<^sup>*\<^sup>* D D'"
  shows "(usable P D n t = Some c \<and> usable P D' n t' = Some c' \<longrightarrow> contact_node c' = contact_node c \<and> contact_version c \<le> contact_version c') \<and>
    ((\<exists>e. bt_get (pd_entries D) n = Some e \<and> is_conflicted e) \<or> is_revoked D n \<longrightarrow> usable P D' n t' = None)"
proof -
  have D: "directory_ok P J D" using opened_ok [OF assms(1)] directory_steps_kept [OF assms(2)] by blast
  then have D': "directory_ok P J D'" and le: "directory_le D D'" using directory_steps_kept [OF assms(3)] by blast+
  have node: "contact_node (pe_current e) = n" if "directory_ok P J E" "bt_get (pd_entries E) n = Some e" for E e
    using that by (auto simp: directory_ok_def entries_ok_def entry_ok_def set_entry_contacts)
  have reg: "\<exists>e'. bt_get (pd_entries D') n = Some e' \<and> register_le (pe_current e, pe_conflict e) (pe_current e', pe_conflict e')"
    if "bt_get (pd_entries D) n = Some e" for e
    using le that by (fastforce simp: directory_le_def registers_le_def registers_of_def dest: spec [of _ n])
  have rev: "is_revoked D n \<Longrightarrow> is_revoked D' n" using le by (simp add: directory_le_def revocations_le_def is_revoked_def)
  show ?thesis
  proof (intro conjI impI)
    assume "usable P D n t = Some c \<and> usable P D' n t' = Some c'"
    then obtain e e' where e: "bt_get (pd_entries D) n = Some e" "pe_current e = c" "bt_get (pd_entries D') n = Some e'" "pe_current e' = c'"
      by (auto simp: usable_def split: option.splits if_splits)
    then have "register_le (c, pe_conflict e) (c', pe_conflict e')" using reg by auto
    then show "contact_node c' = contact_node c" "contact_version c \<le> contact_version c'"
      using node [OF D e(1)] node [OF D' e(3)] e(2,4) by (auto simp: register_le_def contact_version_def)
  next
    assume "(\<exists>e. bt_get (pd_entries D) n = Some e \<and> is_conflicted e) \<or> is_revoked D n"
    then show "usable P D' n t' = None"
      using reg rev by (fastforce simp: usable_def is_revoked_def is_conflicted_def register_le_def split: option.splits)
  qed
qed

theorem versions_never_regress_witness:
  "\<exists>J revocations D0 D c. opened reference_prims J sample_root_key (sample_node 9) revocations 16 D0 \<and>
     directory_step reference_prims J D0 D \<and> usable reference_prims D (sample_node 5) 1500 = Some c \<and>
     (\<forall>D' c'. directory_step reference_prims J D D' \<and> usable reference_prims D' (sample_node 5) 1500 = Some c' \<longrightarrow>
        contact_version c \<le> contact_version c')"
proof -
  define J where "J = reference_codecs"
  obtain revocations D0 D c where o: "opened reference_prims J sample_root_key (sample_node 9) revocations 16 D0"
    and s: "directory_step reference_prims J D0 D" and u: "usable reference_prims D (sample_node 5) 1500 = Some c"
    by (rule sample_run)
  then show ?thesis
    using versions_never_regress [OF o r_into_rtranclp [of "directory_step reference_prims J", OF s]
        r_into_rtranclp [of "directory_step reference_prims J" D], of _ "sample_node 5" 1500 c 1500] by blast
qed

section \<open>Claims are bounded and fair\<close>

text \<open>
  C17. The table of reachability claims holds at most 16 claims and at most four of a peer, and importing a
  claim never takes the last unexpired claim of anybody, this computer included.
\<close>

theorem claims_fair:
  assumes "opened P J root loc revocations limit D0" and "(directory_step P J)\<^sup>*\<^sup>* D0 D"
    and "import_reachability P claim now D d = (r, D', d')"
  shows "length (pd_reachability D') \<le> MAX_REACHABILITY_CLAIMS \<and>
    (q \<noteq> loc \<longrightarrow> claims_by q (pd_reachability D') \<le> MAX_CLAIMS_PER_REPORTER) \<and>
    (0 < claims_by q (pd_reachability (pruned now D)) \<longrightarrow> 0 < claims_by q (pd_reachability D'))"
proof -
  have D: "directory_ok P J D" "directory_le D0 D" using opened_ok [OF assms(1)] directory_steps_kept [OF assms(2)] by blast+
  then have "claims_ok D" "pd_local_node D = loc" using opened_ok [OF assms(1)] by (simp_all add: directory_ok_def directory_le_def)
  note out = endsD [OF ends_import_reachability [OF this(1)] assms(3)] this(2)
  then have "pd_local_node D' = loc" by (metis PeerDirectory.select_convs(2) PeerDirectory.surjective PeerDirectory.update_convs(5))
  then show ?thesis using out by (auto simp: claims_ok_def dest: spec [of _ q])
qed

text \<open>A claim that one peer saw another at a public address.\<close>

lemma sample_claim:
  obtains claim where "verify_claim reference_prims claim sample_root_key 1500 = Ok ()" "rc_reporter claim = sample_node 5"
    "claim_candidate claim = Ok (EndpointCandidate Reflexive QuicV1 (SocketV4 134744072 443))" "1500 \<le> rc_expires_at claim"
proof -
  let ?P = reference_prims and ?dev = "\<lparr>device_seed = 5\<rparr>"
  obtain m where m: "verify_membership ?P m sample_root_key = Ok ()" "mc_device_verifying_key (sm_certificate m) = 5"
    "mc_node_id (sm_certificate m) = sample_node 5" "mc_hive_id (sm_certificate m) = root_hive_id ?P \<lparr>root_seed = 1\<rparr>"
    "mc_expires_at (sm_certificate m) = 3000" "membership_wf ?P m"
    by (rule sample_membership_signed)
  have other: "sample_node 5 \<noteq> sample_node 7" using sample_nodes_distinct [of 5 7] by auto
  have dev: "device_verifying_key ?P ?dev = 5" by (simp add: device_verifying_key_def)
  then have node: "device_node_id ?P ?dev = sample_node 5" by (simp add: device_node_id_def)
  obtain bs where "encode_signed_membership ?P m = Ok bs"
    using reference.encode_signed_membership_ok m(6) by (auto simp: membership_wf_def)
  then obtain claim where claim: "sign_claim ?P m ?dev (sample_node 7) (SocketV4 134744072 443) PeerObserved 1400 = Ok claim"
    and fields_of: "rc_reporter claim = sample_node 5" "rc_source claim = PeerObserved" "rc_address claim = SocketV4 134744072 443"
      "rc_expires_at claim = 2000"
    using m(3) other
    by (simp add: sign_claim_def claim_validate_shape_def claim_candidate_def sample_candidate node saturating_add_def saturating_sub_def
        MAX_CLAIM_LIFETIME_SECONDS_def encode_payload_def encode_payload_with_fields_def)
  have "verify_claim ?P claim sample_root_key 1500 = Ok ()"
    by (rule reference.sign_claim_verifies [OF claim m(1)])
      (simp_all add: m(2,5) dev fields_of membership_validate_time_def saturating_add_def CLAIM_FUTURE_SKEW_SECONDS_def)
  then show ?thesis using that [of claim] fields_of by (simp add: claim_candidate_def sample_candidate)
qed

text \<open>A directory that took such a claim.\<close>

lemma sample_claimed:
  obtains revocations D0 D where "opened reference_prims J sample_root_key (sample_node 9) revocations 16 D0"
    "directory_step reference_prims J D0 D" "claims_by (sample_node 5) (pd_reachability (pruned 1500 D)) = 1"
    "claims_by (sample_node 5) (pd_reachability D) = 1"
proof -
  let ?P = reference_prims
  obtain revocations where rv: "verify_revocations ?P revocations sample_root_key = Ok ()" "\<And>n. \<not> revocation_contains revocations n"
    by (rule sample_revocations) blast
  obtain routes where D0: "opened ?P J sample_root_key (sample_node 9) revocations 16
      (directory_new sample_root_key (sample_node 9) revocations 16 (Some (handle_of ?P [])) routes)" (is "opened _ _ _ _ _ _ ?D")
    by (rule sample_opened [OF rv(1)]) blast
  obtain claim where claim: "verify_claim ?P claim sample_root_key 1500 = Ok ()" "rc_reporter claim = sample_node 5"
    "claim_candidate claim = Ok (EndpointCandidate Reflexive QuicV1 (SocketV4 134744072 443))" "1500 \<le> rc_expires_at claim"
    by (rule sample_claim)
  have other: "sample_node 5 \<noteq> sample_node 9" using sample_nodes_distinct [of 5 9] by auto
  have public: "\<not> undialable (SocketV4 134744072 443)" by (simp add: undialable_def ip_is_loopback_def v6_link_local_def v4_is_loopback_def sample_octets)
  let ?E = "?D\<lparr>pd_reachability := [((rc_subject claim, SocketV4 134744072 443, sample_node 5), claim)]\<rparr>"
  have "import_reachability ?P claim 1500 ?D d = (Ok True, ?E, d)" for d
    using claim rv(2) other public
    by (simp add: import_reachability_def directory_new_def prune_reachability_def reserve_reachability_slot_def slot_victim_def
        reporter_counts_def MAX_CLAIMS_PER_REPORTER_def MAX_REACHABILITY_CLAIMS_def Let_def so_run bt_values_def)
  then have "directory_step ?P J ?D ?E" by (rule directory_step.claims)
  moreover have "claims_by (sample_node 5) (pd_reachability (pruned 1500 ?E)) = 1" "claims_by (sample_node 5) (pd_reachability ?E) = 1"
    using claim rv(2) by (simp_all add: claims_by_def pruned_def directory_new_def)
  ultimately show ?thesis using that D0 by blast
qed

theorem claims_fair_witness:
  "\<exists>J revocations D0 D. opened reference_prims J sample_root_key (sample_node 9) revocations 16 D0 \<and>
     directory_step reference_prims J D0 D \<and> claims_by (sample_node 5) (pd_reachability D) = 1 \<and>
     (\<forall>claim d r D' d'. import_reachability reference_prims claim 1500 D d = (r, D', d') \<longrightarrow>
        0 < claims_by (sample_node 5) (pd_reachability D') \<and> claims_by (sample_node 5) (pd_reachability D') \<le> 4)"
proof -
  define J where "J = reference_codecs"
  obtain revocations D0 D where o: "opened reference_prims J sample_root_key (sample_node 9) revocations 16 D0"
    and s: "directory_step reference_prims J D0 D" and one: "claims_by (sample_node 5) (pd_reachability (pruned 1500 D)) = 1"
      "claims_by (sample_node 5) (pd_reachability D) = 1"
    by (rule sample_claimed)
  have other: "sample_node 5 \<noteq> sample_node 9" using sample_nodes_distinct [of 5 9] by auto
  have "0 < claims_by (sample_node 5) (pd_reachability D') \<and> claims_by (sample_node 5) (pd_reachability D') \<le> 4"
    if "import_reachability reference_prims claim 1500 D d = (r, D', d')" for claim d r D' d'
    using claims_fair [OF o r_into_rtranclp [of "directory_step reference_prims J", OF s] that, of "sample_node 5"] one other
    by (simp add: MAX_CLAIMS_PER_REPORTER_def)
  then show ?thesis using o s one by blast
qed

end
