(* ===== verification/Route_Properties.thy ===== *)
theory Route_Properties
  imports Route_Samples Journal_Properties
begin

text \<open>The properties of the route history: what it remembers survives restarts, and compaction keeps it.\<close>

section \<open>Remembered routes are offered again\<close>

lemma route_known_offered:
  assumes "route_known h r" and "\<forall>ip. rt_local_ip r = Some ip \<longrightarrow> (\<exists>n \<in> set networks. in_address n = ip)"
  shows "rt_address r \<in> set (route_addresses h (rt_peer r) (rt_pin r) networks)"
  using assms by (force simp: route_known_def route_addresses_def list_ex_iff split: option.splits)

lemma remember_known:
  assumes run: "route_remember P J device peer pin address local_ip now h d = (Ok x, h', d')" and "0 < rh_limit h"
    and shown: "is_private (canonical_socket_address address) \<longrightarrow> local_ip \<noteq> None"
  shows "route_known h' (route_of peer pin address local_ip now)"
  using run
proof (cases rule: remember_cases)
  case skipped
  then show ?thesis using shown by auto
next
  case (writes a f)
  let ?r = "route_of peer pin address local_ip now"
  have inserted: "route_known h2 ?r" if "route_insert (h\<lparr>rh_journal := k\<rparr>) a = Ok h2" for h2 k
    using that writes(2) assms(2)
    by (auto simp: route_known_def route_insert_merge route_merge_def result_simps Let_def gr0_conv_Suc split: if_splits)
  have compacted: "route_known h3 ?r" if "route_compact_if_needed P J h2 d2 = (r, h3, d3)" "route_known h2 ?r" for h2 h3 d2 d3 r
    using that endsD [OF ends_route_compact that(1)] by (simp add: route_known_def)
  show ?thesis
    using writes(1) unfolding route_append_def by (auto simp: so_bind_attempt so_bind_lift so_run split: prod.splits sum.splits intro: compacted inserted)
qed


text \<open>Remembering a public address on an empty history.\<close>

lemma sample_address:
  "is_private (SocketV4 134744072 443) = False" "is_ok (candidate_new Reflexive QuicV1 (SocketV4 134744072 443)) = True"
  by (simp_all add: is_private_def sample_candidate)

lemma sample_remember:
  assumes "h = (route_history_empty 16)\<lparr>rh_journal := Some (handle_of reference_prims [])\<rparr>" and "\<not> device_node_id reference_prims device = peer"
  shows "routes_filed reference_prims reference_codecs 0 (device_node_id reference_prims device) h [] (dk_cells (journal_disk reference_prims 0 [] []))"
    "\<exists>h' d'. route_remember reference_prims reference_codecs device peer pin (SocketV4 134744072 443) None 7 h (journal_disk reference_prims 0 [] []) = (Ok (), h', d')"
proof -
  let ?P = reference_prims and ?J = reference_codecs and ?d = "journal_disk reference_prims 0 [] []" and ?loc = "device_node_id reference_prims device"
  let ?r = "\<lparr>rt_peer = peer, rt_pin = pin, rt_address = SocketV4 134744072 443, rt_local_ip = None, rt_observed_at = 7\<rparr>"
  let ?a = "\<lparr>at_route = ?r, at_recorder_key = device_verifying_key ?P device,
    at_signature = hex_encode ?J (be_bytes (device_sign_domain ?P device ROUTE_DOMAIN (route_text ?r)))\<rparr>"
  have json: "route_to_json ?J r = Some (route_text r)" for r by (simp add: reference_codecs_def)
  show filed: "routes_filed ?P ?J 0 ?loc h [] (dk_cells ?d)"
    by (auto simp: routes_filed_def assms(1) route_history_empty_def routes_read_def)
  have valid: "route_validate ?r = Ok ()"
    using sample_address by (auto simp: route_validate_def is_private_def split: sum.splits)
  have verified: "attestation_verify ?P ?J ?loc ?a = Ok ()"
    using valid assms(2) reference.device_signature_verifies [of device ROUTE_DOMAIN "route_text ?r"]
    by (simp add: attestation_verify_def reference_text.hex_decode_encode json device_node_id_def reference.device_key_valid)
  obtain f where f: "attestation_to_json ?J ?a = Some f" "length f \<le> ROUTE_MAX_FRAME"
    by (simp add: reference_codecs_def ROUTE_MAX_FRAME_def bytes_text_def text_bytes_def)
  have kept: "route_kept ?P ?J ?loc ?a" using verified f by (simp add: route_kept_def)
  obtain m where m: "route_merge (rh_limit h) ?a (rh_records h) = Ok m"
    by (simp add: route_merge_def assms(1) route_history_empty_def MAX_HIVE_MEMBERS_def)
  obtain r h' d' where run: "route_append ?P ?J ?a f h ?d = (r, h', d')" by (cases "route_append ?P ?J ?a f h ?d")
  have "outcome_ok True 0 (\<lambda>_ c. routes_filed ?P ?J 0 ?loc h' ([] @ [f]) c \<and> rh_records h' = m) (recovers ?P 0 {[], [] @ [f]}) ?d (r, d')"
    by (rule sspecD [OF sspec_route_append [OF filed _ kept f(1) reference_text.json_nonempty [OF f(1)] f(2) m] _ _ run])
      (simp_all add: journal_image_def COMPACT_AFTER_def)
  then have "r = Ok ()" by (cases r) auto
  then show "\<exists>h' d'. route_remember ?P ?J device peer pin (SocketV4 134744072 443) None 7 h ?d = (Ok (), h', d')"
    using run valid verified f sample_address(1)
    by (simp add: route_remember_def assms(1) route_history_empty_def json so_bind_lift MAX_HIVE_MEMBERS_def not_less Let_def)
qed


end
