(* ===== verification/Spec2Isabelle.thy ===== *)
theory Spec2Isabelle
  imports State_Joining Peer_Runs Route_Properties
begin

text \<open>
  Verification of the parts of \<^verbatim>\<open>supgang\<close> that a device must not get wrong: what it signs, what it
  remembers across crashes, and what it believes about its peers. All file names below are relative to
  \<^verbatim>\<open>src/crates/supgang/src/\<close>.

  \<^bold>\<open>The program.\<close> A hive is a set of computers under one root key. A root holder signs membership
  certificates and revocation snapshots; a device signs endpoint records that say how to reach it. Each
  device keeps an authoritative state (its membership, its members, its revocations and the number of
  its last record) and a directory of its peers (their newest contacts, reachability claims, and the
  routes that worked). Both live in memory and in append-only journals; each journal is a file of frames
  beside a witness file that holds the length and digest of what was committed.

  \<^bold>\<open>Conventions.\<close> An array of n bytes is a word of 8n bits, integers keep their width, \<^verbatim>\<open>Result\<close> is a sum
  with the error on the left, \<^verbatim>\<open>BTreeMap\<close> is a list sorted by key. Code of other crates is an argument:
  the record \<^verbatim>\<open>prims\<close> holds SHA-256, Ed25519 and the CBOR primitives, \<^verbatim>\<open>text_codecs\<close> the JSON and
  hexadecimal text of the route history. What is relied on are the laws of the locales \<^verbatim>\<open>minicbor\<close>,
  \<^verbatim>\<open>ed25519\<close>, \<^verbatim>\<open>primitives\<close> and \<^verbatim>\<open>text_formats\<close>; \<^verbatim>\<open>reference_prims\<close> and \<^verbatim>\<open>reference_codecs\<close> are concrete
  instances, so that the laws are known to be satisfiable and examples can be computed.

  \<^bold>\<open>Foundations.\<close>
  \<^item> \<^verbatim>\<open>Prelude\<close>: results, words as byte strings, sorting; \<^verbatim>\<open>Ordered_Map\<close>: the map interface and its
    implementation; \<^verbatim>\<open>Primitives\<close>: the external code and its laws.
  \<^item> \<^verbatim>\<open>Disk\<close>: files with a visible and a durable content. Every system call may fail, by a schedule, and a
    power loss leaves any of the contents that were not yet synchronized. \<^verbatim>\<open>Stateful\<close>: operations of an
    object that owns a journal, with one logic for what they leave on the disk and one for the object.

  \<^bold>\<open>Signed data.\<close>
  \<^item> \<^verbatim>\<open>Identity\<close>: \<^verbatim>\<open>ids.rs\<close>, \<^verbatim>\<open>identity.rs\<close>; \<^verbatim>\<open>Membership\<close>: \<^verbatim>\<open>membership.rs\<close>; \<^verbatim>\<open>Revocation\<close>: \<^verbatim>\<open>revocation.rs\<close>.
  \<^item> \<^verbatim>\<open>Candidate\<close>: \<^verbatim>\<open>candidate.rs\<close>; \<^verbatim>\<open>Endpoint\<close>, \<^verbatim>\<open>Endpoint_Signing\<close>: \<^verbatim>\<open>record.rs\<close>, \<^verbatim>\<open>merge.rs\<close> and the
    names of \<^verbatim>\<open>profile.rs\<close>; \<^verbatim>\<open>Wire\<close>: \<^verbatim>\<open>wire.rs\<close>; \<^verbatim>\<open>Contact\<close>: \<^verbatim>\<open>contact.rs\<close>.
  \<^item> \<^verbatim>\<open>Invitation\<close>: \<^verbatim>\<open>invitation.rs\<close>; \<^verbatim>\<open>Reachability\<close>: \<^verbatim>\<open>reachability.rs\<close>; \<^verbatim>\<open>Network\<close>: \<^verbatim>\<open>network.rs\<close>;
    \<^verbatim>\<open>Storage\<close>: the identity files of \<^verbatim>\<open>storage.rs\<close>.
  Each codec is a \<^verbatim>\<open>canonical_codec\<close>: decoding inverts encoding, and whatever decodes is the encoding of
  what it decodes to. Whatever is signed verifies.

  \<^bold>\<open>The journal\<close> (\<^verbatim>\<open>journal.rs\<close>, \<^verbatim>\<open>journal/witness.rs\<close>).
  \<^item> \<^verbatim>\<open>Journal_Format\<close>, \<^verbatim>\<open>Journal\<close>: bytes and operations. \<^verbatim>\<open>Journal_Recovery\<close>: what opening makes of any
    pair of files. \<^verbatim>\<open>Journal_Durability\<close>: appending and compacting, call by call.
  \<^item> \<^verbatim>\<open>Journal_Properties\<close>: appends and batches are atomic and durable under every schedule of faults and
    every power loss, rollbacks are detected, and a compaction that stops between its rename and its
    witness leaves a journal that does not open again.

  \<^bold>\<open>The authoritative state\<close> (\<^verbatim>\<open>state.rs\<close>, \<^verbatim>\<open>state/event.rs\<close>, \<^verbatim>\<open>state/compaction.rs\<close>).
  \<^item> \<^verbatim>\<open>State_Event\<close>, \<^verbatim>\<open>State\<close>: events, replay and transitions. \<^verbatim>\<open>State_Replay\<close>, \<^verbatim>\<open>State_Durability\<close>,
    \<^verbatim>\<open>State_Transitions\<close>, \<^verbatim>\<open>State_Creation\<close>: every operation refines one step of the log of events.
    \<^verbatim>\<open>State_History\<close>: a device that runs, crashes and reopens as a step relation.
  \<^item> \<^verbatim>\<open>State_Properties\<close>, \<^verbatim>\<open>State_Joining\<close>: sequence numbers are never reused, nothing is rolled back, every
    replayed state is well formed, and founding, admission and joining complete or can be repeated.

  \<^bold>\<open>The peer directory\<close> (\<^verbatim>\<open>peer_directory.rs\<close> and the files of \<^verbatim>\<open>peer_directory/\<close>).
  \<^item> \<^verbatim>\<open>Route_History\<close>, \<^verbatim>\<open>Peer_Directory\<close>: the operations. \<^verbatim>\<open>Peer_Merge\<close>: importing a contact as a function on
    the entries, and on one register per peer (the current contact and the evidence against it).
    \<^verbatim>\<open>Peer_Durability\<close>: pages against the journal. \<^verbatim>\<open>Peer_Claims\<close>: admission to the claim table.
    \<^verbatim>\<open>Peer_Invariant\<close>: the invariant of a directory and its operations as a step relation.
    \<^verbatim>\<open>Route_Merge\<close>, \<^verbatim>\<open>Route_Durability\<close>: the same for routes. \<^verbatim>\<open>Peer_Samples\<close>, \<^verbatim>\<open>Route_Samples\<close>: examples.
  \<^item> \<^verbatim>\<open>Peer_Properties\<close>, \<^verbatim>\<open>Peer_Runs\<close>, \<^verbatim>\<open>Route_Properties\<close>: pages are atomic and durable, versions never go
    back, equivocation and revocation are final, claims are bounded and fair, and routes survive.

  \<^bold>\<open>Bounds.\<close> There is no fuel: the loops are structural recursions, apart from the search in a sorted array and
  the loop over the frames of a file, whose termination is proved. The durability of pages is stated for
  journals below the threshold of 8 MiB and history limits of at most 61, for which the 255 entries fit
  after a compaction; that of routes for a journal below 1 MiB by more than one frame, so that no
  compaction runs, and for addresses without IPv6 flow label, which the text form drops.

  \<^bold>\<open>Not modelled.\<close> The asynchronous service, QUIC sessions and transport, local control, the command line,
  platform services and updates are drivers of external libraries, sockets and processes. Permissions and
  locks of files enter as outcomes of the opening operations. The threshold prototype, hardware keys,
  tunnels and settings in JSON are not used by the parts above.
\<close>

end
